(* ===== verification/Niphas_Prelude.thy ===== *)
theory Niphas_Prelude
  imports Main "HOL-Library.Word" "HOL-Library.Char_ord" "HOL-Library.List_Lexorder"
begin

text \<open>
  Shared vocabulary of the development: the machine integers of the code, the
  result type of a Rust computation, checked indexing, and the generic facts on
  lists and bits that several components use.

  A Rust function of type \<open>Result<T, E>\<close> can return \<open>Ok\<close>, return \<open>Err\<close>, or
  panic. The datatype \<open>outcome\<close> has one constructor for each, and a fourth,
  \<open>Diverge\<close>, that is only ever the value of a loop modelled with fuel whose fuel
  ran out. Every loop with fuel comes with a theorem that says how much fuel
  excludes \<open>Diverge\<close>. The release profile of the workspace sets
  \<open>panic = "abort"\<close> (src/Cargo.toml), so \<open>Panic\<close> is the end of the process and
  not of one request.
\<close>

unbundle bit_operations_syntax

type_synonym u8 = "8 word"
type_synonym u16 = "16 word"
type_synonym u32 = "32 word"
type_synonym u64 = "64 word"
type_synonym bytes = "8 word list"

named_theorems outcome_simps \<open>how the sequencing of fallible steps computes\<close>
named_theorems str_simps \<open>rewriting of string and character operations\<close>

section \<open>Outcomes of Rust computations\<close>

datatype ('e, 'a) outcome = Ok (outcome_value: 'a) | Err (outcome_error: 'e) | Panic | Diverge

text \<open>The question-mark operator: run the rest of the function on \<open>Ok\<close>, leave otherwise.\<close>

fun obind :: "('e, 'a) outcome \<Rightarrow> ('a \<Rightarrow> ('e, 'b) outcome) \<Rightarrow> ('e, 'b) outcome" where
  "obind (Ok x) f = f x"
| "obind (Err e) f = Err e"
| "obind Panic f = Panic"
| "obind Diverge f = Diverge"

text \<open>\<open>Result::map_err\<close>.\<close>

fun omap_err :: "('e \<Rightarrow> 'f) \<Rightarrow> ('e, 'a) outcome \<Rightarrow> ('f, 'a) outcome" where
  "omap_err g (Ok x) = Ok x"
| "omap_err g (Err e) = Err (g e)"
| "omap_err g Panic = Panic"
| "omap_err g Diverge = Diverge"

text \<open>\<open>Option::ok_or_else\<close>.\<close>

fun ok_or :: "'e \<Rightarrow> 'a option \<Rightarrow> ('e, 'a) outcome" where
  "ok_or e None = Err e"
| "ok_or e (Some x) = Ok x"

text \<open>\<open>slice[i]\<close>, which panics out of range.\<close>

definition index_checked :: "'a list \<Rightarrow> nat \<Rightarrow> ('e, 'a) outcome" where
  "index_checked xs i = (if i < length xs then Ok (xs ! i) else Panic)"

text \<open>A loop that leaves at the first step that does not return \<open>Ok\<close>
  (\<open>iter().map(f).collect::<Result<Vec<_>, _>>()\<close>).\<close>

fun omap :: "('a \<Rightarrow> ('e, 'b) outcome) \<Rightarrow> 'a list \<Rightarrow> ('e, 'b list) outcome" where
  "omap f [] = Ok []"
| "omap f (x # xs) = obind (f x) (\<lambda>y. obind (omap f xs) (\<lambda>ys. Ok (y # ys)))"

text \<open>A loop over a list that threads a state and leaves at the first step that is not \<open>Ok\<close>.\<close>

fun ofold :: "('s \<Rightarrow> 'a \<Rightarrow> ('e, 's) outcome) \<Rightarrow> 'a list \<Rightarrow> 's \<Rightarrow> ('e, 's) outcome" where
  "ofold f [] s = Ok s"
| "ofold f (x # xs) s = obind (f s x) (ofold f xs)"

lemma obind_eq_Ok [outcome_simps]: "obind m f = Ok y \<longleftrightarrow> (\<exists>x. m = Ok x \<and> f x = Ok y)"
  by (cases m) auto

lemma obind_eq_Err [outcome_simps]:
  "obind m f = Err e \<longleftrightarrow> m = Err e \<or> (\<exists>x. m = Ok x \<and> f x = Err e)"
  by (cases m) auto

lemma obind_eq_Panic [outcome_simps]:
  "obind m f = Panic \<longleftrightarrow> m = Panic \<or> (\<exists>x. m = Ok x \<and> f x = Panic)"
  by (cases m) auto

lemma obind_eq_Diverge [outcome_simps]:
  "obind m f = Diverge \<longleftrightarrow> m = Diverge \<or> (\<exists>x. m = Ok x \<and> f x = Diverge)"
  by (cases m) auto

lemma omap_err_eq_Ok [outcome_simps]: "omap_err g m = Ok x \<longleftrightarrow> m = Ok x"
  by (cases m) auto

lemma omap_err_eq_Err [outcome_simps]:
  "omap_err g m = Err e \<longleftrightarrow> (\<exists>e'. m = Err e' \<and> e = g e')"
  by (cases m) auto

lemma omap_err_eq_Panic [outcome_simps]: "omap_err g m = Panic \<longleftrightarrow> m = Panic"
  by (cases m) auto

lemma omap_err_eq_Diverge [outcome_simps]: "omap_err g m = Diverge \<longleftrightarrow> m = Diverge"
  by (cases m) auto

lemma ok_or_eq_Ok [outcome_simps]: "ok_or e m = Ok x \<longleftrightarrow> m = Some x"
  by (cases m) auto

lemma ok_or_eq_Err [outcome_simps]: "ok_or e m = Err e' \<longleftrightarrow> m = None \<and> e' = e"
  by (cases m) auto

lemma ok_or_not_Panic [outcome_simps]: "ok_or e m \<noteq> Panic" "ok_or e m \<noteq> Diverge"
  by (cases m; simp)+

lemma index_checked_eq_Ok [outcome_simps]:
  "index_checked xs i = Ok x \<longleftrightarrow> i < length xs \<and> x = xs ! i"
  by (auto simp: index_checked_def)

lemma index_checked_in [simp]: "i < length xs \<Longrightarrow> index_checked xs i = Ok (xs ! i)"
  by (simp add: index_checked_def)

lemma if_Err_eq_Ok: "(if b then Err e else m) = Ok x \<longleftrightarrow> \<not> b \<and> m = Ok x"
  by simp

text \<open>A computation that returns, with a value or an error.\<close>

definition settled :: "('e, 'a) outcome \<Rightarrow> bool" where
  "settled m \<longleftrightarrow> m \<noteq> Panic \<and> m \<noteq> Diverge"

lemma settled_simps [simp]:
  "settled (Ok x)" "settled (Err e)" "\<not> settled Panic" "\<not> settled Diverge"
  by (simp_all add: settled_def)

lemma settled_iff: "settled m \<longleftrightarrow> (\<exists>x. m = Ok x) \<or> (\<exists>e. m = Err e)"
  by (cases m) simp_all

lemma settled_obind [intro]:
  "settled m \<Longrightarrow> (\<And>x. m = Ok x \<Longrightarrow> settled (f x)) \<Longrightarrow> settled (obind m f)"
  by (cases m) simp_all

lemma settled_ok_or [simp]: "settled (ok_or e m)"
  by (cases m) simp_all

lemma settled_omap_err [simp]: "settled (omap_err g m) \<longleftrightarrow> settled m"
  by (cases m) simp_all

lemma obind_assoc: "obind (obind m f) g = obind m (\<lambda>x. obind (f x) g)"
  by (cases m) auto

lemma omap_Ok_iff: "omap f xs = Ok ys \<longleftrightarrow> list_all2 (\<lambda>x y. f x = Ok y) xs ys"
proof (induction xs arbitrary: ys)
  case Nil
  then show ?case by auto
next
  case (Cons x xs)
  show ?case
    by (cases ys) (auto simp: obind_eq_Ok Cons.IH)
qed

lemma omap_all_Ok: "(\<And>x. x \<in> set xs \<Longrightarrow> f x = Ok (g x)) \<Longrightarrow> omap f xs = Ok (map g xs)"
  by (induction xs) auto

lemma ofold_append: "ofold f (xs @ ys) s = obind (ofold f xs s) (ofold f ys)"
proof (induction xs arbitrary: s)
  case (Cons x xs)
  then show ?case by (cases "f s x") simp_all
qed simp

lemma ofold_inv:
  assumes "ofold f xs s = Ok t" and "P s" and "\<And>s x t. f s x = Ok t \<Longrightarrow> P s \<Longrightarrow> P t"
  shows "P t"
  using assms(1,2)
proof (induction xs arbitrary: s)
  case (Cons x xs)
  then obtain u where "f s x = Ok u" "ofold f xs u = Ok t" by (auto simp: obind_eq_Ok)
  then show ?case using Cons.IH Cons.prems assms(3) by blast
qed simp

lemma omap_map: "omap f (map g xs) = omap (\<lambda>x. f (g x)) xs"
  by (induction xs) auto

section \<open>Interfaces shared by several components\<close>

text \<open>
  The formats of the program come in pairs of a printer and a parser. The locale
  states what such a pair promises on the values that satisfy \<open>valid\<close>; the
  client lemmas hold for every pair that is interpreted.
\<close>

locale codec =
  fixes print :: "'a \<Rightarrow> 'b"
    and parse :: "'b \<Rightarrow> ('e, 'a) outcome"
    and valid :: "'a \<Rightarrow> bool"
  assumes parse_print: "valid x \<Longrightarrow> parse (print x) = Ok x"
    and parse_valid: "parse s = Ok x \<Longrightarrow> valid x"
begin

lemma print_inj_on: "inj_on print {x. valid x}"
proof (rule inj_onI)
  fix x y
  assume x: "x \<in> {x. valid x}" and y: "y \<in> {x. valid x}" and eq: "print x = print y"
  from x have "parse (print x) = Ok x" by (simp add: parse_print)
  moreover from y have "parse (print y) = Ok y" by (simp add: parse_print)
  ultimately show "x = y" using eq by (metis outcome.inject(1))
qed

lemma parse_onto: "valid x \<longleftrightarrow> (\<exists>s. parse s = Ok x)"
  by (auto dest: parse_valid intro: parse_print)

lemma reprint_parse: "parse s = Ok x \<Longrightarrow> parse (print x) = parse s"
  by (simp add: parse_print [OF parse_valid])

end

text \<open>A pair whose parser accepts canonical texts only: printing undoes parsing too.\<close>

locale canonical_codec = codec +
  assumes print_parse: "parse s = Ok x \<Longrightarrow> print x = s"
begin

lemma parse_eq_Ok_iff: "parse s = Ok x \<longleftrightarrow> valid x \<and> s = print x"
  by (auto simp: parse_print dest: parse_valid print_parse)

lemma parse_inj: "parse s = Ok x \<Longrightarrow> parse t = Ok x \<Longrightarrow> s = t"
  by (auto dest!: print_parse)

end

section \<open>Generic facts\<close>

text \<open>Two words of width eight are equal when their eight bits are.\<close>

lemma u8_eq_bits: "(a :: u8) = b \<longleftrightarrow> (\<forall>j < 8. bit a j = bit b j)"
  using bit_word_eqI [of a b] by auto

lemma unat_u8_less [simp]: "unat (b :: u8) < 256"
  using unsigned_less [of b, where ?'a = nat] by simp

lemma unat_u64_le: "unat (w :: u64) \<le> 2 ^ 64 - 1"
  using unsigned_less [of w, where ?'a = nat] by simp

lemma u8_no_high_bit: "j \<ge> 8 \<Longrightarrow> \<not> bit (a :: u8) j"
  using bit_imp_le_length [of a j] by auto

text \<open>A loop that writes each of a list of positions once.\<close>

lemma fold_update_other:
  "\<forall>i < m. f i \<noteq> n \<Longrightarrow> fold (\<lambda>i t. t[f i := g i]) [0..<m] t ! n = t ! n"
  by (induction m) auto

lemma fold_update_length: "length (fold (\<lambda>i t. t[f i := g i]) is t) = length t"
  by (induction "is" arbitrary: t) auto

lemma fold_update_at:
  "inj_on f {..<m} \<Longrightarrow> i < m \<Longrightarrow> f i < length t \<Longrightarrow>
     fold (\<lambda>i t. t[f i := g i]) [0..<m] t ! f i = g i"
proof (induction m)
  case (Suc m)
  show ?case
  proof (cases "i = m")
    case True
    with Suc.prems show ?thesis by (simp add: fold_update_length)
  next
    case False
    with Suc.prems have "f i \<noteq> f m" by (auto simp: inj_on_def)
    with False Suc show ?thesis by (auto simp: lessThan_Suc)
  qed
qed simp

text \<open>A bit position as a byte index and an index in the byte.\<close>

lemma div_mod_8: "p = 8 * q + r \<Longrightarrow> r < 8 \<Longrightarrow> p div 8 = q \<and> p mod 8 = (r :: nat)"
  by simp

end
