(* ===== verification/Rust_Str.thy ===== *)
theory Rust_Str
  imports Niphas_Prelude
begin

text \<open>
  The part of Rust's \<open>str\<close> that the program uses. A \<open>str\<close> is its UTF-8 byte
  sequence, held as an Isabelle \<open>string\<close> (a \<open>char\<close> of HOL is one byte), so that
  \<open>len\<close>, slicing, comparison and literals are those of the code. A Rust \<open>char\<close> is
  the byte string that encodes it; \<open>chars\<close> cuts a string at its character
  boundaries, which in valid UTF-8 are the bytes outside \<open>0x80..0xBF\<close>.
\<close>

section \<open>Bytes and characters\<close>

type_synonym rchar = string

definition as_bytes :: "string \<Rightarrow> bytes" where
  "as_bytes s = map of_char s"

definition str_of_bytes :: "bytes \<Rightarrow> string" where
  "str_of_bytes bs = map (\<lambda>b. char_of (unat b)) bs"

definition is_cont :: "char \<Rightarrow> bool" where
  "is_cont c \<longleftrightarrow> 128 \<le> (of_char c :: nat) \<and> (of_char c :: nat) < 192"

function chars :: "string \<Rightarrow> rchar list" where
  "chars [] = []"
| "chars (c # cs) = (c # takeWhile is_cont cs) # chars (dropWhile is_cont cs)"
  by pat_completeness auto
termination
  by (relation "measure length") (auto simp: le_imp_less_Suc length_dropWhile_le)

text \<open>
  The code point of a character (\<open>ch as usize\<close>, \<open>ch as u32\<close>). Byte strings that encode
  no character, overlong forms among them, do not occur in a \<open>str\<close>; they get a value
  outside the range of code points.
\<close>

definition code_point :: "rchar \<Rightarrow> nat" where
  "code_point ch = (case map (of_char :: char \<Rightarrow> nat) ch of
       [b] \<Rightarrow> b
     | [b, c] \<Rightarrow> let n = (b mod 32) * 64 + c mod 64 in
         if n < 0x80 then 0x110000 else n
     | [b, c, d] \<Rightarrow>
         let n = (b mod 16) * 4096 + (c mod 64) * 64 + d mod 64 in
         if n < 0x800 then 0x110000 else n
     | [b, c, d, e] \<Rightarrow>
         let n = (b mod 8) * 262144 + (c mod 64) * 4096 + (d mod 64) * 64 + e mod 64 in
         if n < 0x10000 then 0x110000 else n
     | _ \<Rightarrow> 0x110000)"

definition is_ascii :: "string \<Rightarrow> bool" where
  "is_ascii s \<longleftrightarrow> (\<forall>c \<in> set s. (of_char c :: nat) < 128)"

definition in_range :: "nat \<Rightarrow> nat \<Rightarrow> rchar \<Rightarrow> bool" where
  "in_range lo hi ch \<longleftrightarrow> lo \<le> code_point ch \<and> code_point ch \<le> hi"

definition is_ascii_lowercase :: "rchar \<Rightarrow> bool" where
  "is_ascii_lowercase = in_range 97 122"

definition is_ascii_uppercase :: "rchar \<Rightarrow> bool" where
  "is_ascii_uppercase = in_range 65 90"

definition is_ascii_digit :: "rchar \<Rightarrow> bool" where
  "is_ascii_digit = in_range 48 57"

definition is_ascii_alphabetic :: "rchar \<Rightarrow> bool" where
  "is_ascii_alphabetic ch \<longleftrightarrow> is_ascii_lowercase ch \<or> is_ascii_uppercase ch"

definition is_ascii_alphanumeric :: "rchar \<Rightarrow> bool" where
  "is_ascii_alphanumeric ch \<longleftrightarrow> is_ascii_alphabetic ch \<or> is_ascii_digit ch"

definition is_ascii_hexdigit :: "rchar \<Rightarrow> bool" where
  "is_ascii_hexdigit ch \<longleftrightarrow> is_ascii_digit ch \<or> in_range 97 102 ch \<or> in_range 65 70 ch"

subsection \<open>Validity of UTF-8\<close>

text \<open>
  One step of the validator of \<open>String::from_utf8\<close>: the length of the character at
  the front, or the error, with \<open>Some n\<close> for \<open>n\<close> bytes that can start no character
  and \<open>None\<close> for a character cut off by the end of the input
  (\<open>Utf8Error::error_len\<close>).
\<close>

datatype utf8_item = Utf8_Char nat | Utf8_Bad "nat option"

definition cont_byte :: "u8 \<Rightarrow> bool" where
  "cont_byte b \<longleftrightarrow> 128 \<le> unat b \<and> unat b < 192"

text \<open>The range of the second byte that a lead byte of a longer character allows.\<close>

definition second_ok :: "nat \<Rightarrow> nat \<Rightarrow> bool" where
  "second_ok a b \<longleftrightarrow>
     (if a = 0xE0 then 0xA0 \<le> b \<and> b \<le> 0xBF
      else if a = 0xED then 0x80 \<le> b \<and> b \<le> 0x9F
      else if a = 0xF0 then 0x90 \<le> b \<and> b \<le> 0xBF
      else if a = 0xF4 then 0x80 \<le> b \<and> b \<le> 0x8F
      else 0x80 \<le> b \<and> b \<le> 0xBF)"

text \<open>The number of bytes a lead byte announces, 0 for a byte that starts no character.\<close>

definition utf8_width :: "nat \<Rightarrow> nat" where
  "utf8_width a =
     (if a < 0x80 then 1
      else if a < 0xC2 then 0
      else if a < 0xE0 then 2
      else if a < 0xF0 then 3
      else if a < 0xF5 then 4 else 0)"

fun utf8_next :: "bytes \<Rightarrow> utf8_item" where
  "utf8_next [] = Utf8_Bad None"
| "utf8_next (a # rest) =
     (let w = utf8_width (unat a) in
      if w = 0 then Utf8_Bad (Some 1)
      else if w = 1 then Utf8_Char 1
      else case rest of
        [] \<Rightarrow> Utf8_Bad None
      | b # rest2 \<Rightarrow>
          if \<not> second_ok (unat a) (unat b) then Utf8_Bad (Some 1)
          else if w = 2 then Utf8_Char 2
          else (case rest2 of
             [] \<Rightarrow> Utf8_Bad None
           | c # rest3 \<Rightarrow>
               if \<not> cont_byte c then Utf8_Bad (Some 2)
               else if w = 3 then Utf8_Char 3
               else (case rest3 of
                  [] \<Rightarrow> Utf8_Bad None
                | d # _ \<Rightarrow> if \<not> cont_byte d then Utf8_Bad (Some 3) else Utf8_Char 4)))"

lemma utf8_next_Char: "utf8_next bs = Utf8_Char n \<Longrightarrow> 0 < n \<and> n \<le> length bs"
  by (cases bs) (auto simp: Let_def split: if_splits list.splits)

text \<open>The first error of a byte string: its index and its length.\<close>

function utf8_error :: "nat \<Rightarrow> bytes \<Rightarrow> (nat \<times> nat option) option" where
  "utf8_error i bs =
     (if bs = [] then None
      else case utf8_next bs of
             Utf8_Char n \<Rightarrow> utf8_error (i + n) (drop n bs)
           | Utf8_Bad e \<Rightarrow> Some (i, e))"
  by pat_completeness auto
termination
  by (relation "measure (\<lambda>(i, bs). length bs)") (auto dest: utf8_next_Char)

declare utf8_error.simps [simp del]

definition utf8_valid :: "bytes \<Rightarrow> bool" where
  "utf8_valid bs \<longleftrightarrow> utf8_error 0 bs = None"

section \<open>Operations on strings\<close>

text \<open>A piece of a format string between two single quotes.\<close>

definition quoted :: "string \<Rightarrow> string" where
  "quoted s = [CHR 0x27] @ s @ [CHR 0x27]"

definition strip_prefix :: "string \<Rightarrow> string \<Rightarrow> string option" where
  "strip_prefix p s = (if take (length p) s = p then Some (drop (length p) s) else None)"

definition strip_suffix :: "string \<Rightarrow> string \<Rightarrow> string option" where
  "strip_suffix p s = map_option rev (strip_prefix (rev p) (rev s))"

fun split_once :: "string \<Rightarrow> string \<Rightarrow> (string \<times> string) option" where
  "split_once p [] = (if p = [] then Some ([], []) else None)"
| "split_once p (c # cs) =
     (case strip_prefix p (c # cs) of
        Some rest \<Rightarrow> Some ([], rest)
      | None \<Rightarrow> map_option (\<lambda>(a, b). (c # a, b)) (split_once p cs))"

text \<open>\<open>split\<close>: the pieces between the separators, at least one.\<close>

fun split_list :: "('a \<Rightarrow> bool) \<Rightarrow> 'a list \<Rightarrow> 'a list list" where
  "split_list P [] = [[]]"
| "split_list P (x # xs) =
     (if P x then [] # split_list P xs
      else (x # hd (split_list P xs)) # tl (split_list P xs))"

definition split_char :: "char \<Rightarrow> string \<Rightarrow> string list" where
  "split_char sep = split_list (\<lambda>c. c = sep)"

fun join :: "string \<Rightarrow> string list \<Rightarrow> string" where
  "join sep [] = []"
| "join sep [x] = x"
| "join sep (x # y # ys) = x @ sep @ join sep (y # ys)"

definition trim_end_matches :: "char \<Rightarrow> string \<Rightarrow> string" where
  "trim_end_matches c s = rev (dropWhile (\<lambda>x. x = c) (rev s))"

text \<open>\<open>char::is_whitespace\<close>: the characters with the Unicode property White_Space.\<close>

definition is_whitespace :: "rchar \<Rightarrow> bool" where
  "is_whitespace ch \<longleftrightarrow>
     in_range 9 13 ch \<or> in_range 0x2000 0x200A ch \<or>
     code_point ch \<in> {0x20, 0x85, 0xA0, 0x1680, 0x2028, 0x2029, 0x202F, 0x205F, 0x3000}"

definition trim :: "string \<Rightarrow> string" where
  "trim s = concat (rev (dropWhile is_whitespace (rev (dropWhile is_whitespace (chars s)))))"

definition split_whitespace :: "string \<Rightarrow> string list" where
  "split_whitespace s =
     map concat (filter (\<lambda>piece. piece \<noteq> []) (split_list is_whitespace (chars s)))"

text \<open>
  \<open>str::lines\<close>: cut after each newline; a line that ended with a newline loses it and
  a carriage return before it; the piece after the last newline is a line when it is
  not empty, and keeps a final carriage return.
\<close>

definition strip_cr :: "string \<Rightarrow> string" where
  "strip_cr s = (case strip_suffix [CHR 0x0D] s of Some r \<Rightarrow> r | None \<Rightarrow> s)"

definition lines :: "string \<Rightarrow> string list" where
  "lines s = (let ps = split_char (CHR 0x0A) s in
     map strip_cr (butlast ps) @ (if last ps = [] then [] else [last ps]))"

text \<open>Slicing panics where the index is not on a character boundary.\<close>

definition is_char_boundary :: "string \<Rightarrow> nat \<Rightarrow> bool" where
  "is_char_boundary s n \<longleftrightarrow> n = 0 \<or> n = length s \<or> (n < length s \<and> \<not> is_cont (s ! n))"

definition slice_to :: "string \<Rightarrow> nat \<Rightarrow> ('e, string) outcome" where
  "slice_to s n = (if is_char_boundary s n then Ok (take n s) else Panic)"

definition slice_from :: "string \<Rightarrow> nat \<Rightarrow> ('e, string) outcome" where
  "slice_from s n = (if is_char_boundary s n then Ok (drop n s) else Panic)"

section \<open>Decimal integers\<close>

datatype int_error = IntEmpty | InvalidDigit | PosOverflow | NegOverflow

fun int_error_display :: "int_error \<Rightarrow> string" where
  "int_error_display IntEmpty = ''cannot parse integer from empty string''"
| "int_error_display InvalidDigit = ''invalid digit found in string''"
| "int_error_display PosOverflow = ''number too large to fit in target type''"
| "int_error_display NegOverflow = ''number too small to fit in target type''"

definition digit_value :: "char \<Rightarrow> nat option" where
  "digit_value c = (let n = of_char c in if 48 \<le> n \<and> n \<le> 57 then Some (n - 48) else None)"

text \<open>The digit loop of \<open>from_str_radix\<close> with the largest value the type holds.\<close>

fun parse_digits :: "nat \<Rightarrow> int_error \<Rightarrow> nat \<Rightarrow> string \<Rightarrow> (int_error, nat) outcome" where
  "parse_digits limit ovf acc [] = Ok acc"
| "parse_digits limit ovf acc (c # cs) =
     (case digit_value c of
        None \<Rightarrow> Err InvalidDigit
      | Some d \<Rightarrow> if limit < 10 * acc + d then Err ovf else parse_digits limit ovf (10 * acc + d) cs)"

definition parse_u64 :: "string \<Rightarrow> (int_error, u64) outcome" where
  "parse_u64 s =
     (if s = [] then Err IntEmpty
      else if s = ''+'' \<or> s = ''-'' then Err InvalidDigit
      else obind (parse_digits (2 ^ 64 - 1) PosOverflow 0 (if hd s = CHR ''+'' then tl s else s))
             (\<lambda>n. Ok (of_nat n)))"

definition parse_i32 :: "string \<Rightarrow> (int_error, int) outcome" where
  "parse_i32 s =
     (if s = [] then Err IntEmpty
      else if s = ''+'' \<or> s = ''-'' then Err InvalidDigit
      else if hd s = CHR ''-''
        then obind (parse_digits (2 ^ 31) NegOverflow 0 (tl s)) (\<lambda>n. Ok (- int n))
      else obind (parse_digits (2 ^ 31 - 1) PosOverflow 0 (if hd s = CHR ''+'' then tl s else s))
             (\<lambda>n. Ok (int n)))"

fun nat_display :: "nat \<Rightarrow> string" where
  "nat_display n =
     (if n < 10 then [char_of (48 + n)] else nat_display (n div 10) @ [char_of (48 + n mod 10)])"

declare nat_display.simps [simp del]

definition int_display :: "int \<Rightarrow> string" where
  "int_display i = (if i < 0 then CHR ''-'' # nat_display (nat (- i)) else nat_display (nat i))"

definition u64_display :: "u64 \<Rightarrow> string" where
  "u64_display w = nat_display (unat w)"

section \<open>Facts on strings\<close>

lemma strip_prefix_eq_Some [str_simps]: "strip_prefix p s = Some r \<longleftrightarrow> s = p @ r"
  by (auto simp: strip_prefix_def) (metis append_take_drop_id)

lemma strip_prefix_eq_None [str_simps]: "strip_prefix p s = None \<longleftrightarrow> (\<nexists>r. s = p @ r)"
  by (metis not_None_eq strip_prefix_eq_Some)

lemma strip_prefix_append [simp]: "strip_prefix p (p @ r) = Some r"
  by (simp add: strip_prefix_def)

lemma strip_suffix_eq_Some [str_simps]: "strip_suffix p s = Some r \<longleftrightarrow> s = r @ p"
  by (auto simp: strip_suffix_def strip_prefix_eq_Some rev_swap)

lemma split_once_Some: "split_once p s = Some (a, b) \<Longrightarrow> s = a @ p @ b"
proof (induction s arbitrary: a)
  case Nil
  then show ?case by (auto split: if_splits)
next
  case (Cons c cs)
  then show ?case by (force split: option.splits simp: str_simps)
qed

lemma split_once_char_Some: "split_once [c] s = Some (a, b) \<Longrightarrow> c \<notin> set a"
  by (induction s arbitrary: a)
    (auto split: option.splits simp: strip_prefix_def split: if_splits)

lemma split_once_char_found: "c \<notin> set a \<Longrightarrow> split_once [c] (a @ c # b) = Some (a, b)"
  by (induction a) (auto simp: strip_prefix_def)

lemma split_once_char_iff:
  "split_once [c] s = Some (a, b) \<longleftrightarrow> s = a @ c # b \<and> c \<notin> set a"
  using split_once_Some [of "[c]" s a b] split_once_char_Some split_once_char_found by force

lemma split_once_char_None: "split_once [c] s = None \<longleftrightarrow> c \<notin> set s"
proof
  assume n: "split_once [c] s = None"
  show "c \<notin> set s"
  proof
    assume "c \<in> set s"
    then obtain a b where "s = a @ c # b" "c \<notin> set a" by (meson split_list_first)
    with n split_once_char_found [of c a b] show False by simp
  qed
next
  assume "c \<notin> set s"
  then show "split_once [c] s = None"
    by (cases "split_once [c] s") (auto dest: split_once_Some)
qed

lemma split_list_not_Nil [simp]: "split_list P xs \<noteq> []"
  by (induction xs) auto

lemma split_list_no_sep: "\<forall>x \<in> set xs. \<not> P x \<Longrightarrow> split_list P xs = [xs]"
  by (induction xs) auto

lemma split_list_sep:
  "\<forall>x \<in> set xs. \<not> P x \<Longrightarrow> P s \<Longrightarrow> split_list P (xs @ s # ys) = xs # split_list P ys"
  by (induction xs) auto

lemma split_list_piece: "piece \<in> set (split_list P xs) \<Longrightarrow> x \<in> set piece \<Longrightarrow> x \<in> set xs \<and> \<not> P x"
proof (induction xs arbitrary: piece x)
  case Nil
  then show ?case by simp
next
  case (Cons y ys)
  show ?case
  proof (cases "P y")
    case True
    with Cons show ?thesis by auto
  next
    case False
    have "hd (split_list P ys) \<in> set (split_list P ys)" by simp
    moreover have "set (tl (split_list P ys)) \<subseteq> set (split_list P ys)"
      by (cases "split_list P ys") auto
    ultimately show ?thesis using Cons.prems Cons.IH False by (auto; blast)
  qed
qed

lemma split_join_char:
  assumes "xs \<noteq> []" and "\<forall>x \<in> set xs. c \<notin> set x"
  shows "split_char c (join [c] xs) = xs"
  using assms
proof (induction "[c]" xs rule: join.induct)
  case 1
  then show ?case by simp
next
  case (2 x)
  then show ?case by (auto simp: split_char_def intro: split_list_no_sep)
next
  case (3 x y ys)
  then have "split_list (\<lambda>z. z = c) (x @ c # join [c] (y # ys)) =
      x # split_list (\<lambda>z. z = c) (join [c] (y # ys))"
    by (intro split_list_sep) auto
  with 3 show ?case by (simp add: split_char_def)
qed

lemma join_split_char: "join [c] (split_char c s) = s"
proof (induction s)
  case (Cons x s)
  obtain y ys where "split_char c s = y # ys" by (metis list.exhaust split_char_def split_list_not_Nil)
  then show ?case using Cons by (cases ys) (auto simp: split_char_def)
qed (simp add: split_char_def)

lemma concat_chars [simp]: "concat (chars s) = s"
  by (induction s rule: chars.induct) auto

lemma chars_ascii [str_simps]: "is_ascii s \<Longrightarrow> chars s = map (\<lambda>c. [c]) s"
proof (induction s rule: chars.induct)
  case 1
  then show ?case by simp
next
  case (2 c cs)
  have "\<forall>x \<in> set cs. \<not> is_cont x"
    using "2.prems" by (auto simp: is_ascii_def is_cont_def)
  then have "takeWhile is_cont cs = []" and d: "dropWhile is_cont cs = cs"
    by (cases cs; simp)+
  moreover have "is_ascii cs" using "2.prems" by (auto simp: is_ascii_def)
  ultimately show ?case using "2.IH" by simp
qed

lemma chars_in_set: "ch \<in> set (chars s) \<Longrightarrow> set ch \<subseteq> set s"
  by (metis UN_upper concat_chars set_concat)

lemma chars_not_Nil: "ch \<in> set (chars s) \<Longrightarrow> ch \<noteq> []"
  by (induction s rule: chars.induct) auto

lemma chars_tl_cont: "ch \<in> set (chars s) \<Longrightarrow> x \<in> set (tl ch) \<Longrightarrow> is_cont x"
  by (induction s rule: chars.induct) (auto dest: set_takeWhileD)

lemma chars_eq_Nil [simp]: "chars s = [] \<longleftrightarrow> s = []"
  by (cases s) auto

lemma code_point_single [simp]: "code_point [c] = of_char c"
  by (simp add: code_point_def)

lemma code_point_small: "code_point ch < 128 \<Longrightarrow> \<exists>c. ch = [c] \<and> (of_char c :: nat) < 128"
  by (auto simp: code_point_def Let_def split: list.splits if_splits)

lemma is_ascii_simps [simp, str_simps]:
  "is_ascii []"
  "is_ascii (c # s) \<longleftrightarrow> (of_char c :: nat) < 128 \<and> is_ascii s"
  "is_ascii (s @ t) \<longleftrightarrow> is_ascii s \<and> is_ascii t"
  by (auto simp: is_ascii_def)

lemma length_chars_le: "length (chars s) \<le> length s"
proof (induction s rule: chars.induct)
  case (2 c cs)
  then show ?case using length_dropWhile_le [of is_cont cs] by simp
qed simp

lemma unat_of_char_u8 [simp]: "unat (of_char c :: u8) = of_char c"
proof -
  have "(of_char c :: u8) = of_nat (of_char c)" by (simp only: of_nat_of_char)
  then show ?thesis by (simp only: unat_of_nat) simp
qed

lemma of_char_char_of_u8 [simp]: "(of_char (char_of (unat b) :: char) :: u8) = b"
proof -
  have "(of_char (char_of (unat b) :: char) :: u8) = of_nat (of_char (char_of (unat b) :: char))"
    by (simp only: of_nat_of_char)
  also have "\<dots> = of_nat (unat b mod 256)" by (simp only: of_char_of)
  also have "\<dots> = b" by (simp add: mod_less)
  finally show ?thesis .
qed

lemma str_of_bytes_as_bytes [simp]: "str_of_bytes (as_bytes s) = s"
  by (simp add: str_of_bytes_def as_bytes_def comp_def)

lemma as_bytes_str_of_bytes [simp]: "as_bytes (str_of_bytes bs) = bs"
  by (simp add: str_of_bytes_def as_bytes_def comp_def)

lemma length_as_bytes [simp]: "length (as_bytes s) = length s"
  by (simp add: as_bytes_def)

lemma length_str_of_bytes [simp]: "length (str_of_bytes bs) = length bs"
  by (simp add: str_of_bytes_def)

lemma as_bytes_inject [simp]: "as_bytes s = as_bytes t \<longleftrightarrow> s = t"
  by (metis str_of_bytes_as_bytes)

text \<open>Printable ASCII without the space: what the fields of a text file are made of.\<close>

definition graphic :: "string \<Rightarrow> bool" where
  "graphic s \<longleftrightarrow> s \<noteq> [] \<and> list_all (\<lambda>c. 33 \<le> (of_char c :: nat) \<and> (of_char c :: nat) \<le> 126) s"

lemma graphic_simps: "graphic (a @ b) \<longleftrightarrow>
  (graphic a \<and> graphic b) \<or> (a = [] \<and> graphic b) \<or> (graphic a \<and> b = [])"
  by (auto simp: graphic_def)

lemma graphic_ascii: "graphic s \<Longrightarrow> is_ascii s"
  by (auto simp: graphic_def is_ascii_def list_all_iff)

lemma not_whitespace: "33 \<le> (of_char c :: nat) \<Longrightarrow> (of_char c :: nat) \<le> 126 \<Longrightarrow> \<not> is_whitespace [c]"
  by (auto simp: is_whitespace_def in_range_def)

lemma graphic_not_whitespace: "graphic s \<Longrightarrow> c \<in> set s \<Longrightarrow> \<not> is_whitespace [c]"
  using not_whitespace[of c] by (auto simp: graphic_def list_all_iff)

lemma graphic_not_in:
  "graphic s \<Longrightarrow> (of_char c :: nat) < 33 \<or> 126 < (of_char c :: nat) \<Longrightarrow> c \<notin> set s"
  by (auto simp: graphic_def list_all_iff)

lemma trim_ascii:
  assumes "is_ascii s" "s \<noteq> []" "\<not> is_whitespace [hd s]" "\<not> is_whitespace [last s]"
  shows "trim s = s"
proof -
  have ch: "chars s = map (\<lambda>c. [c]) s" using assms by (simp add: chars_ascii)
  have "dropWhile is_whitespace (chars s) = chars s"
    unfolding ch using assms by (cases s) simp_all
  moreover have "dropWhile is_whitespace (rev (chars s)) = rev (chars s)"
    unfolding ch using assms by (cases s rule: rev_cases) simp_all
  ultimately show ?thesis by (simp add: trim_def)
qed

lemma trim_fields: "graphic a \<Longrightarrow> graphic b \<Longrightarrow> is_ascii m \<Longrightarrow> trim (a @ m @ b) = a @ m @ b"
  using graphic_not_whitespace[of a "hd a"] graphic_not_whitespace[of b "last b"]
  by (intro trim_ascii) (auto simp: graphic_ascii, auto simp: graphic_def)

lemma split_list_join:
  assumes "xs \<noteq> []" and "\<forall>x \<in> set xs. \<forall>y \<in> set x. \<not> P y" and "P c"
  shows "split_list P (join [c] xs) = xs"
  using assms
proof (induction "[c]" xs rule: join.induct)
  case (2 x)
  then show ?case by (auto intro: split_list_no_sep)
next
  case (3 x y ys)
  then have "split_list P (x @ c # join [c] (y # ys)) = x # split_list P (join [c] (y # ys))"
    by (intro split_list_sep) auto
  with 3 show ?case by simp
qed simp

lemma split_list_map_single:
  "split_list P (map (\<lambda>c. [c]) s) = map (map (\<lambda>c. [c])) (split_list (\<lambda>c. P [c]) s)"
proof (induction s)
  case (Cons c s)
  have "split_list (\<lambda>c. P [c]) s \<noteq> []" by simp
  then show ?case using Cons by (cases "split_list (\<lambda>c. P [c]) s") auto
qed simp

lemma is_ascii_join: "is_ascii sep \<Longrightarrow> \<forall>x \<in> set xs. is_ascii x \<Longrightarrow> is_ascii (join sep xs)"
  by (induction sep xs rule: join.induct) auto

lemma split_whitespace_join:
  assumes "\<forall>x \<in> set xs. graphic x"
  shows "split_whitespace (join '' '' xs) = xs"
proof (cases "xs = []")
  case True
  then show ?thesis by (simp add: split_whitespace_def)
next
  case False
  have sp: "is_whitespace '' ''" by (simp add: is_whitespace_def)
  have "is_ascii (join '' '' xs)" using assms by (intro is_ascii_join) (auto intro: graphic_ascii)
  then have "split_list is_whitespace (chars (join '' '' xs)) =
      map (map (\<lambda>c. [c])) (split_list (\<lambda>c. is_whitespace [c]) (join '' '' xs))"
    by (simp add: chars_ascii split_list_map_single)
  also have "split_list (\<lambda>c. is_whitespace [c]) (join '' '' xs) = xs"
    using assms False sp by (intro split_list_join) (auto dest: graphic_not_whitespace)
  finally have "split_list is_whitespace (chars (join '' '' xs)) = map (map (\<lambda>c. [c])) xs" .
  moreover have "filter (\<lambda>piece. piece \<noteq> []) (map (map (\<lambda>c. [c])) xs) = map (map (\<lambda>c. [c])) xs"
    using assms by (auto simp: graphic_def intro!: filter_True)
  moreover have "map concat (map (map (\<lambda>c. [c])) xs) = xs"
    by (simp add: comp_def)
  ultimately show ?thesis by (simp add: split_whitespace_def)
qed

text \<open>The text of a file of the given lines, each ended by a newline.\<close>

definition unlines :: "string list \<Rightarrow> string" where
  "unlines ls = concat (map (\<lambda>l. l @ [CHR 0x0A]) ls)"

lemma split_char_unlines:
  "\<forall>l \<in> set ls. CHR 0x0A \<notin> set l \<Longrightarrow> split_char (CHR 0x0A) (unlines ls) = ls @ [[]]"
proof (induction ls)
  case (Cons l ls)
  then have "split_char (CHR 0x0A) (unlines (l # ls)) = l # split_char (CHR 0x0A) (unlines ls)"
    unfolding split_char_def unlines_def
    using split_list_sep[of l "\<lambda>c. c = CHR 0x0A" "CHR 0x0A" "concat (map (\<lambda>l. l @ [CHR 0x0A]) ls)"] by auto
  then show ?case using Cons by simp
qed (simp add: unlines_def split_char_def)

lemma strip_cr_id: "l = [] \<or> last l \<noteq> CHR 0x0D \<Longrightarrow> strip_cr l = l"
proof -
  assume l: "l = [] \<or> last l \<noteq> CHR 0x0D"
  have "strip_suffix [CHR 0x0D] l = None"
    using l by (cases "strip_suffix [CHR 0x0D] l") (auto simp: strip_suffix_eq_Some)
  then show ?thesis by (simp add: strip_cr_def)
qed

lemma lines_unlines:
  assumes "\<forall>l \<in> set ls. CHR 0x0A \<notin> set l \<and> (l = [] \<or> last l \<noteq> CHR 0x0D)"
  shows "lines (unlines ls) = ls"
proof -
  have "map strip_cr ls = ls" using assms by (intro map_idI strip_cr_id) auto
  then show ?thesis using assms by (simp add: lines_def split_char_unlines Let_def butlast_append)
qed

lemma split_once_colon_space:
  "CHR '':'' \<notin> set a \<Longrightarrow> split_once '': '' (a @ '': '' @ b) = Some (a, b)"
proof (induction a)
  case Nil
  then show ?case by (simp add: strip_prefix_def)
next
  case (Cons c a)
  then show ?case by (auto simp: strip_prefix_def split: option.splits)
qed

section \<open>Printing and parsing of integers\<close>

lemma digit_value_char: "d < 10 \<Longrightarrow> digit_value (char_of (48 + d)) = Some d"
  by (simp add: digit_value_def Let_def)

lemma parse_digits_display:
  "acc * 10 ^ length (nat_display n) + n \<le> limit \<Longrightarrow>
     parse_digits limit ovf acc (nat_display n @ s) = parse_digits limit ovf (acc * 10 ^ length (nat_display n) + n) s"
proof (induction n arbitrary: acc s rule: nat_display.induct)
  case (1 n)
  show ?case
  proof (cases "n < 10")
    case True
    then show ?thesis
      using "1.prems" digit_value_char[OF True] by (simp add: nat_display.simps[of n] mult.commute)
  next
    case False
    let ?k = "length (nat_display (n div 10))"
    have step: "nat_display n = nat_display (n div 10) @ [char_of (48 + n mod 10)]"
      using False by (subst nat_display.simps) simp
    have v: "10 * (acc * 10 ^ ?k + n div 10) + n mod 10 = acc * 10 ^ length (nat_display n) + n"
      by (simp add: step algebra_simps)
    have "acc * 10 ^ ?k + n div 10 \<le> 10 * (acc * 10 ^ ?k + n div 10) + n mod 10" by simp
    then have "acc * 10 ^ ?k + n div 10 \<le> limit" unfolding v using "1.prems" by (rule order_trans)
    then have "parse_digits limit ovf acc (nat_display n @ s) =
        parse_digits limit ovf (acc * 10 ^ ?k + n div 10) (char_of (48 + n mod 10) # s)"
      using "1.IH"[OF False] by (simp add: step)
    also have "\<dots> = parse_digits limit ovf (acc * 10 ^ length (nat_display n) + n) s"
      using "1.prems" digit_value_char[of "n mod 10"]
      by (simp only: parse_digits.simps v option.case mod_less_divisor) simp
    finally show ?thesis .
  qed
qed

lemma nat_display_digits: "c \<in> set (nat_display n) \<Longrightarrow> 48 \<le> (of_char c :: nat) \<and> (of_char c :: nat) \<le> 57"
proof (induction n rule: nat_display.induct)
  case (1 n)
  show ?case
  proof (cases "n < 10")
    case True
    then show ?thesis using "1.prems" by (simp add: nat_display.simps[of n])
  next
    case False
    then have "c \<in> set (nat_display (n div 10)) \<or> c = char_of (48 + n mod 10)"
      using "1.prems" by (auto simp: nat_display.simps[of n])
    then show ?thesis using "1.IH"[OF False] by auto
  qed
qed

lemma nat_display_not_Nil [simp]: "nat_display n \<noteq> []"
  by (subst nat_display.simps) simp

lemma parse_u64_display: "parse_u64 (u64_display w) = Ok w"
proof -
  let ?s = "nat_display (unat w)"
  have hd: "hd ?s \<in> set ?s" by simp
  then have "hd ?s \<noteq> CHR ''+''" "?s \<noteq> ''+''" "?s \<noteq> ''-''"
    using nat_display_digits[of "CHR ''+''" "unat w"] nat_display_digits[of "CHR ''-''" "unat w"]
    by (auto, fastforce+)
  moreover have "parse_digits (2 ^ 64 - 1) PosOverflow 0 ?s = Ok (unat w)"
    using parse_digits_display[of 0 "unat w" "2 ^ 64 - 1" PosOverflow "[]"] unat_u64_le[of w] by simp
  ultimately show ?thesis by (simp add: parse_u64_def u64_display_def)
qed

lemma u64_display_inject [simp]: "u64_display v = u64_display w \<longleftrightarrow> v = w"
  by (metis outcome.inject(1) parse_u64_display)

lemma graphic_u64_display [simp]: "graphic (u64_display w)"
  by (auto simp: graphic_def u64_display_def list_all_iff dest: nat_display_digits)

end
