(* ===== verification/Niphas_Error.thy ===== *)
theory Niphas_Error
  imports Rust_Str
begin

text \<open>
  The error type of niphas-core (src/crates/niphas-core/src/error.rs): one
  constructor per variant, and the \<open>Display\<close> text that \<open>thiserror\<close> derives from the
  \<open>#[error(...)]\<close> attributes. The variants that wrap an error of another crate or of
  the standard library (\<open>Kube\<close>, \<open>Io\<close>, \<open>Serialization\<close>) carry that error's
  \<open>Display\<close> text, the only thing the program reads of it.
\<close>

datatype niphas_error =
    Kube string
  | InvalidInput string
  | NixEval string
  | EvalTimeout u64
  | FlakeNotAllowed string
  | StorePathNotFound string
  | InvalidStorePath string
  | NarParse string
  | NarInfoParse string
  | HashMismatch string string
  | SignatureVerification string
  | Cache string
  | StorePathNotCached string
  | ClosureResolution string
  | Mount string
  | Io string
  | Http string
  | Timeout string
  | Serialization string
  | Config string

fun niphas_error_display :: "niphas_error \<Rightarrow> string" where
  "niphas_error_display (Kube m) = ''kubernetes api error: '' @ m"
| "niphas_error_display (InvalidInput m) = ''invalid input: '' @ m"
| "niphas_error_display (NixEval m) = ''nix evaluation failed: '' @ m"
| "niphas_error_display (EvalTimeout n) = ''evaluation timed out after '' @ u64_display n @ ''s''"
| "niphas_error_display (FlakeNotAllowed m) = ''flake not allowed: '' @ m"
| "niphas_error_display (StorePathNotFound m) = ''store path not found: '' @ m"
| "niphas_error_display (InvalidStorePath m) = ''invalid store path: '' @ m"
| "niphas_error_display (NarParse m) = ''NAR parse error: '' @ m"
| "niphas_error_display (NarInfoParse m) = ''.narinfo parse error: '' @ m"
| "niphas_error_display (HashMismatch e a) = ''hash mismatch: expected '' @ e @ '', got '' @ a"
| "niphas_error_display (SignatureVerification m) = ''signature verification failed: '' @ m"
| "niphas_error_display (Cache m) = ''cache error: '' @ m"
| "niphas_error_display (StorePathNotCached m) = ''store path not cached: '' @ m"
| "niphas_error_display (ClosureResolution m) = ''closure resolution failed: '' @ m"
| "niphas_error_display (Mount m) = ''mount failed: '' @ m"
| "niphas_error_display (Io m) = ''I/O error: '' @ m"
| "niphas_error_display (Http m) = ''HTTP error: '' @ m"
| "niphas_error_display (Timeout m) = ''timeout: '' @ m"
| "niphas_error_display (Serialization m) = ''serialization error: '' @ m"
| "niphas_error_display (Config m) = ''config error: '' @ m"

type_synonym 'a result = "(niphas_error, 'a) outcome"

end
