(* ===== verification/Nix_Hash.thy ===== *)
theory Nix_Hash
  imports Niphas_Error
begin

text \<open>
  Nix-base32 and Nix hashes (src/crates/niphas-core/src/nix/hash.rs).

  Contents: the alphabet and its inverse table; the encoder and the decoder with
  their bit arithmetic on \<open>u8\<close> and their array accesses; \<open>HashAlgo\<close>, \<open>NixHash\<close>
  with parser, printer and verification. The lemmas relate both loops to the bit
  string that a byte string stands for, which gives the round trips, the exact
  inputs on which the decoder errs or panics, and the fact that it ignores the
  surplus high bits of the first character. SHA-256 is the function argument
  \<open>sha256\<close> (crate sha2).
\<close>

section \<open>Definitions\<close>

definition NIX_BASE32_CHARS :: string where
  "NIX_BASE32_CHARS = ''0123456789abcdfghijklmnpqrsvwxyz''"

text \<open>The \<open>while\<close> loop that fills the inverse table at compile time.\<close>

definition NIX_BASE32_DECODE :: bytes where
  "NIX_BASE32_DECODE =
     fold (\<lambda>i table. table[of_char (NIX_BASE32_CHARS ! i) := of_nat i]) [0..<32] (replicate 128 255)"

text \<open>One iteration of the encoder: the five bits at bit position \<open>n * 5\<close>.\<close>

definition base32_digit :: "bytes \<Rightarrow> nat \<Rightarrow> u8" where
  "base32_digit input n =
     (let b = n * 5; byte_idx = b div 8; bit_idx = b mod 8;
          c = drop_bit bit_idx (input ! byte_idx) AND 0x1f
      in if 3 < bit_idx \<and> byte_idx + 1 < length input
         then (c OR push_bit (8 - bit_idx) (input ! (byte_idx + 1))) AND 0x1f
         else c)"

definition encoded_len :: "bytes \<Rightarrow> nat" where
  "encoded_len input = (length input * 8 + 4) div 5"

definition to_nix_base32 :: "bytes \<Rightarrow> string" where
  "to_nix_base32 input =
     (if input = [] then []
      else map (\<lambda>n. NIX_BASE32_CHARS ! unat (base32_digit input n)) (rev [0..<encoded_len input]))"

text \<open>
  The same loop with every array access of the code checked as Rust checks it:
  \<open>input[byte_idx]\<close>, \<open>input[byte_idx + 1]\<close> and \<open>NIX_BASE32_CHARS[c as usize]\<close>.
\<close>

definition to_nix_base32_checked :: "bytes \<Rightarrow> ('e, string) outcome" where
  "to_nix_base32_checked input =
     (if input = [] then Ok []
      else omap (\<lambda>n.
        let b = n * 5; byte_idx = b div 8; bit_idx = b mod 8 in
        obind (index_checked input byte_idx) (\<lambda>x.
        obind (if 3 < bit_idx \<and> byte_idx + 1 < length input
               then obind (index_checked input (byte_idx + 1)) (\<lambda>y.
                 Ok ((drop_bit bit_idx x AND 0x1f OR push_bit (8 - bit_idx) y) AND 0x1f))
               else Ok (drop_bit bit_idx x AND 0x1f)) (\<lambda>c.
        index_checked NIX_BASE32_CHARS (unat c))))
      (rev [0..<encoded_len input]))"

definition invalid_char_error :: "rchar \<Rightarrow> niphas_error" where
  "invalid_char_error ch = NarInfoParse (''invalid nix-base32 character: '' @ quoted ch)"

text \<open>The decoder's loop over the reversed characters, with its counter and its buffer.\<close>

fun from_nix_base32_loop :: "nat \<Rightarrow> nat \<Rightarrow> rchar list \<Rightarrow> bytes \<Rightarrow> bytes result" where
  "from_nix_base32_loop out_len i [] out = Ok out"
| "from_nix_base32_loop out_len i (ch # chs) out =
     (let ch_byte = code_point ch in
      if 128 \<le> ch_byte then Err (invalid_char_error ch)
      else let digit = NIX_BASE32_DECODE ! ch_byte in
      if digit = 255 then Err (invalid_char_error ch)
      else let b = i * 5; byte_idx = b div 8; bit_idx = b mod 8 in
      if length out \<le> byte_idx then Panic
      else let out1 = out[byte_idx := out ! byte_idx OR push_bit bit_idx digit];
               out2 = (if 3 < bit_idx \<and> byte_idx + 1 < out_len
                       then out1[byte_idx + 1 := out1 ! (byte_idx + 1) OR drop_bit (8 - bit_idx) digit]
                       else out1)
           in from_nix_base32_loop out_len (i + 1) chs out2)"

definition from_nix_base32 :: "string \<Rightarrow> bytes result" where
  "from_nix_base32 input =
     (let len = length input in
      if len = 0 then Ok []
      else let out_len = len * 5 div 8
           in from_nix_base32_loop out_len 0 (rev (chars input)) (replicate out_len 0))"

datatype hash_algo = Sha256 | Sha512 | Sha1 | Md5

fun digest_len :: "hash_algo \<Rightarrow> nat" where
  "digest_len Sha256 = 32"
| "digest_len Sha512 = 64"
| "digest_len Sha1 = 20"
| "digest_len Md5 = 16"

fun hash_algo_display :: "hash_algo \<Rightarrow> string" where
  "hash_algo_display Sha256 = ''sha256''"
| "hash_algo_display Sha512 = ''sha512''"
| "hash_algo_display Sha1 = ''sha1''"
| "hash_algo_display Md5 = ''md5''"

record nix_hash =
  algo :: hash_algo
  digest :: bytes

definition nix_hash_parse :: "string \<Rightarrow> nix_hash result" where
  "nix_hash_parse s =
     obind (ok_or (NarInfoParse (''hash missing '' @ quoted '':'' @ '' separator'')) (split_once '':'' s))
       (\<lambda>(algo_str, hash_str).
     obind (if algo_str = ''sha256'' then Ok Sha256
            else if algo_str = ''sha512'' then Ok Sha512
            else if algo_str = ''sha1'' then Ok Sha1
            else if algo_str = ''md5'' then Ok Md5
            else Err (NarInfoParse (''unknown hash algorithm: '' @ quoted algo_str))) (\<lambda>a.
     obind (from_nix_base32 hash_str) (\<lambda>d.
     if length d \<noteq> digest_len a
     then Err (NarInfoParse (''hash digest length mismatch: expected '' @ nat_display (digest_len a)
            @ '', got '' @ nat_display (length d)))
     else Ok \<lparr>algo = a, digest = d\<rparr>)))"

definition nix_hash_verify :: "(bytes \<Rightarrow> bytes) \<Rightarrow> nix_hash \<Rightarrow> bytes \<Rightarrow> unit result" where
  "nix_hash_verify sha256 h data =
     (case algo h of
        Sha256 \<Rightarrow>
          (let computed = sha256 data in
           if computed \<noteq> digest h
           then Err (HashMismatch (to_nix_base32 (digest h)) (to_nix_base32 computed))
           else Ok ())
      | other \<Rightarrow> Err (NarInfoParse (''verification not implemented for '' @ hash_algo_display other)))"

definition nix_hash_display :: "nix_hash \<Rightarrow> string" where
  "nix_hash_display h = hash_algo_display (algo h) @ '':'' @ to_nix_base32 (digest h)"

definition sha256_hash :: "(bytes \<Rightarrow> bytes) \<Rightarrow> bytes \<Rightarrow> nix_hash" where
  "sha256_hash sha256 data = \<lparr>algo = Sha256, digest = sha256 data\<rparr>"

text \<open>Vocabulary of the lemmas: the alphabet, the digit of a character, a digest of the right length.\<close>

abbreviation alphabet32 :: "char set" where
  "alphabet32 \<equiv> set NIX_BASE32_CHARS"

definition digit_of :: "char \<Rightarrow> u8" where
  "digit_of c = NIX_BASE32_DECODE ! of_char c"

definition nix_hash_ok :: "nix_hash \<Rightarrow> bool" where
  "nix_hash_ok h \<longleftrightarrow> length (digest h) = digest_len (algo h)"

section \<open>The alphabet and its table\<close>

lemma length_chars32 [simp]: "length NIX_BASE32_CHARS = 32"
  by (simp add: NIX_BASE32_CHARS_def)

lemma chars32_ascii: "\<forall>c \<in> set NIX_BASE32_CHARS. (of_char c :: nat) < 128"
  by (simp add: NIX_BASE32_CHARS_def)

lemma distinct_chars32: "distinct NIX_BASE32_CHARS"
  by (simp add: NIX_BASE32_CHARS_def)

lemma chars32_inj: "inj_on (\<lambda>i. of_char (NIX_BASE32_CHARS ! i) :: nat) {..<32}"
  using distinct_chars32 by (auto simp: inj_on_def nth_eq_iff_index_eq)

lemma decode_char: "i < 32 \<Longrightarrow> NIX_BASE32_DECODE ! of_char (NIX_BASE32_CHARS ! i) = of_nat i"
  unfolding NIX_BASE32_DECODE_def
  using fold_update_at [OF chars32_inj, of i "replicate 128 255" of_nat] chars32_ascii
  by simp

lemma decode_other:
  "n < 128 \<Longrightarrow> char_of n \<notin> set NIX_BASE32_CHARS \<Longrightarrow> NIX_BASE32_DECODE ! n = 255"
  unfolding NIX_BASE32_DECODE_def
  by (subst fold_update_other) (auto simp: in_set_conv_nth)

lemma decode_valid_iff:
  "n < 128 \<Longrightarrow> NIX_BASE32_DECODE ! n \<noteq> 255 \<longleftrightarrow> char_of n \<in> set NIX_BASE32_CHARS"
proof
  assume n: "n < 128" and c: "char_of n \<in> set NIX_BASE32_CHARS"
  then obtain i where i: "i < 32" "char_of n = NIX_BASE32_CHARS ! i"
    by (metis in_set_conv_nth length_chars32)
  from n have "n = of_char (char_of n :: char)" by simp
  with i have "NIX_BASE32_DECODE ! n = of_nat i" by (metis decode_char)
  moreover have "(of_nat i :: u8) \<noteq> 255"
  proof
    assume "(of_nat i :: u8) = 255"
    then have "unat (of_nat i :: u8) = 255" by simp
    with i show False by (simp add: unat_of_nat)
  qed
  ultimately show "NIX_BASE32_DECODE ! n \<noteq> 255" by simp
qed (auto dest: decode_other)

lemma bit_and_31: "bit (x AND 0x1f :: u8) j \<longleftrightarrow> j < 5 \<and> bit x j"
proof -
  have "x AND 0x1f = take_bit 5 x" by (simp add: take_bit_eq_mask mask_eq_exp_minus_1)
  then show ?thesis by (simp only: bit_take_bit_iff)
qed

lemma base32_digit_bits:
  assumes "n < encoded_len input"
  shows "bit (base32_digit input n) j \<longleftrightarrow>
    j < 5 \<and> n * 5 + j < length input * 8 \<and> bit (input ! ((n * 5 + j) div 8)) ((n * 5 + j) mod 8)"
proof (cases "j < 5")
  case False
  then show ?thesis by (simp add: base32_digit_def Let_def bit_and_31)
next
  case j: True
  define B r where "B = n * 5 div 8" and "r = n * 5 mod 8"
  have nB: "n * 5 = 8 * B + r" and r: "r < 8" by (simp_all add: B_def r_def)
  have B: "B < length input" using assms nB by (simp add: encoded_len_def)
  have d: "base32_digit input n =
      (if 3 < r \<and> B + 1 < length input
       then (drop_bit r (input ! B) AND 0x1f OR push_bit (8 - r) (input ! (B + 1))) AND 0x1f
       else drop_bit r (input ! B) AND 0x1f)"
    by (simp add: base32_digit_def Let_def B_def r_def)
  show ?thesis
  proof (cases "r + j < 8")
    case True
    then have "(n * 5 + j) div 8 = B" "(n * 5 + j) mod 8 = r + j" "n * 5 + j < length input * 8"
      using nB B div_mod_8 [of "n * 5 + j" B "r + j"] by auto
    with True j r show ?thesis by (auto simp: d bit_and_31 bit_or_iff bit_push_bit_iff bit_drop_bit_eq)
  next
    case False
    then have q: "n * 5 + j = 8 * (B + 1) + (r + j - 8)" "r + j - 8 < 8" using nB r j by auto
    then have "(n * 5 + j) div 8 = B + 1" "(n * 5 + j) mod 8 = r + j - 8"
      using div_mod_8 [OF q] by (simp_all only:)
    moreover have "\<not> bit (input ! B) (r + j)" using False by (simp add: u8_no_high_bit)
    ultimately show ?thesis using False j r q
      by (auto simp: d bit_and_31 bit_or_iff bit_push_bit_iff bit_drop_bit_eq add.commute)
  qed
qed

lemma unat_and_31 [simp]: "unat (x AND 0x1f :: u8) < 32"
proof -
  have "x AND 0x1f \<le> 0x1f" by (rule word_and_le1)
  then show ?thesis by (simp add: word_le_nat_alt)
qed

lemma unat_base32_digit [simp]: "unat (base32_digit input n) < 32"
  by (simp add: base32_digit_def Let_def)

lemma small_digit_bits: "digit < (32 :: u8) \<Longrightarrow> \<not> bit digit m \<or> m < 5"
proof -
  assume "digit < 32"
  then have "uint digit < 2 ^ 5" by (simp add: word_less_def)
  then have "digit = take_bit 5 digit"
    by (metis and_mask_lt_2p lt2p_lem mask_eq_iff take_bit_eq_mask)
  then show ?thesis by (metis bit_take_bit_iff)
qed

text \<open>One iteration of the decoder ORs five bits into the buffer.\<close>

lemma decoder_step_bits:
  assumes "i * 5 div 8 < length out" and "k < length out" and "j < 8" and "digit < (32 :: u8)"
    and "out1 = out[i * 5 div 8 := out ! (i * 5 div 8) OR push_bit (i * 5 mod 8) digit]"
    and "out2 = (if 3 < i * 5 mod 8 \<and> i * 5 div 8 + 1 < length out
                 then out1[i * 5 div 8 + 1 := out1 ! (i * 5 div 8 + 1) OR drop_bit (8 - i * 5 mod 8) digit]
                 else out1)"
  shows "bit (out2 ! k) j \<longleftrightarrow>
    bit (out ! k) j \<or> (i * 5 \<le> 8 * k + j \<and> 8 * k + j < i * 5 + 5 \<and> bit digit (8 * k + j - i * 5))"
proof -
  define B r where "B = i * 5 div 8" and "r = i * 5 mod 8"
  have iB: "i * 5 = 8 * B + r" and r: "r < 8" by (simp_all add: B_def r_def)
  note high = small_digit_bits [OF assms(4)]
  consider "k < B" | "k = B" | "k = B + 1" | "B + 1 < k" by linarith
  then show ?thesis
  proof cases
    case 1
    then show ?thesis using iB assms by (auto simp: B_def [symmetric] r_def [symmetric])
  next
    case 2
    then show ?thesis using iB r assms(1-3) high [of "j - r"]
      by (auto simp: assms(5,6) B_def [symmetric] r_def [symmetric] bit_or_iff bit_push_bit_iff)
  next
    case 3
    then show ?thesis using iB r assms(1-3) high [of "8 + j - r"]
      by (auto simp: assms(5,6) B_def [symmetric] r_def [symmetric] bit_or_iff bit_drop_bit_eq)
  next
    case 4
    then show ?thesis using iB r assms by (auto simp: B_def [symmetric] r_def [symmetric])
  qed
qed

lemma digit_of_char [simp]: "i < 32 \<Longrightarrow> digit_of (NIX_BASE32_CHARS ! i) = of_nat i"
  by (simp add: digit_of_def decode_char)

lemma digit_of_alphabet: "c \<in> alphabet32 \<Longrightarrow> digit_of c < 32 \<and> digit_of c \<noteq> 255"
proof -
  assume "c \<in> alphabet32"
  then obtain i where "i < 32" "c = NIX_BASE32_CHARS ! i" by (metis in_set_conv_nth length_chars32)
  then have "unat (digit_of c) < 32" by (simp add: unat_of_nat)
  then show ?thesis by (auto simp: word_less_nat_alt)
qed

lemma char_of_digit: "c \<in> alphabet32 \<Longrightarrow> NIX_BASE32_CHARS ! unat (digit_of c) = c"
proof -
  assume "c \<in> alphabet32"
  then obtain i where "i < 32" "c = NIX_BASE32_CHARS ! i" by (metis in_set_conv_nth length_chars32)
  then show ?thesis by (simp add: unat_of_nat)
qed

lemma alphabet32_code: "c \<in> alphabet32 \<Longrightarrow> (of_char c :: nat) < 128"
  using chars32_ascii by blast

lemma loop_invalid:
  assumes "\<nexists>c. ch = [c] \<and> c \<in> alphabet32"
  shows "from_nix_base32_loop L i (ch # chs) out = Err (invalid_char_error ch)"
proof (cases "code_point ch < 128")
  case True
  then obtain c where c: "ch = [c]" "(of_char c :: nat) < 128" using code_point_small by blast
  with assms have "NIX_BASE32_DECODE ! of_char c = 255"
    using decode_other [of "of_char c"] by auto
  with c show ?thesis by simp
qed simp

lemma loop_append:
  "from_nix_base32_loop L i (xs @ ys) out =
     obind (from_nix_base32_loop L i xs out) (from_nix_base32_loop L (i + length xs) ys)"
proof (induction xs arbitrary: i out)
  case (Cons x xs)
  show ?case by (simp add: Cons.IH Let_def del: from_nix_base32_loop.simps(1))
qed simp

lemma loop_Panic:
  assumes "set cs \<subseteq> alphabet32" and "cs \<noteq> []" and "length out \<le> (i + length cs - 1) * 5 div 8"
    and "length out = L"
  shows "from_nix_base32_loop L i (map (\<lambda>c. [c]) cs) out = Panic"
  using assms
proof (induction cs arbitrary: i out)
  case (Cons c cs)
  have c: "(of_char c :: nat) < 128" "NIX_BASE32_DECODE ! of_char c \<noteq> 255"
    using Cons.prems alphabet32_code digit_of_alphabet by (auto simp: digit_of_def)
  show ?case
  proof (cases "length out \<le> i * 5 div 8")
    case True
    with c show ?thesis by simp
  next
    case False
    with Cons.prems have "cs \<noteq> []" by auto
    with False c Cons show ?thesis by (simp add: Let_def not_le)
  qed
qed simp

lemma loop_Ok:
  assumes "set cs \<subseteq> alphabet32" and "cs = [] \<or> (i + length cs - 1) * 5 div 8 < length out"
    and "length out = L"
  shows "\<exists>out'. from_nix_base32_loop L i (map (\<lambda>c. [c]) cs) out = Ok out' \<and> length out' = length out \<and>
    (\<forall>k < length out. \<forall>j < 8. bit (out' ! k) j \<longleftrightarrow> bit (out ! k) j \<or>
       (i * 5 \<le> 8 * k + j \<and> 8 * k + j < (i + length cs) * 5 \<and>
        bit (digit_of (cs ! ((8 * k + j - i * 5) div 5))) ((8 * k + j - i * 5) mod 5)))"
  using assms
proof (induction cs arbitrary: i out)
  case (Cons c cs)
  have c: "(of_char c :: nat) < 128" "NIX_BASE32_DECODE ! of_char c \<noteq> 255" "digit_of c < 32"
    using Cons.prems alphabet32_code digit_of_alphabet by (auto simp: digit_of_def)
  have le: "i * 5 div 8 \<le> (i + length (c # cs) - 1) * 5 div 8" by (intro div_le_mono) simp
  then have B: "i * 5 div 8 < length out" using Cons.prems by auto
  define out1 where "out1 = out[i * 5 div 8 := out ! (i * 5 div 8) OR push_bit (i * 5 mod 8) (digit_of c)]"
  define out2 where "out2 = (if 3 < i * 5 mod 8 \<and> i * 5 div 8 + 1 < length out
        then out1[i * 5 div 8 + 1 := out1 ! (i * 5 div 8 + 1) OR drop_bit (8 - i * 5 mod 8) (digit_of c)]
        else out1)"
  have len: "length out2 = length out" by (simp add: out2_def out1_def)
  have step: "from_nix_base32_loop L i (map (\<lambda>c. [c]) (c # cs)) out =
      from_nix_base32_loop L (i + 1) (map (\<lambda>c. [c]) cs) out2"
    using B c Cons.prems(3) by (simp add: Let_def out1_def out2_def digit_of_def)
  have "cs = [] \<or> (i + 1 + length cs - 1) * 5 div 8 < length out2"
    using Cons.prems len by auto
  then obtain out' where out': "from_nix_base32_loop L (i + 1) (map (\<lambda>c. [c]) cs) out2 = Ok out'"
    "length out' = length out2"
    "\<And>k j. k < length out2 \<Longrightarrow> j < 8 \<Longrightarrow> bit (out' ! k) j \<longleftrightarrow> bit (out2 ! k) j \<or>
       ((i + 1) * 5 \<le> 8 * k + j \<and> 8 * k + j < (i + 1 + length cs) * 5 \<and>
        bit (digit_of (cs ! ((8 * k + j - (i + 1) * 5) div 5))) ((8 * k + j - (i + 1) * 5) mod 5))"
    using Cons.IH [of "i + 1" out2] Cons.prems len by auto
  have "bit (out' ! k) j \<longleftrightarrow> bit (out ! k) j \<or>
       (i * 5 \<le> 8 * k + j \<and> 8 * k + j < (i + length (c # cs)) * 5 \<and>
        bit (digit_of ((c # cs) ! ((8 * k + j - i * 5) div 5))) ((8 * k + j - i * 5) mod 5))"
    if kj: "k < length out" "j < 8" for k j
  proof -
    note decoder_step_bits [OF B kj c(3) out1_def out2_def]
    moreover note out'(3) [of k j]
    moreover have "q div 5 = Suc ((q - 5) div 5)" "(q - 5) mod 5 = q mod 5" if "5 \<le> q" for q :: nat
      using that by (simp_all add: le_div_geq le_mod_geq)
    from this [of "8 * k + j - i * 5"] have "(i + 1) * 5 \<le> 8 * k + j \<Longrightarrow>
       (8 * k + j - i * 5) div 5 = Suc ((8 * k + j - (i + 1) * 5) div 5) \<and>
       (8 * k + j - (i + 1) * 5) mod 5 = (8 * k + j - i * 5) mod 5"
      by (simp add: algebra_simps)
    ultimately show ?thesis using kj len
      by (cases "8 * k + j < (i + 1) * 5"; cases "i * 5 \<le> 8 * k + j") auto
  qed
  with step out' len show ?case by auto
qed auto

text \<open>The last index the decoder writes is in range exactly for the lengths an encoder produces.\<close>

lemma decoded_index:
  assumes "0 < (n :: nat)"
  shows "(n - 1) * 5 div 8 < n * 5 div 8 \<longleftrightarrow> n mod 8 \<notin> {1, 3, 6}"
proof -
  define q r where "q = n div 8" and "r = n mod 8"
  have n: "n = 8 * q + r" "r < 8" by (simp_all add: q_def r_def)
  from n(2) consider "r = 0" | "r = 1" | "r = 2" | "r = 3" | "r = 4" | "r = 5" | "r = 6" | "r = 7"
    by linarith
  moreover have "(m + 40 * q) div 8 = 5 * q + m div 8" "(40 * q + m) div 8 = 5 * q + m div 8" for m
    by simp_all
  ultimately show ?thesis using n assms unfolding r_def [symmetric] by cases auto
qed

lemma chars_alphabet:
  assumes "set s \<subseteq> alphabet32"
  shows "rev (chars s) = map (\<lambda>c. [c]) (rev s)"
proof -
  have "is_ascii s" using assms alphabet32_code by (auto simp: is_ascii_def)
  then show ?thesis by (simp add: chars_ascii rev_map)
qed

lemma from_nix_base32_Panic:
  assumes "set s \<subseteq> alphabet32" and "length s mod 8 \<in> {1, 3, 6}"
  shows "from_nix_base32 s = Panic"
proof -
  have s: "0 < length s" "rev s \<noteq> []" using assms(2) by auto
  then have "\<not> (length s - 1) * 5 div 8 < length s * 5 div 8"
    using assms(2) decoded_index [of "length s"] by blast
  with s have "from_nix_base32_loop (length s * 5 div 8) 0 (map (\<lambda>c. [c]) (rev s))
      (replicate (length s * 5 div 8) 0) = Panic"
    using assms(1) by (intro loop_Panic) auto
  with s show ?thesis by (simp add: from_nix_base32_def chars_alphabet [OF assms(1)])
qed

lemma from_nix_base32_Ok:
  assumes "set s \<subseteq> alphabet32" and "length s mod 8 \<notin> {1, 3, 6}"
  shows "\<exists>out. from_nix_base32 s = Ok out \<and> length out = length s * 5 div 8 \<and>
    (\<forall>k < length out. \<forall>j < 8. bit (out ! k) j \<longleftrightarrow>
       bit (digit_of (rev s ! ((8 * k + j) div 5))) ((8 * k + j) mod 5))"
proof (cases "s = []")
  case True
  then show ?thesis by (simp add: from_nix_base32_def)
next
  case False
  then have "(length s - 1) * 5 div 8 < length s * 5 div 8"
    using assms(2) decoded_index [of "length s"] by auto
  then obtain out where out: "from_nix_base32_loop (length s * 5 div 8) 0 (map (\<lambda>c. [c]) (rev s))
      (replicate (length s * 5 div 8) 0) = Ok out" "length out = length s * 5 div 8"
    "\<And>k j. k < length s * 5 div 8 \<Longrightarrow> j < 8 \<Longrightarrow> bit (out ! k) j \<longleftrightarrow>
       8 * k + j < length s * 5 \<and> bit (digit_of (rev s ! ((8 * k + j) div 5))) ((8 * k + j) mod 5)"
    using loop_Ok [of "rev s" 0 "replicate (length s * 5 div 8) 0" "length s * 5 div 8"] assms(1)
    by auto
  have "8 * k + j < length s * 5" if "k < length s * 5 div 8" "j < 8" for k j
  proof -
    have "8 * Suc k \<le> 8 * (length s * 5 div 8)" using that by (intro mult_le_mono2) simp
    also have "\<dots> \<le> length s * 5" by simp
    finally show ?thesis using that by simp
  qed
  with out False show ?thesis
    by (auto simp: from_nix_base32_def chars_alphabet [OF assms(1)])
qed

lemma from_nix_base32_Err:
  assumes "\<not> set s \<subseteq> alphabet32"
  shows "\<exists>ch. ch \<in> set (chars s) \<and> \<not> set ch \<subseteq> alphabet32 \<and> from_nix_base32 s = Err (invalid_char_error ch)"
proof -
  obtain x where x: "x \<in> set s" "x \<notin> alphabet32" using assms by blast
  then have "x \<in> set (concat (chars s))" by simp
  then obtain bad where bad: "bad \<in> set (rev (chars s))" "x \<in> set bad" unfolding set_concat by auto
  then have "\<nexists>c. bad = [c] \<and> c \<in> alphabet32" using x(2) by auto
  with bad(1) have "\<exists>ch \<in> set (rev (chars s)). \<nexists>c. ch = [c] \<and> c \<in> alphabet32" by (rule bexI [rotated])
  from split_list_first_prop [OF this] obtain pre ch post
    where split: "rev (chars s) = pre @ ch # post" and ch: "\<nexists>c. ch = [c] \<and> c \<in> alphabet32"
      and pre: "\<forall>x \<in> set pre. \<not> (\<nexists>c. x = [c] \<and> c \<in> alphabet32)"
    by blast
  define cs where "cs = concat pre"
  have cs: "pre = map (\<lambda>c. [c]) cs" "set cs \<subseteq> alphabet32"
    using pre unfolding cs_def by (induction pre) auto
  have "length pre < length (chars s)" using arg_cong [OF split, of length] by simp
  then have "length pre < length s" using length_chars_le [of s] by linarith
  have bound: "pre = [] \<or> (length pre - 1) * 5 div 8 < length s * 5 div 8"
  proof (cases pre)
    case (Cons x xs)
    then have "(length pre - 1) * 5 + 10 \<le> length s * 5" using \<open>length pre < length s\<close> by simp
    then have "((length pre - 1) * 5 + 8) div 8 \<le> length s * 5 div 8" by (intro div_le_mono) simp
    then show ?thesis using div_add_self2 [of 8 "(length pre - 1) * 5"] by simp
  qed simp
  obtain out' where "from_nix_base32_loop (length s * 5 div 8) 0 pre
      (replicate (length s * 5 div 8) 0) = Ok out'"
    using loop_Ok [of cs 0 "replicate (length s * 5 div 8) 0" "length s * 5 div 8"] cs bound
    by auto
  then have "from_nix_base32 s = Err (invalid_char_error ch)"
    using split \<open>length pre < length s\<close>
    by (auto simp: from_nix_base32_def loop_append loop_invalid [OF ch]
        simp del: from_nix_base32_loop.simps)
  moreover have inch: "ch \<in> set (chars s)" using split by (metis in_set_conv_decomp set_rev)
  moreover have "\<not> set ch \<subseteq> alphabet32"
  proof
    assume a: "set ch \<subseteq> alphabet32"
    have "set (tl ch) \<subseteq> alphabet32" using a by (cases ch) auto
    then have "tl ch = []"
      using chars_tl_cont [OF inch] alphabet32_code by (cases "tl ch") (fastforce simp: is_cont_def)+
    then show False using a ch chars_not_Nil [OF inch] by (cases ch) auto
  qed
  ultimately show ?thesis by blast
qed

lemma length_to_nix_base32 [simp]: "length (to_nix_base32 bs) = encoded_len bs"
  by (simp add: to_nix_base32_def encoded_len_def)

lemma rev_to_nix_base32:
  "n < encoded_len bs \<Longrightarrow> rev (to_nix_base32 bs) ! n = NIX_BASE32_CHARS ! unat (base32_digit bs n)"
  by (auto simp: to_nix_base32_def rev_map encoded_len_def)

lemma set_to_nix_base32: "set (to_nix_base32 bs) \<subseteq> alphabet32"
  by (auto simp: to_nix_base32_def unat_base32_digit)

text \<open>How the lengths of a byte string and of its encoding determine each other.\<close>

lemma encoded_len_decoded: "encoded_len bs * 5 div 8 = length bs \<and> encoded_len bs mod 8 \<notin> {1, 3, 6}"
proof -
  define q r where "q = length bs div 5" and "r = length bs mod 5"
  have n: "length bs = 5 * q + r" "r < 5" by (simp_all add: q_def r_def)
  then consider "r = 0" | "r = 1" | "r = 2" | "r = 3" | "r = 4" by linarith
  moreover have "(m + 40 * q) div 5 = 8 * q + m div 5" "(40 * q + m) div 5 = 8 * q + m div 5" for m
    by simp_all
  moreover have "Suc (Suc (8 * q)) mod 8 = 2" by presburger
  ultimately show ?thesis using n(1) by cases (auto simp: encoded_len_def)
qed

lemma decoded_len_encoded:
  "n mod 8 \<notin> {1, 3, 6} \<Longrightarrow> (n * 5 div 8 * 8 + 4) div 5 = n \<and> n * 5 - n * 5 div 8 * 8 < (5 :: nat)"
proof -
  assume a: "n mod 8 \<notin> {1, 3, 6}"
  define q r where "q = n div 8" and "r = n mod 8"
  have n: "n = 8 * q + r" "r < 8" by (simp_all add: q_def r_def)
  then consider "r = 0" | "r = 2" | "r = 4" | "r = 5" | "r = 7" using a unfolding r_def [symmetric] by auto linarith
  moreover have "(m + 40 * q) div 8 = 5 * q + m div 8" "(40 * q + m) div 8 = 5 * q + m div 8" for m
    by simp_all
  ultimately show ?thesis using n(1) by cases auto
qed

lemma from_to_nix_base32: "from_nix_base32 (to_nix_base32 bs) = Ok bs"
proof -
  let ?s = "to_nix_base32 bs"
  obtain out where out: "from_nix_base32 ?s = Ok out" "length out = length bs"
    "\<forall>k < length out. \<forall>j < 8. bit (out ! k) j \<longleftrightarrow>
       bit (digit_of (rev ?s ! ((8 * k + j) div 5))) ((8 * k + j) mod 5)"
    using from_nix_base32_Ok [OF set_to_nix_base32, of bs] encoded_len_decoded [of bs] by auto
  have "out ! k = bs ! k" if k: "k < length bs" for k
  proof -
    have "bit (out ! k) j = bit (bs ! k) j" if j: "j < 8" for j
    proof -
      let ?n = "(8 * k + j) div 5"
      have n: "?n < encoded_len bs" using k j by (simp add: encoded_len_def less_mult_imp_div_less)
      have "bit (out ! k) j \<longleftrightarrow> bit (base32_digit bs ?n) ((8 * k + j) mod 5)"
        using out(2,3) k j n by (simp add: rev_to_nix_base32 unat_base32_digit)
      also have "\<dots> \<longleftrightarrow> bit (bs ! k) j"
        using k j by (simp add: base32_digit_bits [OF n] mult.commute [of _ 5])
      finally show ?thesis .
    qed
    then show ?thesis by (simp add: u8_eq_bits)
  qed
  with out show ?thesis by (simp add: list_eq_iff_nth_eq)
qed

lemma from_nix_base32_OkD:
  assumes "from_nix_base32 s = Ok bs"
  shows "set s \<subseteq> alphabet32 \<and> length s mod 8 \<notin> {1, 3, 6} \<and> length bs = length s * 5 div 8 \<and>
    (\<forall>k < length bs. \<forall>j < 8. bit (bs ! k) j \<longleftrightarrow>
       bit (digit_of (rev s ! ((8 * k + j) div 5))) ((8 * k + j) mod 5))"
proof -
  have a: "set s \<subseteq> alphabet32" using assms from_nix_base32_Err [of s] by force
  moreover have m: "length s mod 8 \<notin> {1, 3, 6}"
    using assms from_nix_base32_Panic [OF a] by force
  ultimately show ?thesis using from_nix_base32_Ok [OF a m] assms by auto
qed

text \<open>Re-encoding a decoded string changes at most the surplus bits of its first character.\<close>

lemma reencoded_digit:
  assumes ok: "from_nix_base32 s = Ok bs" and n: "n < length s"
  shows "bit (base32_digit bs n) j \<longleftrightarrow>
    j < 5 \<and> n * 5 + j < length bs * 8 \<and> bit (digit_of (rev s ! n)) j"
proof -
  note d = from_nix_base32_OkD [OF ok]
  then have len: "encoded_len bs = length s"
    using decoded_len_encoded [of "length s"] by (simp add: encoded_len_def)
  have "bit (bs ! ((n * 5 + j) div 8)) ((n * 5 + j) mod 8) \<longleftrightarrow> bit (digit_of (rev s ! n)) j"
    if "n * 5 + j < length bs * 8" "j < 5"
  proof -
    have "(n * 5 + j) div 8 < length bs" using that by (simp add: less_mult_imp_div_less)
    moreover have "(n * 5 + j) div 5 = n" "(n * 5 + j) mod 5 = j" using that by simp_all
    ultimately show ?thesis using d by simp
  qed
  then show ?thesis using n len base32_digit_bits [of n bs j] by auto
qed

lemma masked_digit_eq:
  assumes "d < (32 :: u8)" and "\<And>j. bit a j \<longleftrightarrow> j < 5 \<and> p + j < L \<and> bit d j"
  shows "a = d \<longleftrightarrow> (\<forall>j < 5. L \<le> p + j \<longrightarrow> \<not> bit d j)"
proof
  assume "a = d"
  then show "\<forall>j < 5. L \<le> p + j \<longrightarrow> \<not> bit d j" using assms(2) by (metis not_less)
next
  assume r: "\<forall>j < 5. L \<le> p + j \<longrightarrow> \<not> bit d j"
  have "bit a j = bit d j" for j
    using small_digit_bits [OF assms(1), of j] r [rule_format, of j] assms(2) [of j] by (auto simp: not_less)
  then show "a = d" by (simp add: u8_eq_bits)
qed

lemma decoded_lengths:
  assumes "from_nix_base32 s = Ok bs"
  shows "encoded_len bs = length s" "length s * 5 - length bs * 8 < 5" "length s * 5 mod 8 = length s * 5 - length bs * 8"
    "length bs * 8 \<le> length s * 5" "n < length s \<Longrightarrow> rev s ! n \<in> alphabet32"
proof -
  note d = from_nix_base32_OkD [OF assms]
  then show "encoded_len bs = length s" "length s * 5 - length bs * 8 < 5"
    using decoded_len_encoded [of "length s"] by (simp_all add: encoded_len_def)
  show "length s * 5 mod 8 = length s * 5 - length bs * 8" "length bs * 8 \<le> length s * 5"
    using d by (simp_all add: minus_div_mult_eq_mod [symmetric])
  show "n < length s \<Longrightarrow> rev s ! n \<in> alphabet32" using d by (metis in_mono length_rev nth_mem set_rev)
qed

lemma reencoded_char:
  assumes ok: "from_nix_base32 s = Ok bs" and n: "n < length s"
  shows "rev (to_nix_base32 bs) ! n = rev s ! n \<longleftrightarrow> base32_digit bs n = digit_of (rev s ! n)"
    and "base32_digit bs n = digit_of (rev s ! n) \<longleftrightarrow>
      (\<forall>j < 5. length bs * 8 \<le> n * 5 + j \<longrightarrow> \<not> bit (digit_of (rev s ! n)) j)"
proof -
  note alph = decoded_lengths(5) [OF assms]
  have "unat (digit_of (rev s ! n)) < 32" using digit_of_alphabet [OF alph] by (simp add: word_less_nat_alt)
  then have "NIX_BASE32_CHARS ! unat (base32_digit bs n) = NIX_BASE32_CHARS ! unat (digit_of (rev s ! n))
      \<longleftrightarrow> base32_digit bs n = digit_of (rev s ! n)"
    using unat_base32_digit [of bs n] distinct_chars32
    by (simp add: nth_eq_iff_index_eq word_unat_eq_iff)
  then show "rev (to_nix_base32 bs) ! n = rev s ! n \<longleftrightarrow> base32_digit bs n = digit_of (rev s ! n)"
    using n decoded_lengths(1) [OF ok] char_of_digit [OF alph] by (simp add: rev_to_nix_base32)
  show "base32_digit bs n = digit_of (rev s ! n) \<longleftrightarrow>
      (\<forall>j < 5. length bs * 8 \<le> n * 5 + j \<longrightarrow> \<not> bit (digit_of (rev s ! n)) j)"
    using digit_of_alphabet [OF alph] by (intro masked_digit_eq reencoded_digit [OF ok n]) simp
qed

text \<open>The first character is the one whose bits may be surplus.\<close>

lemma reencoded_first:
  assumes ok: "from_nix_base32 s = Ok bs" and s: "s \<noteq> []"
  shows "base32_digit bs (length s - 1) = digit_of (rev s ! (length s - 1)) \<longleftrightarrow>
    drop_bit (5 - length s * 5 mod 8) (digit_of (hd s)) = 0"
proof -
  let ?w = "length s * 5 mod 8" and ?d = "digit_of (hd s)"
  have last: "length s - 1 < length s" using s by simp
  have hd: "rev s ! (length s - 1) = hd s" using s by (simp add: rev_nth hd_conv_nth)
  have low: "\<not> bit ?d m \<or> m < 5" for m
    using decoded_lengths(5) [OF ok last] hd digit_of_alphabet small_digit_bits by metis
  have ge: "length bs * 8 \<le> (length s - 1) * 5 + j \<longleftrightarrow> 5 - ?w \<le> j" for j
    using s decoded_lengths(2-4) [OF ok] by (cases s) auto
  have "drop_bit (5 - ?w) ?d = 0 \<longleftrightarrow> (\<forall>m. \<not> bit ?d (5 - ?w + m))"
    by (auto simp: bit_eq_iff bit_drop_bit_eq) (metis not_le trans_le_add2 u8_no_high_bit)
  also have "\<dots> \<longleftrightarrow> (\<forall>j < 5. 5 - ?w \<le> j \<longrightarrow> \<not> bit ?d j)"
    using low by (metis le_add1 le_add_diff_inverse)
  finally show ?thesis using reencoded_char(2) [OF ok last] unfolding hd ge by simp
qed

lemma to_from_nix_base32:
  assumes ok: "from_nix_base32 s = Ok bs"
  shows "to_nix_base32 bs = s \<longleftrightarrow> s = [] \<or> drop_bit (5 - length s * 5 mod 8) (digit_of (hd s)) = 0"
proof (cases "s = []")
  case True
  with ok show ?thesis by (simp add: from_nix_base32_def to_nix_base32_def)
next
  case False
  have "to_nix_base32 bs = s \<longleftrightarrow> rev (to_nix_base32 bs) = rev s" by simp
  also have "\<dots> \<longleftrightarrow> (\<forall>n < length s. base32_digit bs n = digit_of (rev s ! n))"
    using reencoded_char(1) [OF ok] decoded_lengths(1) [OF ok] by (auto simp: list_eq_iff_nth_eq)
  also have "\<dots> \<longleftrightarrow> base32_digit bs (length s - 1) = digit_of (rev s ! (length s - 1))"
  proof -
    have "base32_digit bs n = digit_of (rev s ! n)" if "n < length s - 1" for n
      using that decoded_lengths(2) [OF ok] reencoded_char(2) [OF ok, of n] by auto
    then show ?thesis using False by (metis Suc_pred' diff_less length_greater_0_conv less_SucE zero_less_one)
  qed
  also have "\<dots> \<longleftrightarrow> drop_bit (5 - length s * 5 mod 8) (digit_of (hd s)) = 0" by (rule reencoded_first [OF ok False])
  finally show ?thesis using False by simp
qed

text \<open>Every array access of the encoder is in range.\<close>

lemma to_nix_base32_checked_Ok: "to_nix_base32_checked input = Ok (to_nix_base32 input)"
proof (cases "input = []")
  case True
  then show ?thesis by (simp add: to_nix_base32_checked_def to_nix_base32_def)
next
  case False
  have "n * 5 div 8 < length input" if "n < encoded_len input" for n
    using that by (simp add: encoded_len_def less_mult_imp_div_less)
  then show ?thesis using False
    by (auto simp: to_nix_base32_checked_def to_nix_base32_def base32_digit_def Let_def
        intro!: omap_all_Ok)
qed

interpretation b32: codec to_nix_base32 from_nix_base32 "\<lambda>_. True"
  by unfold_locales (simp_all add: from_to_nix_base32)

lemma hash_algo_display_no_colon: "CHR '':'' \<notin> set (hash_algo_display a)"
  by (cases a) auto

lemma nix_hash_parse_display:
  assumes "nix_hash_ok h"
  shows "nix_hash_parse (nix_hash_display h) = Ok h"
proof -
  have "split_once '':'' (nix_hash_display h) = Some (hash_algo_display (algo h), to_nix_base32 (digest h))"
    unfolding nix_hash_display_def
    using split_once_char_found [OF hash_algo_display_no_colon] by simp
  with assms show ?thesis
    by (cases h; cases "algo h") (auto simp: nix_hash_parse_def from_to_nix_base32 nix_hash_ok_def)
qed

lemma nix_hash_parse_ok: "nix_hash_parse s = Ok h \<Longrightarrow> nix_hash_ok h"
  by (auto simp: nix_hash_parse_def nix_hash_ok_def outcome_simps split: prod.splits if_splits)

interpretation nix_hash: codec nix_hash_display nix_hash_parse nix_hash_ok
  by unfold_locales (auto simp: nix_hash_parse_display nix_hash_parse_ok)

section \<open>Verification of data against a hash\<close>

lemma nix_hash_verify_Ok_iff:
  "nix_hash_verify sha256 h data = Ok () \<longleftrightarrow> algo h = Sha256 \<and> sha256 data = digest h"
  by (auto simp: nix_hash_verify_def Let_def split: hash_algo.splits)

section \<open>Properties\<close>

text \<open>C14. Decoding an encoded byte string gives the byte string back, for every byte string:
  the decoder neither errs nor panics on the encoder's output.\<close>

theorem nix_base32_roundtrip: "from_nix_base32 (to_nix_base32 bs) = Ok bs"
  by (simp add: b32.parse_print)

text \<open>C38. The exact inputs that make the decoder panic by an out-of-range write: a text over the
  alphabet whose length leaves 1, 3 or 6 modulo 8. Such a text can be the value of a \<open>NarHash\<close>
  line received from a binary cache.\<close>

theorem from_nix_base32_panic_iff:
  "from_nix_base32 s = Panic \<longleftrightarrow> set s \<subseteq> set NIX_BASE32_CHARS \<and> length s mod 8 \<in> {1, 3, 6}"
proof (cases "set s \<subseteq> alphabet32")
  case True
  with from_nix_base32_Panic [OF True] from_nix_base32_Ok [OF True] show ?thesis by fastforce
next
  case False
  with from_nix_base32_Err [OF False] show ?thesis by fastforce
qed

text \<open>The decoder errs exactly on the texts with a character outside the alphabet, and the error
  names a character of the text that is not in the alphabet.\<close>

theorem from_nix_base32_err_iff:
  "(\<exists>e. from_nix_base32 s = Err e) \<longleftrightarrow>
   (\<exists>ch \<in> set (chars s). \<not> set ch \<subseteq> set NIX_BASE32_CHARS \<and>
      from_nix_base32 s = Err (NarInfoParse (''invalid nix-base32 character: '' @ quoted ch)))"
proof
  assume "\<exists>e. from_nix_base32 s = Err e"
  then have "\<not> set s \<subseteq> alphabet32"
    using from_nix_base32_Panic [of s] from_nix_base32_Ok [of s] by fastforce
  from from_nix_base32_Err [OF this]
  show "\<exists>ch \<in> set (chars s). \<not> set ch \<subseteq> set NIX_BASE32_CHARS \<and>
      from_nix_base32 s = Err (NarInfoParse (''invalid nix-base32 character: '' @ quoted ch))"
    unfolding invalid_char_error_def by blast
qed auto

text \<open>Encoding undoes decoding exactly when the surplus high bits of the first character are
  zero; the decoder accepts other texts as well and drops those bits.\<close>

theorem nix_base32_canonical_iff:
  assumes "from_nix_base32 s = Ok bs"
  shows "to_nix_base32 bs = s \<longleftrightarrow>
    s = [] \<or> drop_bit (5 - length s * 5 mod 8) (NIX_BASE32_DECODE ! of_char (hd s)) = 0"
  using to_from_nix_base32 [OF assms] by (simp add: digit_of_def)

lemma decode_entries: "NIX_BASE32_DECODE ! 48 = 0" "NIX_BASE32_DECODE ! 122 = 31"
  using decode_char [of 0] decode_char [of 31] by (simp_all add: NIX_BASE32_CHARS_def)

theorem nix_base32_canonical_witness:
  "from_nix_base32 ''z0'' = Ok [224] \<and> to_nix_base32 [224] \<noteq> ''z0''"
proof -
  have ok: "from_nix_base32 ''z0'' = Ok [224]"
    by (simp add: from_nix_base32_def is_cont_def decode_entries Let_def)
  have "drop_bit (5 - length ''z0'' * 5 mod 8) (NIX_BASE32_DECODE ! of_char (hd ''z0'')) \<noteq> 0"
    by (simp add: decode_entries)
  with ok nix_base32_canonical_iff [OF ok] show ?thesis by simp
qed

text \<open>No array access of the encoder is out of range.\<close>

theorem to_nix_base32_no_panic: "to_nix_base32_checked input = Ok (to_nix_base32 input)"
  by (rule to_nix_base32_checked_Ok)

text \<open>A hash that is printed parses back to itself, and the parser returns only digests of the
  length the algorithm has.\<close>

theorem nix_hash_roundtrip:
  "(nix_hash_parse (nix_hash_display h) = Ok h \<longleftrightarrow> length (digest h) = digest_len (algo h)) \<and>
   ((\<exists>s. nix_hash_parse s = Ok h) \<longleftrightarrow> length (digest h) = digest_len (algo h))"
  using nix_hash.parse_print [of h] nix_hash.parse_onto [of h] by (auto simp: nix_hash_ok_def)

end
