(* ===== verification/Nar.thy ===== *)
theory Nar
  imports Nix_Hash
begin

text \<open>
  The NAR reader (src/crates/niphas-core/src/nix/nar.rs): the token level of the wire
  format, the recursive-descent parser with its depth counter, the check of entry names
  and their order, and the running SHA-256.

  The underlying stream is the list of bytes that are left, with the \<open>Display\<close> text of
  the I/O error the stream gives at its end. SHA-256 (crate sha2) is a record of the three
  functions \<open>new\<close>, \<open>update\<close> and \<open>finalize\<close>. The recursion through \<open>parse_directory\<close> and
  \<open>parse_node_inner\<close> has a fuel argument; \<open>nar_parse\<close> gives it more fuel than the stream
  has bytes, which is enough because every level reads a token first. Integer operators
  wrap, as in the release profile.

  The lemmas compare the parser with the grammar of the format, written as an encoder
  \<open>node_tokens\<close>: below the root the parser accepts exactly the encodings of well-formed
  trees. At the root it does so for files and symlinks; for a directory it wants one
  more closing token than the format has.
\<close>

section \<open>Definitions\<close>

definition NAR_MAGIC :: string where
  "NAR_MAGIC = ''nix-archive-1''"

definition DEFAULT_MAX_DEPTH :: u16 where
  "DEFAULT_MAX_DEPTH = 256"

record 'h sha256_ops =
  sha_new :: 'h
  sha_update :: "'h \<Rightarrow> bytes \<Rightarrow> 'h"
  sha_finalize :: "'h \<Rightarrow> bytes"

record 'h nar_reader =
  inner :: bytes
  eof_error :: string
  depth :: u16
  max_depth :: u16
  bytes_read :: u64
  hasher :: 'h

datatype nar_node =
    Regular (executable: bool) (contents: bytes)
  | Symlink (target: string)
  | Directory (entries: "nar_entry list")
and nar_entry = NarEntry (entry_name: string) (entry_node: nar_node)

definition nar_reader_new :: "'h sha256_ops \<Rightarrow> string \<Rightarrow> bytes \<Rightarrow> 'h nar_reader" where
  "nar_reader_new ops eof stream =
     \<lparr>inner = stream, eof_error = eof, depth = 0, max_depth = DEFAULT_MAX_DEPTH,
      bytes_read = 0, hasher = sha_new ops\<rparr>"

definition with_max_depth :: "u16 \<Rightarrow> 'h nar_reader \<Rightarrow> 'h nar_reader" where
  "with_max_depth d r = r\<lparr>max_depth := d\<rparr>"

type_synonym ('h, 'a) nar_result = "('a \<times> 'h nar_reader) result"

definition read_exact :: "'h sha256_ops \<Rightarrow> nat \<Rightarrow> 'h nar_reader \<Rightarrow> ('h, bytes) nar_result" where
  "read_exact ops n r =
     (if length (inner r) < n then Err (NarParse (''unexpected EOF: '' @ eof_error r))
      else let buf = take n (inner r)
           in Ok (buf, r\<lparr>inner := drop n (inner r), hasher := sha_update ops (hasher r) buf,
                         bytes_read := bytes_read r + of_nat n\<rparr>))"

definition from_le_bytes :: "bytes \<Rightarrow> u64" where
  "from_le_bytes bs = foldr (\<lambda>b acc. ucast b OR push_bit 8 acc) bs 0"

definition read_u64 :: "'h sha256_ops \<Rightarrow> 'h nar_reader \<Rightarrow> ('h, u64) nar_result" where
  "read_u64 ops r = obind (read_exact ops 8 r) (\<lambda>(buf, r). Ok (from_le_bytes buf, r))"

definition read_bytes :: "'h sha256_ops \<Rightarrow> 'h nar_reader \<Rightarrow> ('h, bytes) nar_result" where
  "read_bytes ops r =
     obind (read_u64 ops r) (\<lambda>(len, r).
     if 128 * 1024 * 1024 < len
     then Err (NarParse (''string too large: '' @ u64_display len @ '' bytes''))
     else obind (read_exact ops (unat len) r) (\<lambda>(data, r).
     let pad_len = (8 - (len mod 8)) mod 8 in
     if 0 < pad_len
     then obind (read_exact ops (unat pad_len) r) (\<lambda>(pad, r).
            if list_ex (\<lambda>b. b \<noteq> 0) pad then Err (NarParse ''non-zero padding bytes'')
            else Ok (data, r))
     else Ok (data, r)))"

fun utf8_error_display :: "nat \<times> nat option \<Rightarrow> string" where
  "utf8_error_display (i, Some n) =
     ''invalid utf-8 sequence of '' @ nat_display n @ '' bytes from index '' @ nat_display i"
| "utf8_error_display (i, None) = ''incomplete utf-8 byte sequence from index '' @ nat_display i"

definition read_str :: "'h sha256_ops \<Rightarrow> 'h nar_reader \<Rightarrow> ('h, string) nar_result" where
  "read_str ops r =
     obind (read_bytes ops r) (\<lambda>(bs, r).
     case utf8_error 0 bs of
       None \<Rightarrow> Ok (str_of_bytes bs, r)
     | Some e \<Rightarrow> Err (NarParse (''invalid UTF-8 string: '' @ utf8_error_display e)))"

definition expect_str :: "'h sha256_ops \<Rightarrow> string \<Rightarrow> 'h nar_reader \<Rightarrow> 'h nar_reader result" where
  "expect_str ops want r =
     obind (read_str ops r) (\<lambda>(s, r).
     if s \<noteq> want
     then Err (NarParse (''expected '' @ quoted want @ '', got '' @ quoted s))
     else Ok r)"

definition validate_entry_name :: "string \<Rightarrow> unit result" where
  "validate_entry_name nm =
     (if nm = [] then Err (NarParse ''empty entry name'')
      else if nm = ''.'' \<or> nm = ''..''
        then Err (NarParse (''invalid entry name: '' @ quoted nm))
      else if CHR ''/'' \<in> set nm \<or> CHR 0x00 \<in> set nm
        then Err (NarParse (''entry name contains forbidden characters: '' @ quoted nm))
      else Ok ())"

definition parse_regular :: "'h sha256_ops \<Rightarrow> 'h nar_reader \<Rightarrow> ('h, nar_node) nar_result" where
  "parse_regular ops r =
     obind (read_str ops r) (\<lambda>(next, r).
     if next = ''executable''
     then obind (expect_str ops '''' r) (\<lambda>r.
          obind (expect_str ops ''contents'' r) (\<lambda>r.
          obind (read_bytes ops r) (\<lambda>(c, r). Ok (Regular True c, r))))
     else if next = ''contents''
     then obind (read_bytes ops r) (\<lambda>(c, r). Ok (Regular False c, r))
     else Err (NarParse (''expected '' @ quoted ''executable'' @ '' or '' @ quoted ''contents''
            @ '', got '' @ quoted next)))"

definition parse_symlink :: "'h sha256_ops \<Rightarrow> 'h nar_reader \<Rightarrow> ('h, nar_node) nar_result" where
  "parse_symlink ops r =
     obind (expect_str ops ''target'' r) (\<lambda>r.
     obind (read_str ops r) (\<lambda>(t, r). Ok (Symlink t, r)))"

text \<open>The order check of the loop, \<open>if let Some(ref prev) = last_name\<close> and \<open>name <= *prev\<close>.\<close>

definition out_of_order :: "string option \<Rightarrow> string \<Rightarrow> bool" where
  "out_of_order last_name nm = (case last_name of None \<Rightarrow> False | Some prev \<Rightarrow> nm \<le> prev)"

fun parse_directory :: "nat \<Rightarrow> 'h sha256_ops \<Rightarrow> 'h nar_reader \<Rightarrow> ('h, nar_node) nar_result"
and parse_directory_loop ::
  "nat \<Rightarrow> 'h sha256_ops \<Rightarrow> nar_entry list \<Rightarrow> string option \<Rightarrow> 'h nar_reader \<Rightarrow>
     ('h, nar_node) nar_result"
and parse_node_inner :: "nat \<Rightarrow> 'h sha256_ops \<Rightarrow> 'h nar_reader \<Rightarrow> ('h, nar_node) nar_result"
where
  "parse_directory 0 ops r = Diverge"
| "parse_directory (Suc fuel) ops r =
     (let r = r\<lparr>depth := depth r + 1\<rparr> in
      if max_depth r < depth r
      then Err (NarParse (''directory nesting depth exceeds limit ('' @ nat_display (unat (max_depth r))
             @ '')''))
      else parse_directory_loop fuel ops [] None r)"
| "parse_directory_loop 0 ops es last_name r = Diverge"
| "parse_directory_loop (Suc fuel) ops es last_name r =
     obind (read_str ops r) (\<lambda>(next, r).
     if next = '')'' then Ok (Directory es, r\<lparr>depth := depth r - 1\<rparr>)
     else if next \<noteq> ''entry''
     then Err (NarParse (''expected '' @ quoted ''entry'' @ '' or '' @ quoted '')''
            @ '', got '' @ quoted next))
     else obind (expect_str ops ''('' r) (\<lambda>r.
     obind (expect_str ops ''name'' r) (\<lambda>r.
     obind (read_str ops r) (\<lambda>(nm, r).
     obind (validate_entry_name nm) (\<lambda>_.
     if out_of_order last_name nm
     then Err (NarParse (''directory entries not sorted: '' @ quoted (the last_name)
            @ '' followed by '' @ quoted nm))
     else obind (expect_str ops ''node'' r) (\<lambda>r.
     obind (parse_node_inner fuel ops r) (\<lambda>(node, r).
     obind (expect_str ops '')'' r) (\<lambda>r.
     parse_directory_loop fuel ops (es @ [NarEntry nm node]) (Some nm) r))))))))"
| "parse_node_inner 0 ops r = Diverge"
| "parse_node_inner (Suc fuel) ops r =
     obind (expect_str ops ''('' r) (\<lambda>r.
     obind (expect_str ops ''type'' r) (\<lambda>r.
     obind (read_str ops r) (\<lambda>(type_str, r).
     if type_str = ''regular''
     then obind (parse_regular ops r) (\<lambda>(n, r). obind (expect_str ops '')'' r) (\<lambda>r. Ok (n, r)))
     else if type_str = ''symlink''
     then obind (parse_symlink ops r) (\<lambda>(n, r). obind (expect_str ops '')'' r) (\<lambda>r. Ok (n, r)))
     else if type_str = ''directory'' then parse_directory fuel ops r
     else Err (NarParse (''unknown node type: '' @ quoted type_str)))))"

text \<open>The root node, with a closing token after every kind of node.\<close>

definition parse_node :: "nat \<Rightarrow> 'h sha256_ops \<Rightarrow> 'h nar_reader \<Rightarrow> ('h, nar_node) nar_result" where
  "parse_node fuel ops r =
     obind (expect_str ops ''('' r) (\<lambda>r.
     obind (expect_str ops ''type'' r) (\<lambda>r.
     obind (read_str ops r) (\<lambda>(type_str, r).
     obind (if type_str = ''regular'' then parse_regular ops r
            else if type_str = ''symlink'' then parse_symlink ops r
            else if type_str = ''directory'' then parse_directory fuel ops r
            else Err (NarParse (''unknown node type: '' @ quoted type_str))) (\<lambda>(node, r).
     obind (expect_str ops '')'' r) (\<lambda>r. Ok (node, r))))))"

definition nar_parse :: "'h sha256_ops \<Rightarrow> 'h nar_reader \<Rightarrow> (nar_node \<times> nix_hash) result" where
  "nar_parse ops r =
     obind (expect_str ops NAR_MAGIC r) (\<lambda>r.
     obind (parse_node (length (inner r)) ops r) (\<lambda>(node, r).
     Ok (node, \<lparr>algo = Sha256, digest = sha_finalize ops (hasher r)\<rparr>)))"

section \<open>The format\<close>

definition to_le_bytes :: "u64 \<Rightarrow> bytes" where
  "to_le_bytes w = map (\<lambda>i. ucast (drop_bit (8 * i) w)) [0..<8]"

definition pad_len :: "nat \<Rightarrow> nat" where
  "pad_len n = (8 - n mod 8) mod 8"

definition nar_bytes :: "bytes \<Rightarrow> bytes" where
  "nar_bytes bs = to_le_bytes (of_nat (length bs)) @ bs @ replicate (pad_len (length bs)) 0"

definition nar_str :: "string \<Rightarrow> bytes" where
  "nar_str s = nar_bytes (as_bytes s)"

text \<open>A node as the sequence of its tokens, and the bytes of a sequence of tokens.\<close>

primrec node_tokens :: "nar_node \<Rightarrow> bytes list" and entry_tokens :: "nar_entry \<Rightarrow> bytes list" where
  "node_tokens (Regular x c) =
     map as_bytes [''('', ''type'', ''regular''] @
     (if x then map as_bytes [''executable'', ''''] else []) @
     [as_bytes ''contents'', c, as_bytes '')'']"
| "node_tokens (Symlink t) = map as_bytes [''('', ''type'', ''symlink'', ''target'', t, '')'']"
| "node_tokens (Directory es) =
     map as_bytes [''('', ''type'', ''directory''] @ concat (map entry_tokens es) @ [as_bytes '')'']"
| "entry_tokens (NarEntry nm nd) =
     map as_bytes [''entry'', ''('', ''name'', nm, ''node''] @ node_tokens nd @ [as_bytes '')'']"

definition enc_tokens :: "bytes list \<Rightarrow> bytes" where
  "enc_tokens ts = concat (map nar_bytes ts)"

definition nar_encode :: "nar_node \<Rightarrow> bytes" where
  "nar_encode nd = enc_tokens (as_bytes NAR_MAGIC # node_tokens nd)"

definition max_token :: nat where
  "max_token = 128 * 1024 * 1024"

definition str_token :: "string \<Rightarrow> bool" where
  "str_token s \<longleftrightarrow> length s \<le> max_token \<and> utf8_valid (as_bytes s)"

definition entry_name_ok :: "string \<Rightarrow> bool" where
  "entry_name_ok nm \<longleftrightarrow> nm \<noteq> [] \<and> nm \<noteq> ''.'' \<and> nm \<noteq> ''..'' \<and> CHR ''/'' \<notin> set nm \<and> CHR 0x00 \<notin> set nm"

text \<open>Well-formed trees: token sizes, UTF-8, safe and strictly increasing entry names.\<close>

primrec wf_node :: "nar_node \<Rightarrow> bool" and wf_entry :: "nar_entry \<Rightarrow> bool" where
  "wf_node (Regular x c) = (length c \<le> max_token)"
| "wf_node (Symlink t) = str_token t"
| "wf_node (Directory es) = (list_all wf_entry es \<and> sorted_wrt (<) (map entry_name es))"
| "wf_entry (NarEntry nm nd) = (str_token nm \<and> entry_name_ok nm \<and> wf_node nd)"

primrec dir_depth :: "nar_node \<Rightarrow> nat" and entry_depth :: "nar_entry \<Rightarrow> nat" where
  "dir_depth (Regular x c) = 0"
| "dir_depth (Symlink t) = 0"
| "dir_depth (Directory es) = Suc (fold max (map entry_depth es) 0)"
| "entry_depth (NarEntry nm nd) = dir_depth nd"

text \<open>What the hash functions have to promise: updates in pieces hash the concatenation.\<close>

definition sha256_streams :: "'h sha256_ops \<Rightarrow> (bytes \<Rightarrow> bytes) \<Rightarrow> bool" where
  "sha256_streams ops sha256 \<longleftrightarrow>
     (\<forall>chunks. sha_finalize ops (foldl (sha_update ops) (sha_new ops) chunks) = sha256 (concat chunks))"

text \<open>The chunks in which the reader feeds a token to the hash.\<close>

definition tok_chunks :: "bytes \<Rightarrow> bytes list" where
  "tok_chunks bs = [to_le_bytes (of_nat (length bs)), bs] @
     (if 0 < pad_len (length bs) then [replicate (pad_len (length bs)) 0] else [])"

text \<open>What reading a sequence of chunks, and of tokens, does to the reader.\<close>

definition after_chunks ::
  "'h sha256_ops \<Rightarrow> bytes list \<Rightarrow> bytes \<Rightarrow> 'h nar_reader \<Rightarrow> 'h nar_reader" where
  "after_chunks ops cs rest r =
     r\<lparr>inner := rest, hasher := foldl (sha_update ops) (hasher r) cs,
       bytes_read := bytes_read r + of_nat (length (concat cs))\<rparr>"

definition takes_chunks ::
  "'h sha256_ops \<Rightarrow> 'h nar_reader \<Rightarrow> bytes list \<Rightarrow> 'h nar_reader \<Rightarrow> bool" where
  "takes_chunks ops r cs r' \<longleftrightarrow> inner r = concat cs @ inner r' \<and> r' = after_chunks ops cs (inner r') r"

definition consumes ::
  "'h sha256_ops \<Rightarrow> 'h nar_reader \<Rightarrow> bytes list \<Rightarrow> 'h nar_reader \<Rightarrow> bool" where
  "consumes ops r ts r' \<longleftrightarrow> takes_chunks ops r (concat (map tok_chunks ts)) r'"

section \<open>Tokens\<close>

lemma bit_from_le_bytes:
  "bit (from_le_bytes bs) n \<longleftrightarrow> n < 64 \<and> n div 8 < length bs \<and> bit (bs ! (n div 8)) (n mod 8)"
proof (induction bs arbitrary: n)
  case Nil
  then show ?case by (simp add: from_le_bytes_def)
next
  case (Cons b bs)
  have step: "from_le_bytes (b # bs) = ucast b OR push_bit 8 (from_le_bytes bs)"
    by (simp add: from_le_bytes_def)
  show ?case
  proof (cases "n < 8")
    case True
    then show ?thesis by (simp add: step bit_or_iff bit_unsigned_iff bit_push_bit_iff)
  next
    case False
    then have n: "n div 8 = Suc ((n - 8) div 8)" "n mod 8 = (n - 8) mod 8"
      by (simp_all add: le_div_geq le_mod_geq)
    have "\<not> bit b n" using False bit_imp_le_length[of b n] by auto
    then show ?thesis
      using False by (auto simp: step bit_or_iff bit_unsigned_iff bit_push_bit_iff Cons.IH n)
  qed
qed

lemma length_to_le_bytes [simp]: "length (to_le_bytes w) = 8"
  by (simp add: to_le_bytes_def)

lemma bit_to_le_bytes: "i < 8 \<Longrightarrow> bit (to_le_bytes w ! i) j \<longleftrightarrow> j < 8 \<and> bit w (8 * i + j)"
  by (simp add: to_le_bytes_def bit_unsigned_iff bit_drop_bit_eq add.commute) (simp add: numeral_eq_Suc)

lemma from_to_le_bytes [simp]: "from_le_bytes (to_le_bytes w) = w"
proof (rule bit_word_eqI)
  fix n :: nat assume "n < LENGTH(64)"
  then show "bit (from_le_bytes (to_le_bytes w)) n = bit w n"
    by (simp add: bit_from_le_bytes bit_to_le_bytes less_mult_imp_div_less)
qed

lemma to_from_le_bytes: "length bs = 8 \<Longrightarrow> to_le_bytes (from_le_bytes bs) = bs"
proof (rule nth_equalityI, simp)
  fix i assume l: "length bs = 8" and "i < length (to_le_bytes (from_le_bytes bs))"
  then have i: "i < 8" by simp
  show "to_le_bytes (from_le_bytes bs) ! i = bs ! i"
  proof (rule bit_word_eqI)
    fix n :: nat assume "n < LENGTH(8)"
    then show "bit (to_le_bytes (from_le_bytes bs) ! i) n = bit (bs ! i) n"
      using i l by (simp add: bit_to_le_bytes bit_from_le_bytes)
  qed
qed

lemma concat_tok_chunks [simp]: "concat (tok_chunks bs) = nar_bytes bs"
  by (auto simp: tok_chunks_def nar_bytes_def)

lemma length_nar_bytes: "8 \<le> length (nar_bytes bs)"
  by (simp add: nar_bytes_def)

lemma enc_tokens_simps [simp]:
  "enc_tokens [] = []" "enc_tokens (t # ts) = nar_bytes t @ enc_tokens ts"
  "enc_tokens (ts @ us) = enc_tokens ts @ enc_tokens us"
  by (simp_all add: enc_tokens_def)

lemma after_chunks_simps [simp]:
  "inner (after_chunks ops cs rest r) = rest" "depth (after_chunks ops cs rest r) = depth r"
  "max_depth (after_chunks ops cs rest r) = max_depth r"
  "eof_error (after_chunks ops cs rest r) = eof_error r"
  "hasher (after_chunks ops cs rest r) = foldl (sha_update ops) (hasher r) cs"
  "bytes_read (after_chunks ops cs rest r) = bytes_read r + of_nat (length (concat cs))"
  by (simp_all add: after_chunks_def)

lemma after_chunks_append:
  "after_chunks ops ds rest' (after_chunks ops cs rest r) = after_chunks ops (cs @ ds) rest' r"
  by (simp add: after_chunks_def)

lemma takes_Nil [simp]: "takes_chunks ops r [] r' \<longleftrightarrow> r' = r"
  by (cases r; cases r') (auto simp: takes_chunks_def after_chunks_def)

lemma takes_append:
  "takes_chunks ops r (cs @ ds) r'' \<longleftrightarrow> (\<exists>r'. takes_chunks ops r cs r' \<and> takes_chunks ops r' ds r'')"
proof
  assume c: "takes_chunks ops r (cs @ ds) r''"
  let ?r = "after_chunks ops cs (concat ds @ inner r'') r"
  have "takes_chunks ops r cs ?r" "takes_chunks ops ?r ds r''"
    using c by (auto simp: takes_chunks_def after_chunks_append)
  then show "\<exists>r'. takes_chunks ops r cs r' \<and> takes_chunks ops r' ds r''" by blast
next
  assume "\<exists>r'. takes_chunks ops r cs r' \<and> takes_chunks ops r' ds r''"
  then obtain r' where 1: "takes_chunks ops r cs r'" and 2: "takes_chunks ops r' ds r''" by blast
  then have "r'' = after_chunks ops ds (inner r'') (after_chunks ops cs (inner r') r)"
    unfolding takes_chunks_def by metis
  then show "takes_chunks ops r (cs @ ds) r''"
    using 1 2 by (simp add: takes_chunks_def after_chunks_append)
qed

lemma takes_Cons:
  "takes_chunks ops r (c # cs) r'' \<longleftrightarrow> (\<exists>r'. takes_chunks ops r [c] r' \<and> takes_chunks ops r' cs r'')"
  using takes_append[of ops r "[c]" cs r''] by simp

lemma consumes_Nil [simp]: "consumes ops r [] r' \<longleftrightarrow> r' = r"
  by (simp add: consumes_def)

lemma consumes_append:
  "consumes ops r (ts @ us) r'' \<longleftrightarrow> (\<exists>r'. consumes ops r ts r' \<and> consumes ops r' us r'')"
  by (simp add: consumes_def takes_append)

lemma consumes_Cons:
  "consumes ops r (t # us) r'' \<longleftrightarrow> (\<exists>r'. consumes ops r [t] r' \<and> consumes ops r' us r'')"
  using consumes_append[of ops r "[t]" us r''] by simp

lemma concat_concat_tok_chunks: "concat (concat (map tok_chunks ts)) = enc_tokens ts"
  by (induction ts) simp_all

lemma consumes_inner: "consumes ops r ts r' \<Longrightarrow> inner r = enc_tokens ts @ inner r'"
  by (simp add: consumes_def takes_chunks_def concat_concat_tok_chunks)

lemma consumes_ex: "inner r = enc_tokens ts @ rest \<Longrightarrow> \<exists>r'. consumes ops r ts r' \<and> inner r' = rest"
  by (rule exI[of _ "after_chunks ops (concat (map tok_chunks ts)) rest r"])
     (simp add: consumes_def takes_chunks_def concat_concat_tok_chunks)

lemma consumes_fields:
  "consumes ops r ts r' \<Longrightarrow> depth r' = depth r \<and> max_depth r' = max_depth r \<and> eof_error r' = eof_error r"
  unfolding consumes_def takes_chunks_def by (metis after_chunks_simps)

lemma consumes_hasher:
  "consumes ops r ts r' \<Longrightarrow>
     hasher r' = foldl (sha_update ops) (hasher r) (concat (map tok_chunks ts)) \<and>
     bytes_read r' = bytes_read r + of_nat (length (enc_tokens ts))"
  unfolding consumes_def takes_chunks_def concat_concat_tok_chunks[symmetric]
  by (metis after_chunks_simps(5,6))

lemma consumes_fun: "consumes ops r ts r' \<Longrightarrow> consumes ops r ts r'' \<Longrightarrow> r'' = r'"
  unfolding consumes_def takes_chunks_def by (metis same_append_eq)

lemma consumes_length:
  "consumes ops r ts r' \<Longrightarrow> length (inner r') + 8 * length ts \<le> length (inner r)"
proof -
  have "8 * length ts \<le> length (enc_tokens ts)"
    by (induction ts) (use length_nar_bytes in \<open>simp_all add: add_mono\<close>)
  then show "consumes ops r ts r' \<Longrightarrow> length (inner r') + 8 * length ts \<le> length (inner r)"
    using consumes_inner by fastforce
qed

lemma read_exact_Ok:
  "read_exact ops n r = Ok (buf, r') \<longleftrightarrow> length buf = n \<and> takes_chunks ops r [buf] r'"
proof
  assume "read_exact ops n r = Ok (buf, r')"
  then have "n \<le> length (inner r)" and "buf = take n (inner r)"
    and "r' = r\<lparr>inner := drop n (inner r), hasher := sha_update ops (hasher r) buf,
                 bytes_read := bytes_read r + of_nat n\<rparr>"
    by (auto simp: read_exact_def Let_def split: if_splits)
  then show "length buf = n \<and> takes_chunks ops r [buf] r'"
    by (simp add: takes_chunks_def after_chunks_def min_absorb2)
next
  assume *: "length buf = n \<and> takes_chunks ops r [buf] r'"
  then have "read_exact ops n r = Ok (buf, after_chunks ops [buf] (inner r') r)"
    by (simp add: read_exact_def Let_def takes_chunks_def after_chunks_def)
  then show "read_exact ops n r = Ok (buf, r')" using * by (simp add: takes_chunks_def)
qed

lemma read_u64_Ok: "read_u64 ops r = Ok (w, r') \<longleftrightarrow> takes_chunks ops r [to_le_bytes w] r'"
  by (auto simp: read_u64_def outcome_simps read_exact_Ok to_from_le_bytes
      intro: exI[of _ "to_le_bytes w"])

lemma word_pad_len: "unat ((8 - (len mod 8)) mod 8 :: u64) = pad_len (unat len)"
proof -
  have "len mod 8 \<le> 8" by (simp add: word_le_nat_alt unat_mod)
  then have "unat (8 - len mod 8) = 8 - unat len mod 8"
    using unat_sub[of "len mod 8" 8] by (simp add: unat_mod)
  then show ?thesis by (simp add: unat_mod pad_len_def)
qed

lemma word_max_token: "128 * 1024 * 1024 < (len :: u64) \<longleftrightarrow> max_token < unat len"
  by (simp add: max_token_def word_less_nat_alt)

lemma word_pos: "0 < (w :: u64) \<longleftrightarrow> 0 < unat w"
  by (simp add: word_less_nat_alt)

lemma all_zero_pad: "\<not> list_ex (\<lambda>b. b \<noteq> 0) (pad :: bytes) \<longleftrightarrow> pad = replicate (length pad) 0"
  by (induction pad) auto

lemma read_body_Ok:
  "obind (read_exact ops n r1) (\<lambda>(data, r). if 0 < p
     then obind (read_exact ops p r) (\<lambda>(pad, r). if list_ex (\<lambda>b. b \<noteq> 0) pad then Err e else Ok (data, r))
     else Ok (data, r)) = Ok (bs, r') \<longleftrightarrow>
   length bs = n \<and> (\<exists>r2. takes_chunks ops r1 [bs] r2 \<and>
     (if 0 < p then takes_chunks ops r2 [replicate p 0] r' else r' = r2))"
proof (cases "0 < p")
  case True
  have "(if list_ex (\<lambda>b. b \<noteq> 0) pad then Err e else Ok (data, r)) = Ok (bs, r') \<longleftrightarrow>
    pad = replicate (length pad) 0 \<and> data = bs \<and> r = r'" for pad :: bytes and data and r :: "'a nar_reader"
    using all_zero_pad[of pad] by auto
  then show ?thesis
    using True by (simp add: outcome_simps read_exact_Ok split_beta) (metis length_replicate)
next
  case False
  then show ?thesis by (auto simp: outcome_simps read_exact_Ok)
qed

lemma read_bytes_Ok:
  "read_bytes ops r = Ok (bs, r') \<longleftrightarrow> length bs \<le> max_token \<and> consumes ops r [bs] r'"
proof -
  let ?tail = "\<lambda>n r1. \<exists>r2. takes_chunks ops r1 [bs] r2 \<and>
     (if 0 < pad_len n then takes_chunks ops r2 [replicate (pad_len n) 0] r' else r' = r2)"
  have "read_bytes ops r = Ok (bs, r') \<longleftrightarrow>
     (\<exists>len r1. takes_chunks ops r [to_le_bytes len] r1 \<and> unat len \<le> max_token \<and>
        length bs = unat len \<and> ?tail (unat len) r1)"
    unfolding read_bytes_def Let_def word_max_token word_pos word_pad_len
    by (subst obind_eq_Ok)
       (simp only: split_paired_Ex prod.case read_u64_Ok read_body_Ok if_Err_eq_Ok not_less)
  moreover have "consumes ops r [bs] r' \<longleftrightarrow>
     (\<exists>r1. takes_chunks ops r [to_le_bytes (of_nat (length bs))] r1 \<and> ?tail (length bs) r1)"
    by (auto simp: consumes_def tok_chunks_def takes_Cons[of _ _ _ "[_]"] takes_Cons[of _ _ _ "[_, _]"])
  moreover have "length bs = unat len \<Longrightarrow> len = of_nat (length bs)" for len :: u64
    by simp
  moreover have "length bs \<le> max_token \<Longrightarrow> unat (of_nat (length bs) :: u64) = length bs"
    by (simp add: max_token_def unat_of_nat)
  ultimately show ?thesis by metis
qed

lemma consumes_Cons2 [simp]:
  "consumes ops r (t # u # us) r'' \<longleftrightarrow> (\<exists>r'. consumes ops r [t] r' \<and> consumes ops r' (u # us) r'')"
  by (rule consumes_Cons)

lemma read_str_Ok:
  "read_str ops r = Ok (s, r') \<longleftrightarrow> str_token s \<and> consumes ops r [as_bytes s] r'"
proof -
  have "read_str ops r = Ok (s, r') \<longleftrightarrow>
    (\<exists>bs. read_bytes ops r = Ok (bs, r') \<and> utf8_valid bs \<and> s = str_of_bytes bs)"
    by (auto simp: read_str_def outcome_simps utf8_valid_def split: option.splits)
       (metis not_None_eq surj_pair)
  also have "\<dots> \<longleftrightarrow> (\<exists>bs. length bs \<le> max_token \<and> consumes ops r [bs] r' \<and> utf8_valid bs \<and> bs = as_bytes s)"
    unfolding read_bytes_Ok by (metis as_bytes_str_of_bytes str_of_bytes_as_bytes)
  finally show ?thesis by (auto simp: str_token_def)
qed

lemma expect_str_Ok:
  "expect_str ops s r = Ok r' \<longleftrightarrow> str_token s \<and> consumes ops r [as_bytes s] r'"
  by (auto simp: expect_str_def outcome_simps read_str_Ok split: if_splits)

lemma utf8_ascii: "list_all (\<lambda>b. b < 128) bs \<Longrightarrow> utf8_error i bs = None"
  by (induction bs arbitrary: i)
     (subst utf8_error.simps, simp add: utf8_width_def word_less_nat_alt)+

lemma str_token_literals [simp]:
  "str_token ''(''" "str_token '')''" "str_token ''type''" "str_token ''regular''"
  "str_token ''symlink''" "str_token ''directory''" "str_token ''executable''" "str_token ''''"
  "str_token ''contents''" "str_token ''target''" "str_token ''entry''" "str_token ''name''"
  "str_token ''node''" "str_token NAR_MAGIC"
  by (simp_all add: str_token_def max_token_def utf8_valid_def utf8_ascii as_bytes_def NAR_MAGIC_def)

lemma validate_entry_name_iff: "validate_entry_name nm = Ok u \<longleftrightarrow> entry_name_ok nm"
  by (auto simp: validate_entry_name_def entry_name_ok_def)

lemma settled_read_exact [simp]: "settled (read_exact ops n r)"
  by (simp add: read_exact_def Let_def)

lemma settled_read_bytes [simp]: "settled (read_bytes ops r)"
  by (auto simp: read_bytes_def read_u64_def Let_def intro!: settled_obind)

lemma settled_read_str [simp]: "settled (read_str ops r)"
  by (auto simp: read_str_def intro!: settled_obind split: option.splits)

lemma settled_expect_str [simp]: "settled (expect_str ops s r)"
  by (auto simp: expect_str_def intro!: settled_obind)

lemma settled_validate_entry_name [simp]: "settled (validate_entry_name nm)"
  by (simp add: validate_entry_name_def)

lemma settled_leaf [simp]: "settled (parse_regular ops r)" "settled (parse_symlink ops r)"
  by (auto simp: parse_regular_def parse_symlink_def intro!: settled_obind)

section \<open>Nodes\<close>

lemma parse_regular_Ok:
  "parse_regular ops r = Ok (nd, r') \<longleftrightarrow>
     (\<exists>x c. nd = Regular x c \<and> length c \<le> max_token \<and>
        consumes ops r ((if x then map as_bytes [''executable'', ''''] else []) @ [as_bytes ''contents'', c]) r')"
  (is "_ \<longleftrightarrow> ?R")
proof
  assume "parse_regular ops r = Ok (nd, r')"
  then show ?R
    by (auto simp: parse_regular_def outcome_simps read_str_Ok expect_str_Ok read_bytes_Ok split: if_splits)
next
  assume ?R
  then obtain x c where "nd = Regular x c" "length c \<le> max_token" and
    c: "consumes ops r ((if x then map as_bytes [''executable'', ''''] else []) @ [as_bytes ''contents'', c]) r'"
    by blast
  then show "parse_regular ops r = Ok (nd, r')"
    by (cases x) (auto simp: parse_regular_def outcome_simps read_str_Ok expect_str_Ok read_bytes_Ok
        split: if_splits intro: exI[of _ "''executable''"] exI[of _ "''contents''"])
qed

lemma parse_symlink_Ok:
  "parse_symlink ops r = Ok (nd, r') \<longleftrightarrow>
     (\<exists>t. nd = Symlink t \<and> str_token t \<and> consumes ops r (map as_bytes [''target'', t]) r')"
  by (auto simp: parse_symlink_def outcome_simps read_str_Ok expect_str_Ok)

lemma consumes_depth: "consumes ops (r\<lparr>depth := d\<rparr>) ts r1 \<Longrightarrow> consumes ops r ts (r1\<lparr>depth := depth r\<rparr>)"
  by (cases r; cases r1) (simp add: consumes_def takes_chunks_def after_chunks_def)

lemma consumes_set_depth: "consumes ops r ts r' \<Longrightarrow> consumes ops (r\<lparr>depth := d\<rparr>) ts (r'\<lparr>depth := d\<rparr>)"
  by (cases r; cases r') (simp add: consumes_def takes_chunks_def after_chunks_def)

definition sorted_after :: "string option \<Rightarrow> nar_entry list \<Rightarrow> bool" where
  "sorted_after last_name es \<longleftrightarrow>
     sorted_wrt (<) ((case last_name of None \<Rightarrow> [] | Some p \<Rightarrow> [p]) @ map entry_name es)"

lemma sorted_after_Nil [simp]: "sorted_after last_name []"
  by (simp add: sorted_after_def split: option.splits)

lemma sorted_after_Cons [simp]:
  "sorted_after last_name (NarEntry nm nd # es) \<longleftrightarrow>
     \<not> out_of_order last_name nm \<and> sorted_after (Some nm) es"
  by (auto simp: sorted_after_def out_of_order_def split: option.splits)

lemma fold_max_le: "fold max xs m \<le> (k :: nat) \<longleftrightarrow> m \<le> k \<and> list_all (\<lambda>x. x \<le> k) xs"
  by (induction xs arbitrary: m) auto

text \<open>The depth counter stays below its limit, and the limit below the type's maximum.\<close>

definition reader_ok :: "'h nar_reader \<Rightarrow> bool" where
  "reader_ok r \<longleftrightarrow> depth r \<le> max_depth r \<and> unat (max_depth r) < 65535"

definition fits :: "'h nar_reader \<Rightarrow> nat \<Rightarrow> bool" where
  "fits r n \<longleftrightarrow> unat (depth r) + n \<le> unat (max_depth r)"

lemma reader_ok_consumes: "consumes ops r ts r' \<Longrightarrow> reader_ok r' \<longleftrightarrow> reader_ok r"
  using consumes_fields[of ops r ts r'] by (simp add: reader_ok_def)

lemma fits_consumes: "consumes ops r ts r' \<Longrightarrow> fits r' n \<longleftrightarrow> fits r n"
  using consumes_fields[of ops r ts r'] by (simp add: fits_def)

lemma reader_ok_enter:
  assumes "reader_ok r"
  shows "\<not> max_depth r < depth r + 1 \<longleftrightarrow> fits r 1"
    and "fits r 1 \<Longrightarrow> fits (r\<lparr>depth := depth r + 1\<rparr>) n \<longleftrightarrow> fits r (Suc n)"
    and "fits r 1 \<Longrightarrow> reader_ok (r\<lparr>depth := depth r + 1\<rparr>)"
proof -
  have u: "unat (depth r + 1) = unat (depth r) + 1"
    using assms by (subst unat_word_ariths) (simp add: reader_ok_def word_le_nat_alt)
  show "\<not> max_depth r < depth r + 1 \<longleftrightarrow> fits r 1"
    by (simp add: fits_def word_less_nat_alt u not_less)
  show "fits (r\<lparr>depth := depth r + 1\<rparr>) n \<longleftrightarrow> fits r (Suc n)" if "fits r 1"
    using that by (simp add: fits_def u)
  show "reader_ok (r\<lparr>depth := depth r + 1\<rparr>)" if "fits r 1"
    using that assms by (simp add: reader_ok_def fits_def u word_le_nat_alt)
qed

lemma dir_depth_Directory:
  "fits r (dir_depth (Directory es)) \<longleftrightarrow> fits r 1 \<and> list_all (\<lambda>e. fits r (Suc (entry_depth e))) es"
proof -
  have "fits r (dir_depth (Directory es)) \<longleftrightarrow>
    fits r 1 \<and> fold max (map entry_depth es) 0 \<le> unat (max_depth r) - unat (depth r) - 1"
    by (auto simp: fits_def)
  also have "\<dots> \<longleftrightarrow> fits r 1 \<and> list_all (\<lambda>e. fits r (Suc (entry_depth e))) es"
    unfolding fold_max_le by (auto simp: fits_def list_all_iff)
  finally show ?thesis .
qed

definition dir_entries_read ::
  "'h sha256_ops \<Rightarrow> string option \<Rightarrow> 'h nar_reader \<Rightarrow> nar_entry list \<Rightarrow> 'h nar_reader \<Rightarrow> bool" where
  "dir_entries_read ops last_name r es r' \<longleftrightarrow>
     list_all wf_entry es \<and> sorted_after last_name es \<and>
     (reader_ok r \<longrightarrow> list_all (\<lambda>e. fits r (entry_depth e)) es) \<and>
     consumes ops r (concat (map entry_tokens es) @ [as_bytes '')'']) r'"

definition node_read :: "'h sha256_ops \<Rightarrow> 'h nar_reader \<Rightarrow> nar_node \<Rightarrow> 'h nar_reader \<Rightarrow> bool" where
  "node_read ops r nd r' \<longleftrightarrow>
     wf_node nd \<and> (reader_ok r \<longrightarrow> fits r (dir_depth nd)) \<and> consumes ops r (node_tokens nd) r'"

lemma dir_entries_read_Cons:
  assumes "consumes ops r (map as_bytes [''entry'', ''('', ''name'', nm, ''node'']) r1"
    and "node_read ops r1 nd r2" and "consumes ops r2 [as_bytes '')''] r3"
    and "str_token nm" "entry_name_ok nm" "\<not> out_of_order last_name nm"
    and "dir_entries_read ops (Some nm) r3 es r'"
  shows "dir_entries_read ops last_name r (NarEntry nm nd # es) r'"
proof -
  have r3: "consumes ops r (entry_tokens (NarEntry nm nd)) r3"
    using assms unfolding entry_tokens.simps consumes_append node_read_def by blast
  have "fits r3 n = fits r n" "fits r1 n = fits r n" "reader_ok r3 = reader_ok r" "reader_ok r1 = reader_ok r" for n
    using fits_consumes[OF r3] fits_consumes[OF assms(1)] reader_ok_consumes[OF r3]
      reader_ok_consumes[OF assms(1)] by simp_all
  then show ?thesis
    using assms r3 by (auto simp: dir_entries_read_def node_read_def consumes_append
      simp del: entry_tokens.simps)
qed

definition dir_read :: "'h sha256_ops \<Rightarrow> 'h nar_reader \<Rightarrow> nar_node \<Rightarrow> 'h nar_reader \<Rightarrow> bool" where
  "dir_read ops r nd r' \<longleftrightarrow>
     (\<exists>es. nd = Directory es \<and> wf_node nd \<and> (reader_ok r \<longrightarrow> fits r (dir_depth nd)) \<and>
        consumes ops r (concat (map entry_tokens es) @ [as_bytes '')'']) r')"

lemma parse_directory_sound:
  assumes loop: "parse_directory_loop fuel ops [] None (r\<lparr>depth := depth r + 1\<rparr>) = Ok (nd, r') \<Longrightarrow>
      \<exists>es r1. nd = Directory es \<and> dir_entries_read ops None (r\<lparr>depth := depth r + 1\<rparr>) es r1 \<and>
        r' = r1\<lparr>depth := depth r1 - 1\<rparr>"
    and res: "parse_directory (Suc fuel) ops r = Ok (nd, r')"
  shows "dir_read ops r nd r'"
proof -
  let ?r = "r\<lparr>depth := depth r + 1\<rparr>"
  have guard: "\<not> max_depth r < depth r + 1"
    and "parse_directory_loop fuel ops [] None ?r = Ok (nd, r')"
    using res by (auto simp: Let_def split: if_splits)
  then obtain es r1 where nd: "nd = Directory es" and rd: "dir_entries_read ops None ?r es r1"
    and r': "r' = r1\<lparr>depth := depth r1 - 1\<rparr>"
    using loop by auto
  have "depth r1 = depth r + 1"
    using rd consumes_fields[of ops ?r _ r1] by (auto simp: dir_entries_read_def)
  then have "r' = r1\<lparr>depth := depth r\<rparr>" using r' by simp
  then have "consumes ops r (concat (map entry_tokens es) @ [as_bytes '')'']) r'"
    using rd consumes_depth[where r = r and d = "depth r + 1"] by (auto simp: dir_entries_read_def)
  moreover have "fits r (dir_depth nd)" if ok: "reader_ok r"
  proof -
    have f1: "fits r 1" using reader_ok_enter(1)[OF ok] guard by simp
    then show ?thesis
      using rd reader_ok_enter(2,3)[OF ok f1]
      unfolding nd dir_depth_Directory by (auto simp: dir_entries_read_def)
  qed
  moreover have "wf_node nd" using rd by (simp add: nd dir_entries_read_def sorted_after_def)
  ultimately show ?thesis using nd unfolding dir_read_def by blast
qed

lemma parse_loop_sound:
  assumes loop: "\<And>es0 last_name r nd r'. parse_directory_loop fuel ops es0 last_name r = Ok (nd, r') \<Longrightarrow>
      \<exists>es r1. nd = Directory (es0 @ es) \<and> dir_entries_read ops last_name r es r1 \<and>
        r' = r1\<lparr>depth := depth r1 - 1\<rparr>"
    and node: "\<And>r nd r'. parse_node_inner fuel ops r = Ok (nd, r') \<Longrightarrow> node_read ops r nd r'"
    and res: "parse_directory_loop (Suc fuel) ops es0 last_name r = Ok (nd, r')"
  shows "\<exists>es r1. nd = Directory (es0 @ es) \<and> dir_entries_read ops last_name r es r1 \<and>
        r' = r1\<lparr>depth := depth r1 - 1\<rparr>"
proof -
  obtain tok r0 where tok: "read_str ops r = Ok (tok, r0)"
    using res by (auto simp: outcome_simps)
  show ?thesis
  proof (cases "tok = '')''")
    case True
    then have "dir_entries_read ops last_name r [] r0" "nd = Directory (es0 @ [])"
        "r' = r0\<lparr>depth := depth r0 - 1\<rparr>"
      using res tok by (auto simp: outcome_simps dir_entries_read_def read_str_Ok)
    then show ?thesis by blast
  next
    case False
    then obtain nm n r1 r2 r3 where "str_token nm" "entry_name_ok nm" "\<not> out_of_order last_name nm"
      "consumes ops r (map as_bytes [''entry'', ''('', ''name'', nm, ''node'']) r1"
      "node_read ops r1 n r2" "consumes ops r2 [as_bytes '')''] r3"
      and rec: "parse_directory_loop fuel ops (es0 @ [NarEntry nm n]) (Some nm) r3 = Ok (nd, r')"
      using res tok
      by (auto simp: outcome_simps read_str_Ok expect_str_Ok validate_entry_name_iff split: if_splits
          dest!: node) blast
    then show ?thesis using loop[OF rec] dir_entries_read_Cons by fastforce
  qed
qed

text \<open>The head of a node, the same in \<open>parse_node\<close> and \<open>parse_node_inner\<close>.\<close>

definition node_head :: "string \<Rightarrow> bytes list" where
  "node_head ty = map as_bytes [''('', ''type'', ty]"

lemma node_head_Ok:
  "obind (expect_str ops ''('' r) (\<lambda>r. obind (expect_str ops ''type'' r) (\<lambda>r.
     obind (read_str ops r) K)) = Ok y \<longleftrightarrow>
   (\<exists>ty r1. str_token ty \<and> consumes ops r (node_head ty) r1 \<and> K (ty, r1) = Ok y)"
  by (auto simp: obind_eq_Ok expect_str_Ok read_str_Ok node_head_def)

lemma node_head_run:
  "consumes ops r (node_head ty) r1 \<Longrightarrow> str_token ty \<Longrightarrow>
     obind (expect_str ops ''('' r) (\<lambda>r. obind (expect_str ops ''type'' r) (\<lambda>r.
       obind (read_str ops r) K)) = K (ty, r1)"
  by (auto simp: node_head_def expect_str_Ok[THEN iffD2] read_str_Ok[THEN iffD2])

lemma expect_str_eof:
  "inner r = [] \<Longrightarrow> expect_str ops s r = Err (NarParse (''unexpected EOF: '' @ eof_error r))"
  by (simp add: expect_str_def read_str_def read_bytes_def read_u64_def read_exact_def)

lemma node_tokens_head:
  "node_tokens (Regular x c) = node_head ''regular'' @
     ((if x then map as_bytes [''executable'', ''''] else []) @ [as_bytes ''contents'', c]) @ [as_bytes '')'']"
  "node_tokens (Symlink t) = node_head ''symlink'' @ map as_bytes [''target'', t] @ [as_bytes '')'']"
  "node_tokens (Directory es) = node_head ''directory'' @ concat (map entry_tokens es) @ [as_bytes '')'']"
  by (simp_all add: node_head_def)

lemma fits_0 [simp]: "reader_ok r \<Longrightarrow> fits r 0"
  by (simp add: reader_ok_def fits_def word_le_nat_alt)

lemma leaf_read:
  assumes "consumes ops r (node_head ty) r1" and "consumes ops r2 [as_bytes '')''] r'"
    and "ty = ''regular'' \<and> parse_regular ops r1 = Ok (nd, r2) \<or>
         ty = ''symlink'' \<and> parse_symlink ops r1 = Ok (nd, r2)"
  shows "node_read ops r nd r'"
proof -
  have "\<exists>ts. consumes ops r1 ts r2 \<and> node_tokens nd = node_head ty @ ts @ [as_bytes '')''] \<and>
    wf_node nd \<and> dir_depth nd = 0"
    using assms(3) unfolding parse_regular_Ok parse_symlink_Ok by (auto simp only: node_tokens_head wf_node.simps dir_depth.simps)
  then show ?thesis
    using assms(1,2) unfolding node_read_def by (auto simp: consumes_append) blast
qed

lemma dir_node_read:
  assumes "consumes ops r (node_head ''directory'') r1" and "dir_read ops r1 nd r'"
  shows "node_read ops r nd r'"
proof -
  obtain es where es: "nd = Directory es" and wf: "wf_node nd" "reader_ok r1 \<longrightarrow> fits r1 (dir_depth nd)"
    and c: "consumes ops r1 (concat (map entry_tokens es) @ [as_bytes '')'']) r'"
    using assms(2) unfolding dir_read_def by blast
  have "consumes ops r (node_tokens nd) r'"
    unfolding es node_tokens_head(3) consumes_append[of _ _ "node_head _"] using assms(1) c by blast
  then show ?thesis
    using wf fits_consumes[OF assms(1)] reader_ok_consumes[OF assms(1)] by (simp add: node_read_def)
qed

lemma parse_inner_sound:
  assumes dir: "\<And>r nd r'. parse_directory fuel ops r = Ok (nd, r') \<Longrightarrow> dir_read ops r nd r'"
    and res: "parse_node_inner (Suc fuel) ops r = Ok (nd, r')"
  shows "node_read ops r nd r'"
proof -
  let ?close = "\<lambda>(n, r). obind (expect_str ops '')'' r) (\<lambda>r. Ok (n, r))"
  obtain ty r1 where 1: "consumes ops r (node_head ty) r1"
    and "(ty = ''regular'' \<and> obind (parse_regular ops r1) ?close = Ok (nd, r')) \<or>
         (ty = ''symlink'' \<and> obind (parse_symlink ops r1) ?close = Ok (nd, r')) \<or>
         (ty = ''directory'' \<and> parse_directory fuel ops r1 = Ok (nd, r'))"
    using res unfolding parse_node_inner.simps node_head_Ok by (auto split: if_splits)
  then consider r2 where "consumes ops r2 [as_bytes '')''] r'"
      "ty = ''regular'' \<and> parse_regular ops r1 = Ok (nd, r2) \<or>
       ty = ''symlink'' \<and> parse_symlink ops r1 = Ok (nd, r2)"
    | "ty = ''directory''" "parse_directory fuel ops r1 = Ok (nd, r')"
    by (auto simp: obind_eq_Ok expect_str_Ok)
  then show ?thesis
    using 1 dir by cases (auto intro: leaf_read dir_node_read)
qed

lemma parse_sound:
  "(\<forall>r nd r'. parse_directory fuel ops r = Ok (nd, r') \<longrightarrow> dir_read ops r nd r') \<and>
   (\<forall>es0 last_name r nd r'. parse_directory_loop fuel ops es0 last_name r = Ok (nd, r') \<longrightarrow>
     (\<exists>es r1. nd = Directory (es0 @ es) \<and> dir_entries_read ops last_name r es r1 \<and>
        r' = r1\<lparr>depth := depth r1 - 1\<rparr>)) \<and>
   (\<forall>r nd r'. parse_node_inner fuel ops r = Ok (nd, r') \<longrightarrow> node_read ops r nd r')"
proof (induction fuel)
  case 0
  then show ?case by simp
next
  case (Suc fuel)
  note dir = Suc.IH[THEN conjunct1, rule_format]
    and loop = Suc.IH[THEN conjunct2, THEN conjunct1, rule_format]
    and node = Suc.IH[THEN conjunct2, THEN conjunct2, rule_format]
  show ?case
    using parse_directory_sound[OF loop[of "[]", unfolded append_Nil]] parse_loop_sound[OF loop node]
      parse_inner_sound[OF dir] by (intro conjI allI impI)
qed

lemma parse_directory_complete:
  assumes loop: "\<And>es r1. dir_entries_read ops None (r\<lparr>depth := depth r + 1\<rparr>) es r1 \<Longrightarrow>
      parse_directory_loop fuel ops [] None (r\<lparr>depth := depth r + 1\<rparr>) =
        Ok (Directory es, r1\<lparr>depth := depth r1 - 1\<rparr>)"
    and ok: "reader_ok r" and rd: "dir_read ops r nd r'"
  shows "parse_directory (Suc fuel) ops r = Ok (nd, r')"
proof -
  obtain es where nd: "nd = Directory es" and wf: "wf_node nd" and fits: "fits r (dir_depth nd)"
    and c: "consumes ops r (concat (map entry_tokens es) @ [as_bytes '')'']) r'"
    using rd ok unfolding dir_read_def by blast
  have f1: "fits r 1" using fits unfolding nd dir_depth_Directory by simp
  have "dir_entries_read ops None (r\<lparr>depth := depth r + 1\<rparr>) es (r'\<lparr>depth := depth r + 1\<rparr>)"
    using consumes_set_depth[OF c, of "depth r + 1"] wf fits reader_ok_enter(2)[OF ok f1]
    unfolding nd dir_depth_Directory
    by (auto simp: dir_entries_read_def sorted_after_def)
  moreover have "r'\<lparr>depth := depth r\<rparr> = r'"
    using consumes_fields[OF c] by (cases r') simp
  ultimately show ?thesis
    using loop reader_ok_enter(1)[OF ok] f1 by (simp add: Let_def nd)
qed

lemma dir_entries_read_ConsE:
  assumes "dir_entries_read ops last_name r (NarEntry nm nd # es) r'"
  obtains r1 r2 r3 where "consumes ops r (map as_bytes [''entry'', ''('', ''name'', nm, ''node'']) r1"
    and "node_read ops r1 nd r2" and "consumes ops r2 [as_bytes '')''] r3"
    and "str_token nm" "entry_name_ok nm" "\<not> out_of_order last_name nm"
    and "dir_entries_read ops (Some nm) r3 es r'"
proof -
  obtain r1 r2 r3 where 1: "consumes ops r (map as_bytes [''entry'', ''('', ''name'', nm, ''node'']) r1"
    and 2: "consumes ops r1 (node_tokens nd) r2" and 3: "consumes ops r2 [as_bytes '')''] r3"
    and 4: "consumes ops r3 (concat (map entry_tokens es) @ [as_bytes '')'']) r'"
    using assms unfolding dir_entries_read_def list.map concat.simps entry_tokens.simps append_assoc
      consumes_append by blast
  have r3: "consumes ops r (entry_tokens (NarEntry nm nd)) r3"
    using 1 2 3 unfolding entry_tokens.simps consumes_append by blast
  have "fits r3 n = fits r n" "fits r1 n = fits r n" "reader_ok r3 = reader_ok r" "reader_ok r1 = reader_ok r" for n
    using fits_consumes[OF r3] fits_consumes[OF 1] reader_ok_consumes[OF r3]
      reader_ok_consumes[OF 1] by simp_all
  then show thesis
    using that[OF 1 _ 3] 2 4 assms by (simp add: dir_entries_read_def node_read_def)
qed

lemma parse_loop_complete:
  assumes loop: "\<And>es0 last_name r es r1. length (inner r) < fuel \<Longrightarrow> reader_ok r \<Longrightarrow>
        dir_entries_read ops last_name r es r1 \<Longrightarrow>
      parse_directory_loop fuel ops es0 last_name r = Ok (Directory (es0 @ es), r1\<lparr>depth := depth r1 - 1\<rparr>)"
    and node: "\<And>r nd r'. length (inner r) < fuel \<Longrightarrow> reader_ok r \<Longrightarrow> node_read ops r nd r' \<Longrightarrow>
      parse_node_inner fuel ops r = Ok (nd, r')"
    and fuel: "length (inner r) < Suc fuel" and ok: "reader_ok r" and rd: "dir_entries_read ops last_name r es r1"
  shows "parse_directory_loop (Suc fuel) ops es0 last_name r = Ok (Directory (es0 @ es), r1\<lparr>depth := depth r1 - 1\<rparr>)"
proof (cases es)
  case Nil
  then have "read_str ops r = Ok ('')'', r1)"
    using rd by (simp add: dir_entries_read_def read_str_Ok)
  then show ?thesis by (simp add: Nil)
next
  case (Cons e es')
  obtain nm nd where e: "e = NarEntry nm nd" by (cases e)
  obtain s1 s2 s3 where 1: "consumes ops r (map as_bytes [''entry'', ''('', ''name'', nm, ''node'']) s1"
    and 2: "node_read ops s1 nd s2" and 3: "consumes ops s2 [as_bytes '')''] s3"
    and nm: "str_token nm" "entry_name_ok nm" "\<not> out_of_order last_name nm"
    and 4: "dir_entries_read ops (Some nm) s3 es' r1"
    using rd unfolding Cons e by (rule dir_entries_read_ConsE)
  from 1 obtain ra rb rc rd where "consumes ops r [as_bytes ''entry''] ra"
      "consumes ops ra [as_bytes ''(''] rb" "consumes ops rb [as_bytes ''name''] rc"
      "consumes ops rc [as_bytes nm] rd" "consumes ops rd [as_bytes ''node''] s1"
    by auto
  then have toks: "read_str ops r = Ok (''entry'', ra)" "expect_str ops ''('' ra = Ok rb"
      "expect_str ops ''name'' rb = Ok rc" "read_str ops rc = Ok (nm, rd)"
      "expect_str ops ''node'' rd = Ok s1" "expect_str ops '')'' s2 = Ok s3"
    using nm 3 by (simp_all add: read_str_Ok expect_str_Ok)
  have two: "consumes ops s1 (node_tokens nd) s2" using 2 by (simp add: node_read_def)
  have "length (inner s1) < fuel" "length (inner s3) < fuel"
    using fuel consumes_length[OF 1] consumes_length[OF two] consumes_length[OF 3] by simp_all
  moreover have "reader_ok s1" "reader_ok s3"
    using ok reader_ok_consumes[OF 1] reader_ok_consumes[OF two] reader_ok_consumes[OF 3] by simp_all
  ultimately show ?thesis
    using toks nm 2 4 validate_entry_name_iff[of nm "()"] by (simp add: node loop Cons e)
qed

lemma parse_inner_complete:
  assumes dir: "\<And>r nd r'. length (inner r) + 1 < fuel \<Longrightarrow> reader_ok r \<Longrightarrow> dir_read ops r nd r' \<Longrightarrow>
      parse_directory fuel ops r = Ok (nd, r')"
    and fuel: "length (inner r) < Suc fuel" and ok: "reader_ok r" and rd: "node_read ops r nd r'"
  shows "parse_node_inner (Suc fuel) ops r = Ok (nd, r')"
proof (cases nd)
  case (Regular x c)
  then obtain r1 r2 where "consumes ops r (node_head ''regular'') r1" "parse_regular ops r1 = Ok (nd, r2)"
    "expect_str ops '')'' r2 = Ok r'"
    using rd unfolding node_read_def Regular node_tokens_head(1) consumes_append[of _ _ "node_head _"]
      consumes_append[of _ _ _ "[as_bytes '')'']"] parse_regular_Ok expect_str_Ok by auto
  then show ?thesis unfolding parse_node_inner.simps node_head_Ok by (auto intro!: exI[of _ "''regular''"])
next
  case (Symlink t)
  then obtain r1 r2 where "consumes ops r (node_head ''symlink'') r1" "parse_symlink ops r1 = Ok (nd, r2)"
    "expect_str ops '')'' r2 = Ok r'"
    using rd unfolding node_read_def Symlink node_tokens_head(2) consumes_append[of _ _ "node_head _"]
      consumes_append[of _ _ _ "[as_bytes '')'']"] parse_symlink_Ok expect_str_Ok by auto
  then show ?thesis unfolding parse_node_inner.simps node_head_Ok by (auto intro!: exI[of _ "''symlink''"])
next
  case (Directory es)
  then obtain r1 where r1: "consumes ops r (node_head ''directory'') r1"
    and c: "consumes ops r1 (concat (map entry_tokens es) @ [as_bytes '')'']) r'"
    using rd unfolding node_read_def Directory node_tokens_head(3) consumes_append[of _ _ "node_head _"]
    by blast
  have "dir_read ops r1 nd r'"
    using c rd Directory fits_consumes[OF r1] reader_ok_consumes[OF r1]
    unfolding dir_read_def node_read_def by blast
  moreover have "length (inner r1) + 1 < fuel" "reader_ok r1"
    using consumes_length[OF r1] fuel ok reader_ok_consumes[OF r1] by (simp_all add: node_head_def)
  ultimately show ?thesis
    using r1 dir unfolding parse_node_inner.simps node_head_Ok by (auto intro!: exI[of _ "''directory''"])
qed

lemma parse_complete:
  "(\<forall>r nd r'. length (inner r) + 1 < fuel \<longrightarrow> reader_ok r \<longrightarrow> dir_read ops r nd r' \<longrightarrow>
      parse_directory fuel ops r = Ok (nd, r')) \<and>
   (\<forall>es0 last_name r es r1. length (inner r) < fuel \<longrightarrow> reader_ok r \<longrightarrow>
      dir_entries_read ops last_name r es r1 \<longrightarrow>
      parse_directory_loop fuel ops es0 last_name r = Ok (Directory (es0 @ es), r1\<lparr>depth := depth r1 - 1\<rparr>)) \<and>
   (\<forall>r nd r'. length (inner r) < fuel \<longrightarrow> reader_ok r \<longrightarrow> node_read ops r nd r' \<longrightarrow>
      parse_node_inner fuel ops r = Ok (nd, r'))"
proof (induction fuel)
  case 0
  then show ?case by simp
next
  case (Suc fuel)
  show ?case
  proof (intro conjI allI impI)
    fix r nd r' assume l: "length (inner r) + 1 < Suc fuel" and ok: "reader_ok r" and rd: "dir_read ops r nd r'"
    have f1: "fits r 1"
      using rd ok unfolding dir_read_def by (auto simp: dir_depth_Directory simp del: dir_depth.simps)
    show "parse_directory (Suc fuel) ops r = Ok (nd, r')"
      using Suc.IH l reader_ok_enter(3)[OF ok f1] by (intro parse_directory_complete[OF _ ok rd]) simp
  next
    fix es0 last_name r es r1
    assume "length (inner r) < Suc fuel" "reader_ok r" "dir_entries_read ops last_name r es r1"
    then show "parse_directory_loop (Suc fuel) ops es0 last_name r = Ok (Directory (es0 @ es), r1\<lparr>depth := depth r1 - 1\<rparr>)"
      using Suc.IH by (intro parse_loop_complete) simp_all
  next
    fix r nd r' assume "length (inner r) < Suc fuel" "reader_ok r" "node_read ops r nd r'"
    then show "parse_node_inner (Suc fuel) ops r = Ok (nd, r')"
      using Suc.IH by (intro parse_inner_complete) simp_all
  qed
qed

lemma parse_settled:
  "(\<forall>r. length (inner r) + 1 < fuel \<longrightarrow> settled (parse_directory fuel ops r)) \<and>
   (\<forall>es0 last_name r. length (inner r) < fuel \<longrightarrow> settled (parse_directory_loop fuel ops es0 last_name r)) \<and>
   (\<forall>r. length (inner r) < fuel \<longrightarrow> settled (parse_node_inner fuel ops r))"
proof (induction fuel)
  case 0
  then show ?case by simp
next
  case (Suc fuel)
  note dir' = Suc.IH[THEN conjunct1, rule_format]
    and loop' = Suc.IH[THEN conjunct2, THEN conjunct1, rule_format]
    and node' = Suc.IH[THEN conjunct2, THEN conjunct2, rule_format]
  have shrink: "length (inner r') < length (inner r)" if "consumes ops r (t # ts) r'" for r r' t ts
    using consumes_length[OF that] by simp
  have node: "length (inner r') < length (inner r)" if "parse_node_inner fuel ops r = Ok (nd, r')" for r nd r'
  proof -
    have "consumes ops r (node_tokens nd) r'" using that parse_sound[of fuel ops] by (auto simp: node_read_def)
    then show ?thesis using consumes_length[of ops r "node_tokens nd" r'] by (cases nd) auto
  qed
  have loop: "settled (parse_directory_loop (Suc fuel) ops es0 last_name r)"
    if "length (inner r) < Suc fuel" for es0 last_name r
    using that loop'
    by (auto intro!: settled_obind node' simp: read_str_Ok expect_str_Ok dest!: shrink node)
  have inner: "settled (parse_node_inner (Suc fuel) ops r)" if "length (inner r) < Suc fuel" for r
    using that dir'
    by (auto intro!: settled_obind simp: read_str_Ok expect_str_Ok dest!: shrink)
  have dir: "settled (parse_directory (Suc fuel) ops r)" if "length (inner r) + 1 < Suc fuel" for r
    using that loop' by (simp add: Let_def)
  show ?case using dir loop inner by blast
qed

section \<open>Whole archives\<close>

text \<open>The tokens the parser wants of a whole archive: those of the format, and for a directory
  at the root one more closing token.\<close>

definition is_directory :: "nar_node \<Rightarrow> bool" where
  "is_directory nd = (case nd of Directory es \<Rightarrow> True | _ \<Rightarrow> False)"

definition root_tokens :: "nar_node \<Rightarrow> bytes list" where
  "root_tokens nd = as_bytes NAR_MAGIC # node_tokens nd @ (if is_directory nd then [as_bytes '')''] else [])"

lemma root_tokens_leaf: "\<not> is_directory nd \<Longrightarrow> enc_tokens (root_tokens nd) = nar_encode nd"
  by (simp add: root_tokens_def nar_encode_def)

lemma parse_node_sound:
  assumes ok: "reader_ok r" and run: "parse_node fuel ops r = Ok (nd, r')"
  shows "wf_node nd \<and> fits r (dir_depth nd) \<and>
    consumes ops r (node_tokens nd @ (if is_directory nd then [as_bytes '')''] else [])) r'"
proof -
  obtain ty r1 r2 where 1: "consumes ops r (node_head ty) r1"
    and 2: "ty = ''regular'' \<and> parse_regular ops r1 = Ok (nd, r2) \<or>
         ty = ''symlink'' \<and> parse_symlink ops r1 = Ok (nd, r2) \<or>
         ty = ''directory'' \<and> parse_directory fuel ops r1 = Ok (nd, r2)"
    and 3: "consumes ops r2 [as_bytes '')''] r'"
    using run unfolding parse_node_def node_head_Ok
    by (auto simp: obind_eq_Ok expect_str_Ok split: if_splits)
  show ?thesis
  proof (cases "ty = ''directory''")
    case True
    then have "dir_read ops r1 nd r2" using 2 parse_sound[of fuel ops] by auto
    then have "node_read ops r nd r2" "is_directory nd"
      using 1 True by (auto simp: dir_node_read dir_read_def is_directory_def)
    then show ?thesis using 3 ok by (auto simp: node_read_def consumes_append)
  next
    case False
    then have "node_read ops r nd r'" using leaf_read[OF 1 3] 2 by blast
    moreover have "\<not> is_directory nd"
      using False 2 by (auto simp: is_directory_def parse_regular_Ok parse_symlink_Ok)
    ultimately show ?thesis using ok by (simp add: node_read_def)
  qed
qed

lemma parse_node_directory:
  assumes fuel: "length (inner r) \<le> fuel" and ok: "reader_ok r" and nd: "nd = Directory es" "wf_node nd" "fits r (dir_depth nd)"
    and run: "consumes ops r (node_tokens nd @ [as_bytes '')'']) r'"
  shows "parse_node fuel ops r = Ok (nd, r')"
proof -
  obtain r1 r2 where r1: "consumes ops r (node_head ''directory'') r1"
    and c: "consumes ops r1 (concat (map entry_tokens es) @ [as_bytes '')'']) r2"
    and r': "consumes ops r2 [as_bytes '')''] r'"
    using run unfolding nd(1) node_tokens_head(3)
      consumes_append[of _ _ "node_head _ @ _ @ _"] consumes_append[of _ _ "node_head _"] by blast
  have "dir_read ops r1 nd r2"
    using c nd fits_consumes[OF r1] reader_ok_consumes[OF r1]
    unfolding dir_read_def by blast
  moreover have "length (inner r1) + 1 < fuel" "reader_ok r1"
    using consumes_length[OF r1] fuel ok reader_ok_consumes[OF r1] by (simp_all add: node_head_def)
  ultimately show ?thesis
    using r1 r' parse_complete[of fuel ops] unfolding parse_node_def node_head_Ok
    by (auto intro!: exI[of _ "''directory''"] simp: obind_eq_Ok expect_str_Ok)
qed

lemma parse_node_Ok:
  assumes fuel: "length (inner r) \<le> fuel" and ok: "reader_ok r"
  shows "parse_node fuel ops r = Ok (nd, r') \<longleftrightarrow>
    wf_node nd \<and> fits r (dir_depth nd) \<and>
    consumes ops r (node_tokens nd @ (if is_directory nd then [as_bytes '')''] else [])) r'"
    (is "_ \<longleftrightarrow> ?R")
proof
  assume R: ?R
  show "parse_node fuel ops r = Ok (nd, r')"
  proof (cases nd)
    case (Regular x c)
    then obtain r1 r2 where "consumes ops r (node_head ''regular'') r1" "parse_regular ops r1 = Ok (nd, r2)"
      "expect_str ops '')'' r2 = Ok r'"
      using R unfolding Regular is_directory_def nar_node.case if_False append_Nil2 node_tokens_head(1)
        consumes_append[of _ _ "node_head _"] consumes_append[of _ _ _ "[as_bytes '')'']"]
        parse_regular_Ok expect_str_Ok by auto
    then show ?thesis unfolding parse_node_def node_head_Ok by (auto intro!: exI[of _ "''regular''"])
  next
    case (Symlink t)
    then obtain r1 r2 where "consumes ops r (node_head ''symlink'') r1" "parse_symlink ops r1 = Ok (nd, r2)"
      "expect_str ops '')'' r2 = Ok r'"
      using R unfolding Symlink is_directory_def nar_node.case if_False append_Nil2 node_tokens_head(2)
        consumes_append[of _ _ "node_head _"] consumes_append[of _ _ _ "[as_bytes '')'']"]
        parse_symlink_Ok expect_str_Ok by auto
    then show ?thesis unfolding parse_node_def node_head_Ok by (auto intro!: exI[of _ "''symlink''"])
  next
    case (Directory es)
    then show ?thesis using parse_node_directory[OF fuel ok Directory] R by (simp add: is_directory_def)
  qed
qed (rule parse_node_sound[OF ok])

definition root_reader :: "'h sha256_ops \<Rightarrow> string \<Rightarrow> u16 \<Rightarrow> bytes \<Rightarrow> 'h nar_reader" where
  "root_reader ops eof limit stream = with_max_depth limit (nar_reader_new ops eof stream)"

lemma root_reader_simps [simp]:
  "inner (root_reader ops eof limit stream) = stream" "depth (root_reader ops eof limit stream) = 0"
  "max_depth (root_reader ops eof limit stream) = limit"
  "hasher (root_reader ops eof limit stream) = sha_new ops"
  "eof_error (root_reader ops eof limit stream) = eof"
  by (simp_all add: root_reader_def with_max_depth_def nar_reader_new_def)

lemma default_reader: "nar_reader_new ops eof stream = root_reader ops eof 256 stream"
  by (simp add: root_reader_def with_max_depth_def nar_reader_new_def DEFAULT_MAX_DEPTH_def)

lemma reader_ok_root: "unat limit < 65535 \<Longrightarrow> reader_ok (root_reader ops eof limit stream)"
  by (simp add: reader_ok_def)

lemma fits_root: "fits (root_reader ops eof limit stream) n \<longleftrightarrow> n \<le> unat limit"
  by (simp add: fits_def)

lemma nar_parse_Ok:
  assumes "unat limit < 65535"
  shows "nar_parse ops (root_reader ops eof limit stream) = Ok (nd, h) \<longleftrightarrow>
    wf_node nd \<and> dir_depth nd \<le> unat limit \<and>
    (\<exists>r'. consumes ops (root_reader ops eof limit stream) (root_tokens nd) r' \<and>
       h = \<lparr>algo = Sha256, digest = sha_finalize ops (hasher r')\<rparr>)"
proof -
  let ?r = "root_reader ops eof limit stream"
  let ?body = "\<lambda>nd. node_tokens nd @ (if is_directory nd then [as_bytes '')''] else [])"
  have body: "parse_node (length (inner r1)) ops r1 = Ok (nd, r') \<longleftrightarrow>
      wf_node nd \<and> dir_depth nd \<le> unat limit \<and> consumes ops r1 (?body nd) r'"
    if "consumes ops ?r [as_bytes NAR_MAGIC] r1" for r1 nd r'
    using reader_ok_consumes[OF that] fits_consumes[OF that]
    by (simp add: parse_node_Ok reader_ok_root[OF assms] fits_root)
  have "nar_parse ops ?r = Ok (nd, h) \<longleftrightarrow>
    (\<exists>r1 r'. consumes ops ?r [as_bytes NAR_MAGIC] r1 \<and> parse_node (length (inner r1)) ops r1 = Ok (nd, r') \<and>
       h = \<lparr>algo = Sha256, digest = sha_finalize ops (hasher r')\<rparr>)"
    by (auto simp: nar_parse_def obind_eq_Ok expect_str_Ok)
  also have "\<dots> \<longleftrightarrow> (\<exists>r1 r'. consumes ops ?r [as_bytes NAR_MAGIC] r1 \<and>
      (wf_node nd \<and> dir_depth nd \<le> unat limit \<and> consumes ops r1 (?body nd) r') \<and>
       h = \<lparr>algo = Sha256, digest = sha_finalize ops (hasher r')\<rparr>)"
    by (simp only: body cong: conj_cong)
  also have "\<dots> \<longleftrightarrow> wf_node nd \<and> dir_depth nd \<le> unat limit \<and>
    (\<exists>r'. consumes ops ?r (root_tokens nd) r' \<and> h = \<lparr>algo = Sha256, digest = sha_finalize ops (hasher r')\<rparr>)"
    unfolding root_tokens_def consumes_Cons[of ops ?r "as_bytes NAR_MAGIC" "?body nd"] by blast
  finally show ?thesis .
qed

lemma sha256_of_consumes:
  assumes "sha256_streams ops sha256" "consumes ops (root_reader ops eof limit stream) ts r'"
  shows "sha_finalize ops (hasher r') = sha256 (enc_tokens ts)"
  using assms consumes_hasher[OF assms(2)] concat_concat_tok_chunks[of ts]
  by (simp add: sha256_streams_def)

lemma nar_leaf_parse:
  assumes "sha256_streams ops sha256" and "wf_node nd" and "\<not> is_directory nd"
  shows "nar_parse ops (nar_reader_new ops eof (nar_encode nd @ rest)) =
           Ok (nd, \<lparr>algo = Sha256, digest = sha256 (nar_encode nd)\<rparr>)"
proof -
  let ?r = "root_reader ops eof 256 (nar_encode nd @ rest)"
  obtain r' where "consumes ops ?r (root_tokens nd) r'"
    using consumes_ex[of ?r "root_tokens nd" rest ops] root_tokens_leaf[OF assms(3)] by auto
  moreover have "dir_depth nd = 0" using assms(3) by (cases nd) (simp_all add: is_directory_def)
  ultimately show ?thesis
    using sha256_of_consumes[OF assms(1)] assms(2,3)
    unfolding default_reader nar_parse_Ok[of 256, simplified]
    by (auto simp: root_tokens_leaf)
qed

text \<open>A hash that keeps its input, to run the parser on concrete archives.\<close>

definition collect_ops :: "bytes sha256_ops" where
  "collect_ops = \<lparr>sha_new = [], sha_update = (@), sha_finalize = id\<rparr>"

lemma foldl_append: "foldl (@) acc chunks = acc @ concat chunks"
  by (induction chunks arbitrary: acc) simp_all

lemma collect_streams: "sha256_streams collect_ops id"
  by (simp add: sha256_streams_def collect_ops_def foldl_append)

lemma sample_symlink: "wf_node (Symlink ''bin/sh'')" "\<not> is_directory (Symlink ''bin/sh'')"
  by (simp_all add: str_token_def max_token_def utf8_valid_def utf8_ascii as_bytes_def is_directory_def)

lemma sample_tree:
  "wf_node (Directory [NarEntry ''bin'' (Directory []), NarEntry ''sh'' (Regular True [1, 2, 3])])"
  "dir_depth (Directory [NarEntry ''bin'' (Directory []), NarEntry ''sh'' (Regular True [1, 2, 3])]) \<le> 256"
  by (simp_all add: str_token_def max_token_def utf8_valid_def utf8_ascii as_bytes_def entry_name_ok_def
      less_char_def)

lemma nar_parse_settled: "settled (nar_parse ops r)"
proof -
  have "settled (parse_node fuel ops r1)" if "length (inner r1) \<le> fuel" for fuel and r1 :: "'a nar_reader"
  proof -
    have "settled (parse_directory fuel ops r2)" if "length (inner r2) + 16 \<le> length (inner r1)" for r2 :: "'a nar_reader"
      using parse_settled[of fuel ops] \<open>length (inner r1) \<le> fuel\<close> that by simp
    then show ?thesis
      unfolding parse_node_def
      by (auto intro!: settled_obind simp: read_str_Ok expect_str_Ok dest!: consumes_length)
  qed
  then show ?thesis
    by (auto simp: nar_parse_def intro!: settled_obind)
qed

lemma nar_parse_hashed:
  assumes "sha256_streams ops sha256"
    and "nar_parse ops (nar_reader_new ops eof stream) = Ok (nd, h)"
  shows "\<exists>rest. stream = enc_tokens (root_tokens nd) @ rest \<and>
           h = \<lparr>algo = Sha256, digest = sha256 (enc_tokens (root_tokens nd))\<rparr>"
  using assms(2) sha256_of_consumes[OF assms(1)] consumes_inner
  unfolding default_reader nar_parse_Ok[of 256, simplified] by fastforce

lemma nar_directory_refused:
  assumes "wf_node (Directory es)" and "dir_depth (Directory es) \<le> 256"
  shows "nar_parse ops (nar_reader_new ops eof (nar_encode (Directory es))) =
           Err (NarParse (''unexpected EOF: '' @ eof))"
proof -
  let ?r = "root_reader ops eof 256 (nar_encode (Directory es))"
  obtain r3 where c: "consumes ops ?r (as_bytes NAR_MAGIC # node_tokens (Directory es)) r3"
    and eof: "inner r3 = []"
    using consumes_ex[of ?r "as_bytes NAR_MAGIC # node_tokens (Directory es)" "[]" ops]
    by (auto simp: nar_encode_def)
  then obtain r1 where 1: "consumes ops ?r [as_bytes NAR_MAGIC] r1"
    and "consumes ops r1 (node_tokens (Directory es)) r3"
    using consumes_Cons[THEN iffD1, OF c] by blast
  then obtain r2 where 2: "consumes ops r1 (node_head ''directory'') r2"
    and 3: "consumes ops r2 (concat (map entry_tokens es) @ [as_bytes '')'']) r3"
    unfolding node_tokens_head(3) consumes_append[of _ _ "node_head _"] by blast
  have ok: "reader_ok r2" "fits r2 (dir_depth (Directory es))"
    using fits_consumes[OF 2] fits_consumes[OF 1] reader_ok_consumes[OF 2] reader_ok_consumes[OF 1]
      assms(2) reader_ok_root[of 256] by (simp_all add: fits_root)
  then have "parse_directory (length (inner r1)) ops r2 = Ok (Directory es, r3)"
    using parse_complete[of "length (inner r1)" ops] consumes_length[OF 2] 3 assms(1)
    by (auto simp: dir_read_def node_head_def)
  then have "parse_node (length (inner r1)) ops r1 = Err (NarParse (''unexpected EOF: '' @ eof))"
    unfolding parse_node_def node_head_run[OF 2 str_token_literals(6)]
    using consumes_fields[OF c] by (simp add: expect_str_eof eof)
  then show ?thesis
    using 1 by (simp add: default_reader nar_parse_def expect_str_Ok[THEN iffD2])
qed

text \<open>C8. The archive parser accepts exactly the streams that start with an archive of the format it expects: for a stream
  and the default limit of 256 levels, some digest is returned with the tree \<open>nd\<close> exactly if \<open>nd\<close> is
  well formed (every token at most 128 MiB, strings in UTF-8, every entry name non-empty,
  neither \<open>.\<close> nor \<open>..\<close>, free of slashes and NUL, the names of a directory strictly increasing), nests
  at most 256 directories, and the stream starts with the encoding of \<open>nd\<close>. Bytes behind the encoding are neither
  read nor refused, although the documentation of the format asks for no trailing data.\<close>

theorem nar_parse_accepts:
  "(\<exists>h. nar_parse ops (nar_reader_new ops eof stream) = Ok (nd, h)) \<longleftrightarrow>
   wf_node nd \<and> dir_depth nd \<le> 256 \<and> (\<exists>rest. stream = enc_tokens (root_tokens nd) @ rest)"
  unfolding default_reader nar_parse_Ok[of 256, simplified]
  using consumes_inner[of ops "root_reader ops eof 256 stream" "root_tokens nd"]
    consumes_ex[of "root_reader ops eof 256 stream" "root_tokens nd" _ ops] by auto

text \<open>Trailing data changes nothing: bytes added behind an archive the parser accepts give the same tree and the same hash.\<close>

lemma nar_trailing_data_ignored:
  assumes "sha256_streams ops sha256" "nar_parse ops (nar_reader_new ops eof stream) = Ok (nd, h)"
  shows "nar_parse ops (nar_reader_new ops eof (stream @ extra)) = Ok (nd, h)"
proof -
  obtain rest where rest: "stream = enc_tokens (root_tokens nd) @ rest" using nar_parse_hashed[OF assms] by blast
  have "\<exists>h'. nar_parse ops (nar_reader_new ops eof (stream @ extra)) = Ok (nd, h')"
    using assms(2) consumes_ex[of "root_reader ops eof 256 (stream @ extra)" "root_tokens nd" "rest @ extra" ops] rest
    unfolding default_reader nar_parse_Ok[of 256, simplified] by auto
  then obtain h' where p: "nar_parse ops (nar_reader_new ops eof (stream @ extra)) = Ok (nd, h')" by blast
  then show ?thesis using nar_parse_hashed[OF assms] nar_parse_hashed[OF assms(1) p] by simp
qed

text \<open>The hash the parser returns is the SHA-256 of exactly the bytes of the archive, whatever
  follows them in the stream.\<close>

theorem nar_parse_hash:
  assumes "sha256_streams ops sha256"
    and "nar_parse ops (nar_reader_new ops eof stream) = Ok (nd, h)"
  shows "\<exists>rest. stream = enc_tokens (root_tokens nd) @ rest \<and>
           h = \<lparr>algo = Sha256, digest = sha256 (enc_tokens (root_tokens nd))\<rparr>"
  using assms by (rule nar_parse_hashed)

theorem nar_parse_hash_witness:
  "\<exists>rest. nar_encode (Symlink ''bin/sh'') = enc_tokens (root_tokens (Symlink ''bin/sh'')) @ rest \<and>
     nar_encode (Symlink ''bin/sh'') = id (enc_tokens (root_tokens (Symlink ''bin/sh'')))"
  using nar_parse_hash[OF collect_streams
      nar_leaf_parse[OF collect_streams sample_symlink, of "''eof''" "[]"]] by simp

text \<open>C34. The parser returns on every stream and with every reader: it neither panics nor runs
  forever, because every level and every entry reads a token of at least eight bytes.\<close>

theorem nar_parse_returns: "settled (nar_parse ops r)"
  by (rule nar_parse_settled)

text \<open>Round trip for the archives of a file or a symlink: the encoding of a well-formed leaf,
  followed by anything, parses to that leaf with the SHA-256 of its encoding.\<close>

theorem nar_leaf_roundtrip:
  assumes "sha256_streams ops sha256" and "wf_node nd" and "\<not> is_directory nd"
  shows "nar_parse ops (nar_reader_new ops eof (nar_encode nd @ rest)) =
           Ok (nd, \<lparr>algo = Sha256, digest = sha256 (nar_encode nd)\<rparr>)"
  using assms by (rule nar_leaf_parse)

theorem nar_leaf_roundtrip_witness:
  "nar_parse collect_ops (nar_reader_new collect_ops ''eof'' (nar_encode (Symlink ''bin/sh'') @ [7])) =
     Ok (Symlink ''bin/sh'', \<lparr>algo = Sha256, digest = nar_encode (Symlink ''bin/sh'')\<rparr>)"
  using nar_leaf_roundtrip[OF collect_streams sample_symlink, of "''eof''" "[7]"] by simp

text \<open>C31. An archive of the format with a directory at its root is refused: after the whole
  encoding the parser wants one more closing token, and reports the end of the stream.\<close>

theorem nar_directory_root_refused:
  assumes "wf_node (Directory es)" and "dir_depth (Directory es) \<le> 256"
  shows "nar_parse ops (nar_reader_new ops eof (nar_encode (Directory es))) =
           Err (NarParse (''unexpected EOF: '' @ eof))"
  using assms by (rule nar_directory_refused)

theorem nar_directory_root_refused_witness:
  "nar_parse collect_ops (nar_reader_new collect_ops ''eof'' (nar_encode (Directory
       [NarEntry ''bin'' (Directory []), NarEntry ''sh'' (Regular True [1, 2, 3])]))) =
     Err (NarParse ''unexpected EOF: eof'')"
  using nar_directory_root_refused[OF sample_tree, of collect_ops "''eof''"] by simp

section \<open>The parser as a codec\<close>

definition nar_tree :: "'h sha256_ops \<Rightarrow> string \<Rightarrow> bytes \<Rightarrow> nar_node result" where
  "nar_tree ops eof stream = obind (nar_parse ops (nar_reader_new ops eof stream)) (\<lambda>(nd, h). Ok nd)"

lemma nar_tree_Ok:
  "nar_tree ops eof stream = Ok nd \<longleftrightarrow>
     wf_node nd \<and> dir_depth nd \<le> 256 \<and>
     (\<exists>r'. consumes ops (root_reader ops eof 256 stream) (root_tokens nd) r')"
  using nar_parse_Ok[of 256 ops eof stream nd] by (auto simp: nar_tree_def obind_eq_Ok default_reader)

interpretation nar: codec "\<lambda>nd. enc_tokens (root_tokens nd)" "nar_tree ops eof"
    "\<lambda>nd. wf_node nd \<and> dir_depth nd \<le> 256"
proof (unfold_locales, unfold nar_tree_Ok)
  fix nd assume "wf_node nd \<and> dir_depth nd \<le> 256"
  then show "wf_node nd \<and> dir_depth nd \<le> 256 \<and>
      (\<exists>r'. consumes ops (root_reader ops eof 256 (enc_tokens (root_tokens nd))) (root_tokens nd) r')"
    using consumes_ex[of "root_reader ops eof 256 (enc_tokens (root_tokens nd))" "root_tokens nd" "[]" ops]
    by auto
qed simp

text \<open>Two different trees never have the same archive, so the hash of an archive is the hash of
  its tree.\<close>

theorem nar_archive_unambiguous:
  "inj_on (\<lambda>nd. enc_tokens (root_tokens nd)) {nd. wf_node nd \<and> dir_depth nd \<le> 256}"
  by (rule nar.print_inj_on)

end
