(* ===== verification/Eval_Request.thy ===== *)
theory Eval_Request
  imports Niphas_Error
begin

text \<open>
  Requests and answers of the evaluation service and the validation of requests
  (src/crates/niphas-core/src/eval.rs), which keeps text that could leave a Nix string or an
  attribute path out of the expression that the service evaluates.
\<close>

section \<open>Definitions\<close>

record eval_request =
  flake_ref :: string
  attribute :: string
  revision :: "string option"
  binary_cache :: "string option"

record eval_response =
  resp_store_path :: string
  resp_name :: string
  main_program :: "string option"
  closure_paths :: "string list"

definition resolved_command :: "eval_response \<Rightarrow> string" where
  "resolved_command r =
     (case main_program r of
        Some prog \<Rightarrow> resp_store_path r @ ''/bin/'' @ prog
      | None \<Rightarrow> resp_store_path r @ ''/bin/'' @ resp_name r)"

definition scheme_char :: "rchar \<Rightarrow> bool" where
  "scheme_char c \<longleftrightarrow> is_ascii_alphanumeric c \<or> c = ''+'' \<or> c = ''-'' \<or> c = ''.''"

definition path_char :: "rchar \<Rightarrow> bool" where
  "path_char c \<longleftrightarrow> is_ascii_alphanumeric c \<or> c = ''/'' \<or> c = ''_'' \<or> c = ''-'' \<or> c = ''.'' \<or> c = ''@'' \<or>
     c = '':'' \<or> c = ''#'' \<or> c = ''+'' \<or> c = ''?'' \<or> c = ''='' \<or> c = ''&'' \<or> c = ''~''"

definition validate_flake_ref :: "string \<Rightarrow> unit result" where
  "validate_flake_ref fr =
     (if fr = [] then Err (InvalidInput ''flake_ref must not be empty'')
      else case split_once '':'' fr of
        None \<Rightarrow> Err (InvalidInput (''flake_ref missing scheme: '' @ quoted fr))
      | Some (scheme, path) \<Rightarrow>
          if chars scheme = [] \<or> \<not> is_ascii_alphabetic (hd (chars scheme))
          then Err (InvalidInput (''flake_ref scheme must start with a letter: '' @ quoted scheme))
          else case find (\<lambda>c. \<not> scheme_char c) (tl (chars scheme)) of
            Some c \<Rightarrow> Err (InvalidInput (''flake_ref scheme contains invalid character '' @ quoted c @
                         '': '' @ quoted scheme))
          | None \<Rightarrow>
              if path = [] then Err (InvalidInput (''flake_ref path must not be empty: '' @ quoted fr))
              else case find (\<lambda>c. \<not> path_char c) (chars path) of
                Some c \<Rightarrow> Err (InvalidInput (''flake_ref contains unsafe character '' @ quoted c @
                             '': '' @ quoted fr))
              | None \<Rightarrow> Ok ())"

definition segment_start :: "rchar \<Rightarrow> bool" where
  "segment_start c \<longleftrightarrow> is_ascii_alphabetic c \<or> c = ''_''"

definition segment_char :: "rchar \<Rightarrow> bool" where
  "segment_char c \<longleftrightarrow> is_ascii_alphanumeric c \<or> c = ''_'' \<or> c = ''-''"

fun validate_segments :: "string \<Rightarrow> string list \<Rightarrow> unit result" where
  "validate_segments att [] = Ok ()"
| "validate_segments att (segment # segments) =
     (if segment = [] then Err (InvalidInput (''attribute contains empty segment: '' @ quoted att))
      else case chars segment of
        [] \<Rightarrow> Panic
      | c # rest \<Rightarrow>
          if \<not> segment_start c
          then Err (InvalidInput (''attribute segment must start with letter or '' @ quoted ''_'' @
                 '', got '' @ quoted c @ '': '' @ quoted att))
          else case find (\<lambda>c. \<not> segment_char c) rest of
            Some d \<Rightarrow> Err (InvalidInput (''attribute contains invalid character '' @ quoted d @
                         '': '' @ quoted att))
          | None \<Rightarrow> validate_segments att segments)"

definition validate_attribute :: "string \<Rightarrow> unit result" where
  "validate_attribute att =
     (if att = [] then Err (InvalidInput ''attribute must not be empty'')
      else validate_segments att (split_char (CHR ''.'') att))"

definition validate_revision :: "string \<Rightarrow> unit result" where
  "validate_revision sha =
     (if length sha < 6 \<or> 40 < length sha
      then Err (InvalidInput (''revision must be 6-40 hex characters, got '' @ nat_display (length sha) @
             '' characters: '' @ quoted sha))
      else case find (\<lambda>c. \<not> is_ascii_hexdigit c) (chars sha) of
        Some c \<Rightarrow> Err (InvalidInput (''revision contains non-hex character '' @ quoted c @ '': '' @ quoted sha))
      | None \<Rightarrow> Ok ())"

definition validate_eval_request :: "eval_request \<Rightarrow> unit result" where
  "validate_eval_request req =
     obind (validate_flake_ref (flake_ref req)) (\<lambda>_.
     obind (validate_attribute (attribute req)) (\<lambda>_.
     case revision req of Some sha \<Rightarrow> validate_revision sha | None \<Rightarrow> Ok ()))"

section \<open>The grammar\<close>

text \<open>The classes of the doc comments, on bytes.\<close>

definition letter :: "char \<Rightarrow> bool" where
  "letter c \<longleftrightarrow> (let n = of_char c :: nat in 65 \<le> n \<and> n \<le> 90 \<or> 97 \<le> n \<and> n \<le> 122)"

definition digit :: "char \<Rightarrow> bool" where
  "digit c \<longleftrightarrow> (let n = of_char c :: nat in 48 \<le> n \<and> n \<le> 57)"

definition flake_ref_grammar :: "string \<Rightarrow> bool" where
  "flake_ref_grammar fr \<longleftrightarrow>
     (\<exists>c cs p. fr = (c # cs) @ '':'' @ p \<and> letter c \<and>
        list_all (\<lambda>x. letter x \<or> digit x \<or> x \<in> set ''+-.'') cs \<and> p \<noteq> [] \<and>
        list_all (\<lambda>x. letter x \<or> digit x \<or> x \<in> set ''/_-.@:#+?=&~'') p)"

definition attribute_segment :: "string \<Rightarrow> bool" where
  "attribute_segment s \<longleftrightarrow>
     (\<exists>c cs. s = c # cs \<and> (letter c \<or> c = CHR ''_'') \<and>
        list_all (\<lambda>x. letter x \<or> digit x \<or> x \<in> set ''_-'') cs)"

definition attribute_grammar :: "string \<Rightarrow> bool" where
  "attribute_grammar att \<longleftrightarrow> (\<exists>segments. segments \<noteq> [] \<and> list_all attribute_segment segments \<and> att = join ''.'' segments)"

definition hex_digit :: "char \<Rightarrow> bool" where
  "hex_digit c \<longleftrightarrow> (let n = of_char c :: nat in digit c \<or> 65 \<le> n \<and> n \<le> 70 \<or> 97 \<le> n \<and> n \<le> 102)"

definition revision_grammar :: "string \<Rightarrow> bool" where
  "revision_grammar sha \<longleftrightarrow> 6 \<le> length sha \<and> length sha \<le> 40 \<and> list_all hex_digit sha"

section \<open>Lemmas\<close>

text \<open>A class of ASCII characters can be tested byte by byte.\<close>

lemma ascii_class:
  assumes ascii: "\<And>ch. P ch \<Longrightarrow> code_point ch < 128"
  shows "list_all P (chars s) \<longleftrightarrow> list_all (\<lambda>c. P [c]) s"
proof
  assume P: "list_all P (chars s)"
  then have single: "\<exists>c. ch = [c] \<and> P [c]" if "ch \<in> set (chars s)" for ch
    using ascii[of ch] code_point_small[of ch] that by (auto simp: list_all_iff)
  show "list_all (\<lambda>c. P [c]) s"
    unfolding list_all_iff
  proof
    fix c assume "c \<in> set s"
    then obtain ch where "ch \<in> set (chars s)" "c \<in> set ch" by (metis UN_E concat_chars set_concat)
    then show "P [c]" using single[of ch] by auto
  qed
next
  assume P: "list_all (\<lambda>c. P [c]) s"
  then have "is_ascii s" using ascii by (fastforce simp: list_all_iff is_ascii_def)
  then show "list_all P (chars s)" using P by (auto simp: chars_ascii list_all_iff)
qed

lemma code_point_classes:
  "is_ascii_alphabetic ch \<Longrightarrow> code_point ch < 128" "is_ascii_alphanumeric ch \<Longrightarrow> code_point ch < 128"
  "scheme_char ch \<Longrightarrow> code_point ch < 128" "path_char ch \<Longrightarrow> code_point ch < 128"
  "segment_start ch \<Longrightarrow> code_point ch < 128" "segment_char ch \<Longrightarrow> code_point ch < 128"
  "is_ascii_hexdigit ch \<Longrightarrow> code_point ch < 128"
  by (auto simp: is_ascii_alphanumeric_def is_ascii_alphabetic_def is_ascii_lowercase_def
      is_ascii_uppercase_def is_ascii_digit_def is_ascii_hexdigit_def in_range_def scheme_char_def
      path_char_def segment_start_def segment_char_def)

lemma byte_classes:
  "is_ascii_alphabetic [c] \<longleftrightarrow> letter c" "is_ascii_alphanumeric [c] \<longleftrightarrow> letter c \<or> digit c"
  "scheme_char [c] \<longleftrightarrow> letter c \<or> digit c \<or> c \<in> set ''+-.''"
  "path_char [c] \<longleftrightarrow> letter c \<or> digit c \<or> c \<in> set ''/_-.@:#+?=&~''"
  "segment_start [c] \<longleftrightarrow> letter c \<or> c = CHR ''_''"
  "segment_char [c] \<longleftrightarrow> letter c \<or> digit c \<or> c \<in> set ''_-''"
  "is_ascii_hexdigit [c] \<longleftrightarrow> hex_digit c"
  by (auto simp: is_ascii_alphanumeric_def is_ascii_alphabetic_def is_ascii_lowercase_def
      is_ascii_uppercase_def is_ascii_digit_def is_ascii_hexdigit_def in_range_def scheme_char_def
      path_char_def segment_start_def segment_char_def letter_def digit_def hex_digit_def Let_def)

lemma find_not_None: "find (\<lambda>c. \<not> P c) xs = None \<longleftrightarrow> list_all P xs"
  by (auto simp: find_None_iff list_all_iff)

text \<open>The first character of a string that starts with an ASCII character is one byte.\<close>

lemma chars_head:
  assumes "chars s = ch # rest" "code_point ch < 128"
  shows "\<exists>c cs. s = c # cs \<and> ch = [c] \<and> rest = chars cs"
proof (cases s)
  case Nil
  then show ?thesis using assms by simp
next
  case (Cons c cs)
  then have ch: "ch = c # takeWhile is_cont cs" "rest = chars (dropWhile is_cont cs)" using assms(1) by auto
  obtain d where "ch = [d]" using code_point_small[OF assms(2)] by blast
  then have tw: "takeWhile is_cont cs = []" using ch by simp
  then have "dropWhile is_cont cs = cs" by (metis append_Nil takeWhile_dropWhile_id)
  then show ?thesis using ch tw Cons by simp
qed

lemma chars_Cons_ascii:
  assumes "list_all P cs" "\<And>c. P c \<Longrightarrow> (of_char c :: nat) < 128"
  shows "chars (c # cs) = [c] # chars cs"
proof -
  have "takeWhile is_cont cs = []" using assms(1) by (cases cs) (auto simp: is_cont_def dest: assms(2))
  moreover from this have "dropWhile is_cont cs = cs" by (metis append_Nil takeWhile_dropWhile_id)
  ultimately show ?thesis by simp
qed

text \<open>A first character of one class and the others of another, as the two loops test it.\<close>

lemma head_tail_class:
  assumes P: "\<And>ch. P ch \<Longrightarrow> code_point ch < 128" and Q: "\<And>ch. Q ch \<Longrightarrow> code_point ch < 128"
  shows "(\<exists>ch rest. chars s = ch # rest \<and> P ch \<and> list_all Q rest) \<longleftrightarrow>
    (\<exists>c cs. s = c # cs \<and> P [c] \<and> list_all (\<lambda>x. Q [x]) cs)"
proof
  assume "\<exists>ch rest. chars s = ch # rest \<and> P ch \<and> list_all Q rest"
  then obtain ch rest where *: "chars s = ch # rest" "P ch" "list_all Q rest" by blast
  then obtain c cs where "s = c # cs" "ch = [c]" "rest = chars cs" using chars_head P by blast
  then show "\<exists>c cs. s = c # cs \<and> P [c] \<and> list_all (\<lambda>x. Q [x]) cs"
    using * ascii_class[of Q cs] Q by blast
next
  assume "\<exists>c cs. s = c # cs \<and> P [c] \<and> list_all (\<lambda>x. Q [x]) cs"
  then obtain c cs where *: "s = c # cs" "P [c]" "list_all (\<lambda>x. Q [x]) cs" by blast
  have "chars (c # cs) = [c] # chars cs"
    using *(3) Q[of "[_]"] by (intro chars_Cons_ascii[of "\<lambda>x. Q [x]"]) auto
  then show "\<exists>ch rest. chars s = ch # rest \<and> P ch \<and> list_all Q rest"
    using * ascii_class[of Q cs] Q by auto
qed

lemma scheme_class:
  "(\<exists>ch rest. chars s = ch # rest \<and> is_ascii_alphabetic ch \<and> list_all scheme_char rest) \<longleftrightarrow>
   (\<exists>c cs. s = c # cs \<and> letter c \<and> list_all (\<lambda>x. letter x \<or> digit x \<or> x \<in> set ''+-.'') cs)"
  by (rule head_tail_class[of is_ascii_alphabetic scheme_char s, unfolded byte_classes])
     (rule code_point_classes, assumption)+

lemma segment_class:
  "(\<exists>ch rest. chars s = ch # rest \<and> segment_start ch \<and> list_all segment_char rest) \<longleftrightarrow> attribute_segment s"
  unfolding attribute_segment_def
  by (rule head_tail_class[of segment_start segment_char s, unfolded byte_classes])
     (rule code_point_classes, assumption)+

lemma path_class:
  "list_all path_char (chars s) \<longleftrightarrow> list_all (\<lambda>x. letter x \<or> digit x \<or> x \<in> set ''/_-.@:#+?=&~'') s"
  by (rule ascii_class[of path_char s, unfolded byte_classes]) (rule code_point_classes)

lemma hex_class: "list_all is_ascii_hexdigit (chars s) \<longleftrightarrow> list_all hex_digit s"
  by (rule ascii_class[of is_ascii_hexdigit s, unfolded byte_classes]) (rule code_point_classes)

lemma not_letters:
  "\<not> letter (CHR '':'')" "\<not> digit (CHR '':'')" "\<not> letter (CHR ''.'')" "\<not> digit (CHR ''.'')"
  by (simp_all add: letter_def digit_def)

lemma validate_flake_ref_Ok: "validate_flake_ref fr = Ok () \<longleftrightarrow> flake_ref_grammar fr"
proof -
  have "validate_flake_ref fr = Ok () \<longleftrightarrow>
    (\<exists>scheme p. split_once '':'' fr = Some (scheme, p) \<and>
       (\<exists>ch rest. chars scheme = ch # rest \<and> is_ascii_alphabetic ch \<and> list_all scheme_char rest) \<and>
       p \<noteq> [] \<and> list_all path_char (chars p))"
    unfolding validate_flake_ref_def
    by (auto simp: find_not_None neq_Nil_conv split: if_splits option.splits prod.splits)
       (auto simp flip: find_not_None split: option.splits)
  also have "\<dots> \<longleftrightarrow> (\<exists>scheme p. fr = scheme @ CHR '':'' # p \<and> CHR '':'' \<notin> set scheme \<and>
       (\<exists>c cs. scheme = c # cs \<and> letter c \<and> list_all (\<lambda>x. letter x \<or> digit x \<or> x \<in> set ''+-.'') cs) \<and>
       p \<noteq> [] \<and> list_all (\<lambda>x. letter x \<or> digit x \<or> x \<in> set ''/_-.@:#+?=&~'') p)"
    unfolding split_once_char_iff scheme_class path_class by (simp only: conj_assoc)
  also have "\<dots> \<longleftrightarrow> flake_ref_grammar fr"
  proof -
    have "CHR '':'' \<notin> set (c # cs)" if "letter c" "list_all (\<lambda>x. letter x \<or> digit x \<or> x \<in> set ''+-.'') cs" for c cs
      using that not_letters by (auto simp: list_all_iff)
    moreover have "flake_ref_grammar fr \<longleftrightarrow> (\<exists>c cs p. fr = (c # cs) @ CHR '':'' # p \<and> letter c \<and>
        list_all (\<lambda>x. letter x \<or> digit x \<or> x \<in> set ''+-.'') cs \<and> p \<noteq> [] \<and>
        list_all (\<lambda>x. letter x \<or> digit x \<or> x \<in> set ''/_-.@:#+?=&~'') p)"
      unfolding flake_ref_grammar_def append_Cons append_Nil by (rule refl)
    ultimately show ?thesis by blast
  qed
  finally show ?thesis .
qed

lemma validate_segments_Ok: "validate_segments att segs = Ok () \<longleftrightarrow> list_all attribute_segment segs"
proof (induction segs)
  case (Cons seg segs)
  have "validate_segments att (seg # segs) = Ok () \<longleftrightarrow>
     (\<exists>ch rest. chars seg = ch # rest \<and> segment_start ch \<and> list_all segment_char rest) \<and>
     validate_segments att segs = Ok ()"
    by (auto simp: find_not_None split: list.splits option.splits)
       (auto simp flip: find_not_None)
  moreover have "(\<exists>ch rest. chars seg = ch # rest \<and> segment_start ch \<and> list_all segment_char rest) \<longleftrightarrow>
      attribute_segment seg"
    by (rule segment_class)
  ultimately show ?case by (simp only: Cons.IH list.pred_inject)
qed simp

lemma validate_attribute_Ok: "validate_attribute att = Ok () \<longleftrightarrow> attribute_grammar att"
proof -
  have dot: "CHR ''.'' \<notin> set seg" if "attribute_segment seg" for seg
    using that not_letters by (auto simp: attribute_segment_def list_all_iff)
  have "attribute_grammar att \<longleftrightarrow> list_all attribute_segment (split_char (CHR ''.'') att)"
  proof
    assume "attribute_grammar att"
    then obtain segs where "segs \<noteq> []" "list_all attribute_segment segs" "att = join ''.'' segs"
      by (auto simp: attribute_grammar_def)
    moreover from this have "split_char (CHR ''.'') att = segs"
      using dot by (auto simp: list_all_iff intro!: split_join_char)
    ultimately show "list_all attribute_segment (split_char (CHR ''.'') att)" by simp
  next
    assume "list_all attribute_segment (split_char (CHR ''.'') att)"
    moreover have "att = join ''.'' (split_char (CHR ''.'') att)" by (rule join_split_char[symmetric])
    ultimately show "attribute_grammar att"
      unfolding attribute_grammar_def by (metis split_char_def split_list_not_Nil)
  qed
  moreover have "\<not> list_all attribute_segment (split_char (CHR ''.'') [])"
    by (simp add: split_char_def attribute_segment_def)
  ultimately show ?thesis
    by (auto simp: validate_attribute_def validate_segments_Ok)
qed

lemma validate_revision_Ok: "validate_revision r = Ok () \<longleftrightarrow> revision_grammar r"
proof -
  have "validate_revision r = Ok () \<longleftrightarrow> 6 \<le> length r \<and> length r \<le> 40 \<and> list_all is_ascii_hexdigit (chars r)"
    unfolding validate_revision_def find_not_None[symmetric]
    by (auto split: option.splits)
  then show ?thesis
    by (simp add: hex_class revision_grammar_def)
qed

lemma validate_eval_request_Ok:
  "validate_eval_request req = Ok () \<longleftrightarrow>
     flake_ref_grammar (flake_ref req) \<and> attribute_grammar (attribute req) \<and>
     pred_option revision_grammar (revision req)"
  by (auto simp: validate_eval_request_def obind_eq_Ok validate_flake_ref_Ok validate_attribute_Ok
      validate_revision_Ok split: option.splits)

lemma segments_settled: "settled (validate_segments att segs)"
  by (induction segs) (auto split: list.splits option.splits)

lemma validate_settled: "settled (validate_eval_request req)"
  using segments_settled
  by (auto simp: validate_eval_request_def validate_flake_ref_def validate_attribute_def
      validate_revision_def intro!: settled_obind split: option.splits prod.splits)

section \<open>Properties\<close>

text \<open>C25. A request passes the validation exactly if its three fields are in the documented languages: the flake
  reference is a scheme of a letter followed by letters, digits, plus, minus and dots, a colon and a non-empty path
  over the safe characters; the attribute is a dot-separated list of identifiers; the revision, if
  there is one, is 6 to 40 hexadecimal digits. The validation returns on every request: the
  unreachable branch of the attribute check is not reached.\<close>

theorem validate_eval_request_exact:
  "(validate_eval_request req = Ok () \<longleftrightarrow>
      flake_ref_grammar (flake_ref req) \<and> attribute_grammar (attribute req) \<and>
      pred_option revision_grammar (revision req)) \<and>
   settled (validate_eval_request req)"
  using validate_eval_request_Ok validate_settled by blast

end
