(* ===== verification/Allowlist.thy ===== *)
theory Allowlist
  imports Niphas_Error
begin

text \<open>
  The errors of the evaluation service (src/crates/niphas-eval/src/error.rs) and its allowlist of
  flake origins (src/crates/niphas-eval/src/allowlist.rs).

  The glob matcher peeks at the first characters of pattern and input; after a star it tries the rest of
  the pattern at every byte offset of the rest of the input, and a slice at an offset inside a
  character panics. The function is total: the pattern gets shorter at every recursive call.
\<close>

section \<open>Errors of the service\<close>

datatype app_error =
    AppInvalidInput string
  | AppFlakeNotAllowed string
  | EvalFailed string
  | AppEvalTimeout
  | AppStorePathNotCached string
  | ClosureResolutionFailed string
  | Internal string

record error_response =
  error :: string
  message :: string

fun into_response :: "app_error \<Rightarrow> nat \<times> error_response" where
  "into_response (AppInvalidInput msg) = (400, \<lparr>error = ''InvalidInput'', message = msg\<rparr>)"
| "into_response (AppFlakeNotAllowed msg) = (403, \<lparr>error = ''FlakeNotAllowed'', message = msg\<rparr>)"
| "into_response (EvalFailed msg) = (422, \<lparr>error = ''EvalFailed'', message = msg\<rparr>)"
| "into_response AppEvalTimeout = (408, \<lparr>error = ''EvalTimeout'', message = ''Evaluation exceeded timeout''\<rparr>)"
| "into_response (AppStorePathNotCached msg) = (404, \<lparr>error = ''StorePathNotCached'', message = msg\<rparr>)"
| "into_response (ClosureResolutionFailed msg) = (502, \<lparr>error = ''ClosureResolutionFailed'', message = msg\<rparr>)"
| "into_response (Internal msg) = (500, \<lparr>error = ''InternalError'', message = msg\<rparr>)"

text \<open>\<open>From<NiphasError> for AppError\<close>.\<close>

fun app_error_from :: "niphas_error \<Rightarrow> app_error" where
  "app_error_from (InvalidInput msg) = AppInvalidInput msg"
| "app_error_from (FlakeNotAllowed msg) = AppFlakeNotAllowed msg"
| "app_error_from (EvalTimeout n) = AppEvalTimeout"
| "app_error_from (StorePathNotCached msg) = AppStorePathNotCached msg"
| "app_error_from (ClosureResolution msg) = ClosureResolutionFailed msg"
| "app_error_from other = Internal (niphas_error_display other)"

section \<open>The glob matcher\<close>

text \<open>\<open>peek\<close> and \<open>next\<close> on the characters of a string: the first character and the rest.\<close>

definition next_char :: "string \<Rightarrow> (rchar \<times> string) option" where
  "next_char s = (case chars s of [] \<Rightarrow> None | c # cs \<Rightarrow> Some (c, concat cs))"

lemma next_char_shorter: "next_char s = Some (c, r) \<Longrightarrow> length r < length s"
proof -
  assume "next_char s = Some (c, r)"
  then obtain cs where cs: "chars s = c # cs" "r = concat cs" by (auto simp: next_char_def split: list.splits)
  have "s = c @ r" using concat_chars[of s] cs by simp
  moreover have "c \<noteq> []" using chars_not_Nil[of c s] cs by simp
  ultimately show ?thesis by simp
qed

function (sequential) matches_glob :: "string \<Rightarrow> string \<Rightarrow> ('e, bool) outcome"
and glob_positions :: "string \<Rightarrow> string \<Rightarrow> nat list \<Rightarrow> ('e, bool) outcome" where
  "matches_glob input pat =
     (case next_char pat of
        None \<Rightarrow> Ok (input = [])
      | Some (pc, pat') \<Rightarrow>
          if pc = ''*''
          then if pat' = [] then Ok True
               else glob_positions input pat' [0..<Suc (length input)]
          else case next_char input of
                 None \<Rightarrow> Ok False
               | Some (ic, input') \<Rightarrow> if pc = ic then matches_glob input' pat' else Ok False)"
| "glob_positions input pat [] = Ok False"
| "glob_positions input pat (i # is) =
     obind (slice_from input i) (\<lambda>rest.
     obind (matches_glob rest pat) (\<lambda>b.
     if b then Ok True else glob_positions input pat is))"
  by pat_completeness auto
termination
  by (relation "measures [\<lambda>x. case x of Inl (i, p) \<Rightarrow> length p | Inr (i, p, is) \<Rightarrow> length p,
                          \<lambda>x. case x of Inl _ \<Rightarrow> 0 | Inr (i, p, is) \<Rightarrow> Suc (length is)]")
     (auto dest: next_char_shorter)

declare matches_glob.simps [simp del]

fun allowlist_loop :: "string \<Rightarrow> string list \<Rightarrow> (app_error, unit) outcome" where
  "allowlist_loop fr [] = Err (AppFlakeNotAllowed (fr @ '' not in allowlist''))"
| "allowlist_loop fr (pat # pats) =
     obind (matches_glob fr pat) (\<lambda>b. if b then Ok () else allowlist_loop fr pats)"

definition validate_flake_origin :: "string \<Rightarrow> string list \<Rightarrow> (app_error, unit) outcome" where
  "validate_flake_origin fr allowlist =
     (if allowlist = []
      then Err (AppFlakeNotAllowed (fr @ '': no flake origins are allowed (empty allowlist)''))
      else allowlist_loop fr allowlist)"

section \<open>The language of a pattern\<close>

text \<open>A star stands for any text, every other character for itself.\<close>

inductive glob :: "rchar list \<Rightarrow> string \<Rightarrow> bool" where
  glob_Nil: "glob [] []"
| glob_Char: "pc \<noteq> ''*'' \<Longrightarrow> glob pat s \<Longrightarrow> glob (pc # pat) (pc @ s)"
| glob_Star: "glob pat s \<Longrightarrow> glob (''*'' # pat) (u @ s)"

inductive_simps glob_simps: "glob [] s" "glob (pc # pat) s"

section \<open>Lemmas\<close>

lemma boundary_ascii:
  assumes "is_ascii s" "i \<le> length s"
  shows "is_char_boundary s i"
proof (cases "i < length s")
  case True
  then have "(of_char (s ! i) :: nat) < 128" using assms(1) nth_mem[OF True] unfolding is_ascii_def by blast
  then show ?thesis using True by (simp add: is_char_boundary_def is_cont_def)
qed (use assms in \<open>simp add: is_char_boundary_def\<close>)

lemma next_char_ascii: "is_ascii s \<Longrightarrow> next_char s = (case s of [] \<Rightarrow> None | c # r \<Rightarrow> Some ([c], r))"
proof (cases s)
  case (Cons c r)
  assume a: "is_ascii s"
  then have "chars s = map (\<lambda>c. [c]) s" by (rule chars_ascii)
  moreover have "concat (map (\<lambda>c. [c]) r) = r" by (induction r) simp_all
  ultimately show ?thesis using Cons by (simp add: next_char_def del: chars.simps)
qed (simp add: next_char_def)

lemma next_char_Some:
  assumes "next_char s = Some (c, r)"
  shows "chars s = c # chars r" "c \<in> set (chars s)"
proof -
  show "chars s = c # chars r"
    using assms by (cases s) (auto simp: next_char_def)
  then show "c \<in> set (chars s)" by simp
qed

lemma next_char_None: "next_char s = None \<longleftrightarrow> chars s = []"
  by (auto simp: next_char_def split: list.splits)

lemma ascii_char_prefix:
  assumes "is_ascii (pc @ t)" "pc \<in> set (chars pat)"
  shows "\<exists>c. pc = [c]"
proof (cases pc)
  case Nil
  then show ?thesis using chars_not_Nil assms(2) by blast
next
  case (Cons c cs)
  have "cs = []"
  proof (rule ccontr)
    assume "cs \<noteq> []"
    then obtain x where "x \<in> set cs" by (cases cs) auto
    then have "is_cont x" "(of_char x :: nat) < 128"
      using chars_tl_cont[OF assms(2), of x] assms(1) Cons by (auto simp: is_ascii_def)
    then show False by (simp add: is_cont_def)
  qed
  then show ?thesis using Cons by simp
qed

lemma glob_star: "glob (''*'' # pat) s \<longleftrightarrow> (\<exists>i \<le> length s. glob pat (drop i s))"
proof
  assume "glob (''*'' # pat) s"
  then obtain u t where "s = u @ t" "glob pat t" by (auto simp: glob_simps)
  then show "\<exists>i \<le> length s. glob pat (drop i s)" by (intro exI[of _ "length u"]) simp
next
  assume "\<exists>i \<le> length s. glob pat (drop i s)"
  then obtain i where "glob pat (drop i s)" by blast
  then show "glob (''*'' # pat) s" using glob_Star[of pat "drop i s" "take i s"] by simp
qed

lemma glob_char: "pc \<noteq> ''*'' \<Longrightarrow> glob (pc # pat) s \<longleftrightarrow> (\<exists>t. s = pc @ t \<and> glob pat t)"
  by (auto simp: glob_simps)

text \<open>One character of the pattern that is not a star, against ASCII text.\<close>

lemma glob_literal:
  assumes "is_ascii input" and pc: "next_char pat = Some (pc, pat')" "pc \<noteq> ''*''"
  shows "input = [] \<Longrightarrow> \<not> glob (chars pat) input"
    and "input = c # r \<Longrightarrow> glob (chars pat) input \<longleftrightarrow> pc = [c] \<and> glob (chars pat') r"
proof -
  note ch = next_char_Some[OF pc(1)]
  show "input = [] \<Longrightarrow> \<not> glob (chars pat) input"
    using ch pc(2) chars_not_Nil[OF ch(2)] by (simp add: glob_char)
  assume i: "input = c # r"
  have "\<exists>d. pc = [d]" if "input = pc @ t" for t
    using that assms(1) by (intro ascii_char_prefix[OF _ ch(2), of t]) simp
  then have "input = pc @ t \<longleftrightarrow> pc = [c] \<and> t = r" for t
    using i by fastforce
  then show "glob (chars pat) input \<longleftrightarrow> pc = [c] \<and> glob (chars pat') r"
    using pc(2) by (auto simp: ch(1) glob_char)
qed

text \<open>The positions that are tried for a star are all of them.\<close>

lemma glob_star_positions:
  assumes "next_char pat = Some (''*'', pat')"
  shows "(\<exists>i \<in> set [0..<Suc (length input)]. glob (chars pat') (drop i input)) = glob (chars pat) input"
  using next_char_Some(1)[OF assms] by (auto simp: glob_star less_Suc_eq_le simp del: upt_Suc)

lemma matches_glob_Ok:
  "is_ascii input \<Longrightarrow> matches_glob input pat = (Ok (glob (chars pat) input) :: ('e, bool) outcome)"
  "is_ascii input \<Longrightarrow> \<forall>i \<in> set is. i \<le> length input \<Longrightarrow>
     glob_positions input pat is = (Ok (\<exists>i \<in> set is. glob (chars pat) (drop i input)) :: ('e, bool) outcome)"
proof (induction input pat and input pat "is" rule: matches_glob_glob_positions.induct)
  case (1 input pat)
  consider (over) "next_char pat = None" | (star) pat' where "next_char pat = Some (''*'', pat')"
    | (literal) pc pat' where "next_char pat = Some (pc, pat')" "pc \<noteq> ''*''"
    by (cases "next_char pat") auto
  then show ?case
  proof cases
    case over
    then have "chars pat = []" by (simp only: next_char_None)
    then show ?thesis using over by (simp only: matches_glob.simps[of input] glob_simps) simp
  next
    case star
    show ?thesis
    proof (cases "pat' = []")
      case True
      then show ?thesis using star next_char_Some(1)[OF star]
        by (auto simp: matches_glob.simps[of input] glob_star glob_simps)
    next
      case False
      then have "(matches_glob input pat :: ('e, bool) outcome) = glob_positions input pat' [0..<Suc (length input)]"
        using star by (simp add: matches_glob.simps[of input] del: upt_Suc)
      also have "\<dots> = Ok (\<exists>i \<in> set [0..<Suc (length input)]. glob (chars pat') (drop i input))"
        by (rule "1.IH"(1)[OF star refl refl False "1.prems"]) auto
      finally show ?thesis unfolding glob_star_positions[OF star] .
    qed
  next
    case literal
    note lit = glob_literal[OF "1.prems" literal]
    show ?thesis
    proof (cases input)
      case Nil
      then show ?thesis using literal lit(1) by (simp add: matches_glob.simps[of "[]"] next_char_def[of "[]"])
    next
      case (Cons c r)
      have nc: "next_char input = Some ([c], r)" using next_char_ascii[OF "1.prems"] Cons by simp
      have "pc = [c] \<Longrightarrow> matches_glob r pat' = (Ok (glob (chars pat') r) :: ('e, bool) outcome)"
        using "1.IH"(2)[OF literal(1) refl literal(2) nc refl] "1.prems" Cons by simp
      then show ?thesis using literal nc lit(2)[OF Cons] by (simp add: matches_glob.simps[of input])
    qed
  qed
next
  case (3 input pat i "is")
  have "slice_from input i = (Ok (drop i input) :: ('e, string) outcome)"
    using 3 by (simp add: slice_from_def boundary_ascii)
  moreover have "is_ascii (drop i input)" using 3 by (auto simp: is_ascii_def dest: in_set_dropD)
  ultimately show ?case using 3 by auto
qed simp

lemma allowlist_loop_ascii:
  "is_ascii fr \<Longrightarrow> allowlist_loop fr pats =
     (if \<exists>pat \<in> set pats. glob (chars pat) fr then Ok () else Err (AppFlakeNotAllowed (fr @ '' not in allowlist'')))"
  by (induction pats) (auto simp: matches_glob_Ok)

section \<open>Properties\<close>

text \<open>C26. On ASCII references the recursive matcher decides the language of the pattern, in which a star
  stands for any text, slashes included, and every other character for itself; it does not panic.\<close>

theorem matches_glob_exact:
  assumes "is_ascii input"
  shows "matches_glob input pat = Ok (glob (chars pat) input)"
  using assms by (rule matches_glob_Ok)

theorem matches_glob_exact_witness:
  "matches_glob ''github:myorg/a/b'' ''github:myorg/*'' = Ok (glob (chars ''github:myorg/*'') ''github:myorg/a/b'')"
  using matches_glob_exact[of "''github:myorg/a/b''" "''github:myorg/*''"] by simp

text \<open>The allowlist lets a reference through exactly if one of its patterns matches; the empty
  list denies every reference.\<close>

lemma allowlist_exact:
  assumes "is_ascii fr"
  shows "validate_flake_origin fr allowlist =
    (if allowlist = [] then Err (AppFlakeNotAllowed (fr @ '': no flake origins are allowed (empty allowlist)''))
     else if \<exists>pat \<in> set allowlist. glob (chars pat) fr then Ok ()
     else Err (AppFlakeNotAllowed (fr @ '' not in allowlist'')))"
  using allowlist_loop_ascii[OF assms] by (simp add: validate_flake_origin_def)

text \<open>A star matches a slash, although the comment on the function says that it does not: the
  pattern for the repositories of one organisation also admits deeper references.\<close>

theorem star_matches_slash:
  "matches_glob ''github:myorg/a/b'' ''github:myorg/*'' = Ok True \<and>
   validate_flake_origin ''github:myorg/a/b'' [''github:myorg/*''] = Ok ()"
proof -
  have "chars ''github:myorg/*'' = map (\<lambda>c. [c]) ''github:myorg/*''" by (rule chars_ascii) simp
  then have "glob (chars ''github:myorg/*'') ''github:myorg/a/b''"
    by (auto simp: glob_simps simp del: chars.simps)
  then show ?thesis
    using matches_glob_Ok(1)[of "''github:myorg/a/b''" "''github:myorg/*''"]
      allowlist_loop_ascii[of "''github:myorg/a/b''" "[''github:myorg/*'']"]
    by (simp add: validate_flake_origin_def del: chars.simps)
qed

end
