(* ===== verification/Store_Path.thy ===== *)
theory Store_Path
  imports Nix_Hash
begin

text \<open>
  Store paths (src/crates/niphas-core/src/nix/store_path.rs): \<open>StorePath\<close> with its two
  parsers and its printers, and \<open>StorePathRef\<close>. The array type \<open>[u8; 20]\<close> is a byte list
  with the well-formedness predicate \<open>store_path_ok\<close>. The lemmas: the parser and the
  printer are inverse to each other on the whole of both domains, the error branch for a
  wrong hash length is unreachable, and the exact inputs on which the slice of the first
  32 bytes panics.
\<close>

section \<open>Definitions\<close>

definition STORE_DIR :: string where
  "STORE_DIR = ''/nix/store''"

definition HASH_LEN :: nat where
  "HASH_LEN = 32"

record store_path =
  hash :: bytes
  name :: string

definition parse_basename :: "string \<Rightarrow> store_path result" where
  "parse_basename basename =
     (if length basename < HASH_LEN + 2
      then Err (InvalidStorePath (''store path basename too short: '' @ quoted basename))
      else obind (slice_to basename HASH_LEN) (\<lambda>hash_str.
      obind (index_checked (as_bytes basename) HASH_LEN) (\<lambda>sep.
      if sep \<noteq> of_char (CHR ''-'')
      then Err (InvalidStorePath
             (''expected '' @ quoted ''-'' @ '' after hash in store path: '' @ quoted basename))
      else obind (slice_from basename (HASH_LEN + 1)) (\<lambda>nm.
      if nm = [] then Err (InvalidStorePath ''store path name is empty'')
      else obind (from_nix_base32 hash_str) (\<lambda>hash_bytes.
      if length hash_bytes \<noteq> 20
      then Err (InvalidStorePath (''hash decode produced '' @ nat_display (length hash_str)
             @ '' bytes, expected 20''))
      else Ok \<lparr>hash = hash_bytes, name = nm\<rparr>)))))"

definition store_path_parse :: "string \<Rightarrow> store_path result" where
  "store_path_parse s =
     obind (ok_or (InvalidStorePath (''missing /nix/store/ prefix: '' @ quoted s))
              (Option.bind (strip_prefix STORE_DIR s) (strip_prefix ''/'')))
       parse_basename"

definition hash_str :: "store_path \<Rightarrow> string" where
  "hash_str sp = to_nix_base32 (hash sp)"

definition basename :: "store_path \<Rightarrow> string" where
  "basename sp = hash_str sp @ ''-'' @ name sp"

definition store_path_display :: "store_path \<Rightarrow> string" where
  "store_path_display sp = STORE_DIR @ ''/'' @ hash_str sp @ ''-'' @ name sp"

datatype store_path_ref = StorePathRef (as_str: string)

definition store_path_ref_parse :: "string \<Rightarrow> store_path_ref result" where
  "store_path_ref_parse s = obind (parse_basename s) (\<lambda>_. Ok (StorePathRef s))"

definition to_store_path_string :: "store_path_ref \<Rightarrow> string" where
  "to_store_path_string r = STORE_DIR @ ''/'' @ as_str r"

definition store_path_ref_display :: "store_path_ref \<Rightarrow> string" where
  "store_path_ref_display r = as_str r"

text \<open>What the type \<open>[u8; 20]\<close> and the parser's check of the name guarantee.\<close>

definition store_path_ok :: "store_path \<Rightarrow> bool" where
  "store_path_ok sp \<longleftrightarrow> length (hash sp) = 20 \<and> name sp \<noteq> [] \<and> \<not> is_cont (hd (name sp))"

section \<open>Lemmas\<close>

lemma slice_to_eq_Ok: "slice_to s n = Ok t \<longleftrightarrow> is_char_boundary s n \<and> t = take n s"
  by (auto simp: slice_to_def)

lemma slice_from_eq_Ok: "slice_from s n = Ok t \<longleftrightarrow> is_char_boundary s n \<and> t = drop n s"
  by (auto simp: slice_from_def)

lemma nth_as_bytes: "i < length s \<Longrightarrow> as_bytes s ! i = of_char (s ! i)"
  by (simp add: as_bytes_def)

lemma of_char_u8_inject [simp]: "(of_char c :: u8) = of_char d \<longleftrightarrow> c = d"
  by (metis unat_of_char_u8 of_char_eq_iff)

lemma from_nix_base32_32: "length h = 32 \<Longrightarrow> from_nix_base32 h \<noteq> Panic"
  using from_nix_base32_Ok [of h] from_nix_base32_Err [of h] by fastforce

lemma boundary_nth: "n < length s \<Longrightarrow> 0 < n \<Longrightarrow> is_char_boundary s n \<longleftrightarrow> \<not> is_cont (s ! n)"
  by (simp add: is_char_boundary_def)

lemma not_cont_dash: "\<not> is_cont (CHR ''-'')"
  by (simp add: is_cont_def)

text \<open>The parser unfolded once: on a text of at least 34 bytes every branch is decided by the
  byte at 32, the byte at 33 and the decoder.\<close>

lemma parse_basename_long:
  assumes "34 \<le> length b"
  shows "parse_basename b =
    (if is_cont (b ! 32) then Panic
     else if b ! 32 \<noteq> CHR ''-''
       then Err (InvalidStorePath
              (''expected '' @ quoted ''-'' @ '' after hash in store path: '' @ quoted b))
     else if is_cont (b ! 33) then Panic
     else obind (from_nix_base32 (take 32 b)) (\<lambda>h. Ok \<lparr>hash = h, name = drop 33 b\<rparr>))"
proof -
  have len: "length h = 20" if "from_nix_base32 (take 32 b) = Ok h" for h
    using from_nix_base32_OkD [OF that] assms by simp
  have "(of_char (b ! 32) :: u8) = of_char (CHR ''-'') \<longleftrightarrow> b ! 32 = CHR ''-''"
    by (rule of_char_u8_inject)
  with assms len show ?thesis
    by (cases "from_nix_base32 (take 32 b)")
      (auto simp: parse_basename_def HASH_LEN_def slice_to_def slice_from_def boundary_nth nth_as_bytes)
qed

lemma parse_basename_short:
  "length b < 34 \<Longrightarrow>
     parse_basename b = Err (InvalidStorePath (''store path basename too short: '' @ quoted b))"
  by (simp add: parse_basename_def HASH_LEN_def)

lemma parse_basename_eq_Ok:
  "parse_basename b = Ok sp \<longleftrightarrow>
     34 \<le> length b \<and> b ! 32 = CHR ''-'' \<and> \<not> is_cont (b ! 33) \<and>
     from_nix_base32 (take 32 b) = Ok (hash sp) \<and> name sp = drop 33 b"
proof (cases "34 \<le> length b")
  case True
  then show ?thesis
    by (cases sp) (auto simp: parse_basename_long not_cont_dash outcome_simps split: if_splits)
next
  case False
  then show ?thesis by (simp add: parse_basename_short)
qed

lemma hash_text_canonical:
  assumes "from_nix_base32 h = Ok bs" and "length h = 32"
  shows "to_nix_base32 bs = h"
proof -
  have "hd h \<in> alphabet32" using from_nix_base32_OkD [OF assms(1)] assms(2) by (cases h) auto
  then have "digit_of (hd h) < 32" using digit_of_alphabet by blast
  then have "drop_bit 5 (digit_of (hd h)) = 0"
    using small_digit_bits [of "digit_of (hd h)"] by (auto simp: bit_eq_iff bit_drop_bit_eq)
  with to_from_nix_base32 [OF assms(1)] assms(2) show ?thesis by simp
qed

lemma parse_basename_iff: "parse_basename b = Ok sp \<longleftrightarrow> store_path_ok sp \<and> b = basename sp"
proof
  assume "parse_basename b = Ok sp"
  then have b: "34 \<le> length b" "b ! 32 = CHR ''-''" "\<not> is_cont (b ! 33)"
    "from_nix_base32 (take 32 b) = Ok (hash sp)" "name sp = drop 33 b"
    by (simp_all add: parse_basename_eq_Ok)
  have "length (hash sp) = 20" using from_nix_base32_OkD [OF b(4)] b(1) by simp
  moreover have "to_nix_base32 (hash sp) = take 32 b" using hash_text_canonical [OF b(4)] b(1) by simp
  moreover have "take 32 b @ b ! 32 # drop 33 b = b" using b(1) id_take_nth_drop [of 32 b] by simp
  ultimately show "store_path_ok sp \<and> b = basename sp"
    using b by (auto simp: store_path_ok_def basename_def hash_str_def hd_drop_conv_nth)
next
  assume a: "store_path_ok sp \<and> b = basename sp"
  then have len: "length (to_nix_base32 (hash sp)) = 32"
    by (simp add: store_path_ok_def encoded_len_def)
  with a show "parse_basename b = Ok sp"
    by (auto simp: parse_basename_eq_Ok store_path_ok_def basename_def hash_str_def nth_append
        from_to_nix_base32 hd_conv_nth Suc_le_eq)
qed

lemma store_path_parse_eq:
  "store_path_parse s = Ok sp \<longleftrightarrow> (\<exists>b. s = ''/nix/store/'' @ b \<and> parse_basename b = Ok sp)"
  by (auto simp: store_path_parse_def STORE_DIR_def outcome_simps str_simps bind_eq_Some_conv)

lemma store_path_parse_iff:
  "store_path_parse s = Ok sp \<longleftrightarrow> store_path_ok sp \<and> s = store_path_display sp"
  by (auto simp: store_path_parse_eq parse_basename_iff store_path_display_def basename_def STORE_DIR_def)

lemma from_nix_base32_no_diverge: "from_nix_base32 s \<noteq> Diverge"
proof -
  have "from_nix_base32_loop len i chs out \<noteq> Diverge" for len i chs out
    by (induction len i chs out rule: from_nix_base32_loop.induct) (auto simp: Let_def)
  then show ?thesis by (simp add: from_nix_base32_def Let_def)
qed

lemma store_path_parse_no_diverge: "store_path_parse s \<noteq> Diverge"
  using from_nix_base32_no_diverge
  by (auto simp: store_path_parse_def parse_basename_def outcome_simps slice_to_def slice_from_def
      index_checked_def split: if_splits)

interpretation base: canonical_codec basename parse_basename store_path_ok
  by unfold_locales (auto simp: parse_basename_iff)

interpretation path: canonical_codec store_path_display store_path_parse store_path_ok
  by unfold_locales (auto simp: store_path_parse_iff)

text \<open>A reference is a basename the parser accepts; its store path is the path of that basename.\<close>

lemma store_path_ref_parse_iff:
  "store_path_ref_parse s = Ok r \<longleftrightarrow> r = StorePathRef s \<and> (\<exists>sp. store_path_ok sp \<and> s = basename sp)"
  by (auto simp: store_path_ref_parse_def outcome_simps parse_basename_iff)

lemma display_of_basename: "store_path_display sp = STORE_DIR @ ''/'' @ basename sp"
  by (simp add: store_path_display_def basename_def)

lemma store_path_ref_parsed:
  assumes "store_path_ref_parse s = Ok r"
  shows "\<exists>sp. store_path_ok sp \<and> to_store_path_string r = store_path_display sp \<and>
    store_path_parse (to_store_path_string r) = Ok sp"
  using assms by (auto simp: store_path_ref_parse_iff to_store_path_string_def display_of_basename
      store_path_parse_iff)

lemma store_path_display_inject:
  "store_path_ok a \<Longrightarrow> store_path_ok b \<Longrightarrow> store_path_display a = store_path_display b \<longleftrightarrow> a = b"
  using path.print_inj_on by (auto simp: inj_on_def)

section \<open>Properties\<close>

text \<open>C12. The store path parser accepts exactly the printed forms of well-formed store paths, and
  parsing and printing are inverse to each other: no text is normalised, none has two readings.\<close>

theorem store_path_parse_exact:
  "store_path_parse s = Ok sp \<longleftrightarrow>
     length (hash sp) = 20 \<and> name sp \<noteq> [] \<and> \<not> is_cont (hd (name sp)) \<and> s = store_path_display sp"
  using path.parse_eq_Ok_iff [of s sp] by (auto simp: store_path_ok_def)

text \<open>The inputs on which \<open>parse_basename\<close> panics: at least 34 bytes with byte 32 inside a
  multi-byte character, so that the slice of the hash cuts it. (The second disjunct, a
  character that starts with a continuation byte after the dash, is no valid UTF-8.)\<close>

theorem parse_basename_panic_iff:
  "parse_basename b = Panic \<longleftrightarrow>
     34 \<le> length b \<and> (is_cont (b ! 32) \<or> b ! 32 = CHR ''-'' \<and> is_cont (b ! 33))"
proof (cases "34 \<le> length b")
  case True
  then have "from_nix_base32 (take 32 b) \<noteq> Panic" by (intro from_nix_base32_32) simp
  with True show ?thesis by (auto simp: parse_basename_long not_cont_dash outcome_simps split: if_splits)
next
  case False
  then show ?thesis by (simp add: parse_basename_short)
qed

text \<open>Every reference that parses names a well-formed store path: turning it into a full path
  and parsing that path succeeds and prints the same text.\<close>

theorem store_path_ref_full_path:
  assumes "store_path_ref_parse s = Ok r"
  shows "\<exists>sp. store_path_parse (to_store_path_string r) = Ok sp \<and> basename sp = s \<and>
    store_path_display sp = to_store_path_string r"
  using assms
  by (auto simp: store_path_ref_parse_iff to_store_path_string_def display_of_basename store_path_parse_iff)

text \<open>The store path of the test fixtures, \<open>00bgd045z0d4icpbc2yyz4gx48ak44la-net-tools-2.10\<close>,
  is a printed form: its first 32 characters are in the alphabet.\<close>

definition sample_basename :: string where
  "sample_basename = ''00bgd045z0d4icpbc2yyz4gx48ak44la-net-tools-2.10''"

lemma alphabet_basename_parses:
  assumes "set h \<subseteq> alphabet32" and "length h = 32" and "n \<noteq> []" and "\<not> is_cont (hd n)"
  shows "\<exists>bs. parse_basename (h @ ''-'' @ n) = Ok \<lparr>hash = bs, name = n\<rparr>"
proof -
  obtain bs where "from_nix_base32 h = Ok bs" using from_nix_base32_Ok [OF assms(1)] assms(2) by auto
  with assms show ?thesis
    by (auto simp: parse_basename_eq_Ok nth_append hd_conv_nth Suc_le_eq)
qed

lemma sample_basename_parses: "\<exists>bs. parse_basename sample_basename = Ok \<lparr>hash = bs, name = ''net-tools-2.10''\<rparr>"
  using alphabet_basename_parses [of "''00bgd045z0d4icpbc2yyz4gx48ak44la''" "''net-tools-2.10''"]
  by (simp add: sample_basename_def NIX_BASE32_CHARS_def is_cont_def)

theorem store_path_ref_witness:
  "\<exists>sp. store_path_parse (''/nix/store/'' @ sample_basename) = Ok sp \<and> basename sp = sample_basename"
proof -
  have "store_path_ref_parse sample_basename = Ok (StorePathRef sample_basename)"
    using sample_basename_parses by (auto simp: store_path_ref_parse_def)
  from store_path_ref_full_path [OF this] show ?thesis
    by (auto simp: to_store_path_string_def STORE_DIR_def)
qed



end
