(* ===== verification/Signature.thy ===== *)
theory Signature
  imports Niphas_Error
begin

text \<open>
  Signatures of \<open>.narinfo\<close> files and trusted keys
  (src/crates/niphas-core/src/nix/signature.rs).

  Base64 (crate base64) and Ed25519 (crate ed25519-dalek) are the record \<open>crypto\<close>:
  the decoder, the check of the 32 bytes of a public key, and the verification of a message.
  The errors of those crates are their \<open>Display\<close> texts. \<open>Signature::from_bytes\<close>
  accepts every array of 64 bytes, so a signature is its bytes.
\<close>

section \<open>Definitions\<close>

record 'k crypto =
  base64_decode :: "string \<Rightarrow> (string, bytes) outcome"
  verifying_key_from_bytes :: "bytes \<Rightarrow> (string, 'k) outcome"
  ed25519_verify :: "'k \<Rightarrow> bytes \<Rightarrow> bytes \<Rightarrow> bool"

record nar_signature =
  key_name :: string
  signature :: bytes

definition nar_signature_parse :: "'k crypto \<Rightarrow> string \<Rightarrow> nar_signature result" where
  "nar_signature_parse cr s =
     obind (ok_or (NarInfoParse (''signature missing '' @ quoted '':'' @ '' separator: '' @ quoted s))
              (split_once '':'' s)) (\<lambda>(key, sig_b64).
     obind (omap_err (\<lambda>e. NarInfoParse (''invalid base64 in signature: '' @ e))
              (base64_decode cr sig_b64)) (\<lambda>sig_bytes.
     if length sig_bytes \<noteq> 64 then Err (NarInfoParse ''signature must be 64 bytes'')
     else Ok \<lparr>key_name = key, signature = sig_bytes\<rparr>))"

record 'k trusted_key =
  trusted_name :: string
  pubkey :: 'k

definition trusted_key_parse :: "'k crypto \<Rightarrow> string \<Rightarrow> 'k trusted_key result" where
  "trusted_key_parse cr s =
     obind (ok_or (SignatureVerification (''key missing '' @ quoted '':'' @ '' separator: '' @ quoted s))
              (split_once '':'' s)) (\<lambda>(nm, key_b64).
     obind (omap_err (\<lambda>e. SignatureVerification (''invalid base64 in public key: '' @ e))
              (base64_decode cr key_b64)) (\<lambda>key_bytes.
     if length key_bytes \<noteq> 32 then Err (SignatureVerification ''public key must be 32 bytes'')
     else obind (omap_err (\<lambda>e. SignatureVerification (''invalid Ed25519 public key: '' @ e))
                   (verifying_key_from_bytes cr key_bytes)) (\<lambda>k.
     Ok \<lparr>trusted_name = nm, pubkey = k\<rparr>)))"

text \<open>The two nested loops, the inner one over the keys.\<close>

fun verify_keys :: "'k crypto \<Rightarrow> bytes \<Rightarrow> nar_signature \<Rightarrow> 'k trusted_key list \<Rightarrow> bool" where
  "verify_keys cr fingerprint_bytes sig [] = False"
| "verify_keys cr fingerprint_bytes sig (key # keys) =
     (if key_name sig = trusted_name key \<and>
         ed25519_verify cr (pubkey key) fingerprint_bytes (signature sig)
      then True else verify_keys cr fingerprint_bytes sig keys)"

fun verify_narinfo ::
  "'k crypto \<Rightarrow> string \<Rightarrow> nar_signature list \<Rightarrow> 'k trusted_key list \<Rightarrow> unit result" where
  "verify_narinfo cr fp [] keys =
     Err (SignatureVerification ''no valid signature found matching any trusted key'')"
| "verify_narinfo cr fp (sig # sigs) keys =
     (if verify_keys cr (as_bytes fp) sig keys then Ok () else verify_narinfo cr fp sigs keys)"

section \<open>Lemmas\<close>

lemma verify_keys_iff:
  "verify_keys cr m sig keys \<longleftrightarrow>
     (\<exists>key \<in> set keys. key_name sig = trusted_name key \<and> ed25519_verify cr (pubkey key) m (signature sig))"
  by (induction keys) auto

lemma verify_narinfo_Ok:
  "verify_narinfo cr fp sigs keys = Ok () \<longleftrightarrow> (\<exists>sig \<in> set sigs. verify_keys cr (as_bytes fp) sig keys)"
  by (induction sigs) auto

lemma verify_narinfo_else:
  "verify_narinfo cr fp sigs keys \<noteq> Ok () \<Longrightarrow> verify_narinfo cr fp sigs keys =
     Err (SignatureVerification ''no valid signature found matching any trusted key'')"
  by (induction sigs) auto

section \<open>Properties\<close>

text \<open>C22. A narinfo passes the signature check exactly if one of its signatures verifies under a trusted
  key of the same name, in whatever order the signatures and keys are listed; otherwise the check
  fails with the error that no signature matched.\<close>

theorem verify_narinfo_exact:
  "verify_narinfo cr fp sigs keys =
     (if \<exists>sig \<in> set sigs. \<exists>key \<in> set keys. key_name sig = trusted_name key \<and>
           ed25519_verify cr (pubkey key) (as_bytes fp) (signature sig)
      then Ok ()
      else Err (SignatureVerification ''no valid signature found matching any trusted key''))"
  using verify_narinfo_Ok[of cr fp sigs keys] verify_narinfo_else[of cr fp sigs keys]
  by (auto simp: verify_keys_iff)

text \<open>The parser of a \<open>Sig\<close> field accepts exactly the texts of a key name without a colon, a
  colon, and the base64 of 64 bytes, and returns that name and those bytes.\<close>

theorem nar_signature_parse_exact:
  "nar_signature_parse cr s = Ok sig \<longleftrightarrow>
     (\<exists>b64. s = key_name sig @ '':'' @ b64 \<and> CHR '':'' \<notin> set (key_name sig) \<and>
        base64_decode cr b64 = Ok (signature sig) \<and> length (signature sig) = 64)"
  by (cases sig) (auto simp: nar_signature_parse_def outcome_simps split_once_char_iff split: if_splits)

text \<open>A trusted key is accepted exactly if it is a name without a colon, a colon, and the
  base64 of 32 bytes that are an Ed25519 public key.\<close>

theorem trusted_key_parse_exact:
  "trusted_key_parse cr s = Ok key \<longleftrightarrow>
     (\<exists>b64 bs. s = trusted_name key @ '':'' @ b64 \<and> CHR '':'' \<notin> set (trusted_name key) \<and>
        base64_decode cr b64 = Ok bs \<and> length bs = 32 \<and>
        verifying_key_from_bytes cr bs = Ok (pubkey key))"
  by (cases key) (auto simp: trusted_key_parse_def outcome_simps split_once_char_iff split: if_splits)

end
