(* ===== verification/Nar_Info.thy ===== *)
theory Nar_Info
  imports Store_Path Signature "HOL-Library.Multiset"
begin

text \<open>
  \<open>.narinfo\<close> files (src/crates/niphas-core/src/nix/narinfo.rs): the parser, which goes
  over the lines and keeps the last value of each field, and the fingerprint that signatures
  cover. \<open>render_narinfo\<close> writes the format the binary caches serve, with a \<open>References\<close> line
  in every file; the lemmas compare the parser with it.
\<close>

section \<open>Definitions\<close>

datatype compression = CompressionNone | Xz | Bzip2 | Zstd | Br | Lzip | Lz4

definition compression_parse :: "string \<Rightarrow> compression result" where
  "compression_parse s =
     (if s = ''none'' then Ok CompressionNone
      else if s = ''xz'' then Ok Xz
      else if s = ''bzip2'' then Ok Bzip2
      else if s = ''zstd'' then Ok Zstd
      else if s = ''br'' then Ok Br
      else if s = ''lzip'' then Ok Lzip
      else if s = ''lz4'' then Ok Lz4
      else Err (NarInfoParse (''unknown compression: '' @ quoted s)))"

fun compression_display :: "compression \<Rightarrow> string" where
  "compression_display CompressionNone = ''none''"
| "compression_display Xz = ''xz''"
| "compression_display Bzip2 = ''bzip2''"
| "compression_display Zstd = ''zstd''"
| "compression_display Br = ''br''"
| "compression_display Lzip = ''lzip''"
| "compression_display Lz4 = ''lz4''"

record nar_info =
  ni_store_path :: store_path
  url :: string
  compression :: compression
  file_hash :: nix_hash
  file_size :: u64
  nar_hash :: nix_hash
  nar_size :: u64
  references :: "store_path_ref list"
  deriver :: "string option"
  signatures :: "nar_signature list"
  ca :: "string option"

text \<open>The local variables of the loop.\<close>

record nar_info_fields =
  f_store_path :: "store_path option"
  f_url :: "string option"
  f_compression :: "compression option"
  f_file_hash :: "nix_hash option"
  f_file_size :: "u64 option"
  f_nar_hash :: "nix_hash option"
  f_nar_size :: "u64 option"
  f_references :: "store_path_ref list"
  f_deriver :: "string option"
  f_signatures :: "nar_signature list"
  f_ca :: "string option"

definition no_fields :: nar_info_fields where
  "no_fields = \<lparr>f_store_path = None, f_url = None, f_compression = None, f_file_hash = None,
     f_file_size = None, f_nar_hash = None, f_nar_size = None, f_references = [],
     f_deriver = None, f_signatures = [], f_ca = None\<rparr>"

definition parse_size :: "string \<Rightarrow> string \<Rightarrow> u64 result" where
  "parse_size field v =
     omap_err (\<lambda>e. NarInfoParse (''invalid '' @ field @ '': '' @ int_error_display e)) (parse_u64 v)"

definition nar_info_field ::
  "'k crypto \<Rightarrow> nar_info_fields \<Rightarrow> string \<Rightarrow> string \<Rightarrow> nar_info_fields result" where
  "nar_info_field cr st key v =
     (if key = ''StorePath'' then obind (store_path_parse v) (\<lambda>x. Ok (st\<lparr>f_store_path := Some x\<rparr>))
      else if key = ''URL'' then Ok (st\<lparr>f_url := Some v\<rparr>)
      else if key = ''Compression'' then obind (compression_parse v) (\<lambda>x. Ok (st\<lparr>f_compression := Some x\<rparr>))
      else if key = ''FileHash'' then obind (nix_hash_parse v) (\<lambda>x. Ok (st\<lparr>f_file_hash := Some x\<rparr>))
      else if key = ''FileSize'' then obind (parse_size ''FileSize'' v) (\<lambda>x. Ok (st\<lparr>f_file_size := Some x\<rparr>))
      else if key = ''NarHash'' then obind (nix_hash_parse v) (\<lambda>x. Ok (st\<lparr>f_nar_hash := Some x\<rparr>))
      else if key = ''NarSize'' then obind (parse_size ''NarSize'' v) (\<lambda>x. Ok (st\<lparr>f_nar_size := Some x\<rparr>))
      else if key = ''References'' then
        (if v \<noteq> [] then obind (omap store_path_ref_parse (split_whitespace v))
                          (\<lambda>x. Ok (st\<lparr>f_references := x\<rparr>))
         else Ok st)
      else if key = ''Deriver'' then Ok (st\<lparr>f_deriver := Some v\<rparr>)
      else if key = ''Sig'' then
        obind (nar_signature_parse cr v) (\<lambda>x. Ok (st\<lparr>f_signatures := f_signatures st @ [x]\<rparr>))
      else if key = ''CA'' then Ok (st\<lparr>f_ca := Some v\<rparr>)
      else Ok st)"

definition nar_info_line :: "'k crypto \<Rightarrow> nar_info_fields \<Rightarrow> string \<Rightarrow> nar_info_fields result" where
  "nar_info_line cr st raw =
     (let line = trim raw in
      if line = [] then Ok st
      else obind (ok_or (NarInfoParse (''malformed line: '' @ quoted line)) (split_once '': '' line))
             (\<lambda>(key, v). nar_info_field cr st key v))"

definition nar_info_finish :: "nar_info_fields \<Rightarrow> nar_info result" where
  "nar_info_finish st =
     obind (ok_or (NarInfoParse ''missing StorePath'') (f_store_path st)) (\<lambda>sp.
     obind (ok_or (NarInfoParse ''missing URL'') (f_url st)) (\<lambda>u.
     obind (ok_or (NarInfoParse ''missing Compression'') (f_compression st)) (\<lambda>c.
     obind (ok_or (NarInfoParse ''missing FileHash'') (f_file_hash st)) (\<lambda>fh.
     obind (ok_or (NarInfoParse ''missing FileSize'') (f_file_size st)) (\<lambda>fs.
     obind (ok_or (NarInfoParse ''missing NarHash'') (f_nar_hash st)) (\<lambda>nh.
     obind (ok_or (NarInfoParse ''missing NarSize'') (f_nar_size st)) (\<lambda>ns.
     Ok \<lparr>ni_store_path = sp, url = u, compression = c, file_hash = fh, file_size = fs,
         nar_hash = nh, nar_size = ns, references = f_references st, deriver = f_deriver st,
         signatures = f_signatures st, ca = f_ca st\<rparr>)))))))"

definition nar_info_parse :: "'k crypto \<Rightarrow> string \<Rightarrow> nar_info result" where
  "nar_info_parse cr input = obind (ofold (nar_info_line cr) (lines input) no_fields) nar_info_finish"

definition fingerprint :: "nar_info \<Rightarrow> string" where
  "fingerprint n =
     ''1;'' @ store_path_display (ni_store_path n) @ '';'' @ nix_hash_display (nar_hash n) @ '';'' @
     u64_display (nar_size n) @ '';'' @ join '','' (sort (map to_store_path_string (references n)))"

section \<open>The format\<close>

definition render_signature :: "(bytes \<Rightarrow> string) \<Rightarrow> nar_signature \<Rightarrow> string" where
  "render_signature base64_encode sig = key_name sig @ '':'' @ base64_encode (signature sig)"

definition field_line :: "string \<Rightarrow> string \<Rightarrow> string" where
  "field_line key v = key @ '': '' @ v"

definition nar_info_lines :: "(bytes \<Rightarrow> string) \<Rightarrow> nar_info \<Rightarrow> string list" where
  "nar_info_lines base64_encode n =
     [field_line ''StorePath'' (store_path_display (ni_store_path n)),
      field_line ''URL'' (url n),
      field_line ''Compression'' (compression_display (compression n)),
      field_line ''FileHash'' (nix_hash_display (file_hash n)),
      field_line ''FileSize'' (u64_display (file_size n)),
      field_line ''NarHash'' (nix_hash_display (nar_hash n)),
      field_line ''NarSize'' (u64_display (nar_size n)),
      field_line ''References'' (join '' '' (map store_path_ref_display (references n)))] @
     (case deriver n of None \<Rightarrow> [] | Some d \<Rightarrow> [field_line ''Deriver'' d]) @
     map (\<lambda>s. field_line ''Sig'' (render_signature base64_encode s)) (signatures n) @
     (case ca n of None \<Rightarrow> [] | Some c \<Rightarrow> [field_line ''CA'' c])"

definition render_narinfo :: "(bytes \<Rightarrow> string) \<Rightarrow> nar_info \<Rightarrow> string" where
  "render_narinfo base64_encode n = unlines (nar_info_lines base64_encode n)"

text \<open>What the parser guarantees of its result.\<close>

definition nar_info_ok :: "nar_info \<Rightarrow> bool" where
  "nar_info_ok n \<longleftrightarrow>
     store_path_ok (ni_store_path n) \<and> nix_hash_ok (file_hash n) \<and> nix_hash_ok (nar_hash n) \<and>
     list_all (\<lambda>r. \<exists>sp. store_path_ok sp \<and> as_str r = basename sp) (references n) \<and>
     list_all (\<lambda>s. length (signature s) = 64 \<and> CHR '':'' \<notin> set (key_name s)) (signatures n)"

text \<open>Fields of printable ASCII, as the caches produce them.\<close>

definition nar_info_plain :: "nar_info \<Rightarrow> bool" where
  "nar_info_plain n \<longleftrightarrow>
     graphic (name (ni_store_path n)) \<and> graphic (url n) \<and> list_all (\<lambda>r. graphic (as_str r)) (references n) \<and>
     pred_option graphic (deriver n) \<and> pred_option graphic (ca n) \<and>
     list_all (\<lambda>s. graphic (key_name s)) (signatures n)"

definition base64_inverse :: "'k crypto \<Rightarrow> (bytes \<Rightarrow> string) \<Rightarrow> bool" where
  "base64_inverse cr base64_encode \<longleftrightarrow>
     (\<forall>bs. base64_decode cr (base64_encode bs) = Ok bs \<and> (bs \<noteq> [] \<longrightarrow> graphic (base64_encode bs)))"

section \<open>Lemmas\<close>

interpretation compression: canonical_codec compression_display compression_parse "\<lambda>_. True"
proof
  show "compression_parse (compression_display x) = Ok x" for x
    by (cases x) (simp_all add: compression_parse_def)
  show "compression_parse s = Ok x \<Longrightarrow> compression_display x = s" for s x
    by (auto simp: compression_parse_def split: if_splits)
qed simp

subsection \<open>The invariant of the parser\<close>

definition fields_ok :: "nar_info_fields \<Rightarrow> bool" where
  "fields_ok st \<longleftrightarrow>
     pred_option store_path_ok (f_store_path st) \<and> pred_option nix_hash_ok (f_file_hash st) \<and>
     pred_option nix_hash_ok (f_nar_hash st) \<and>
     list_all (\<lambda>r. \<exists>sp. store_path_ok sp \<and> as_str r = basename sp) (f_references st) \<and>
     list_all (\<lambda>s. length (signature s) = 64 \<and> CHR '':'' \<notin> set (key_name s)) (f_signatures st)"

lemma references_parsed:
  "omap store_path_ref_parse ws = Ok rs \<Longrightarrow> list_all (\<lambda>r. \<exists>sp. store_path_ok sp \<and> as_str r = basename sp) rs"
  unfolding omap_Ok_iff
  by (induction rule: list_all2_induct)
     (auto simp: store_path_ref_parse_def obind_eq_Ok parse_basename_iff)

lemma signature_parsed:
  "nar_signature_parse cr v = Ok s \<Longrightarrow> length (signature s) = 64 \<and> CHR '':'' \<notin> set (key_name s)"
  by (auto simp: nar_signature_parse_def outcome_simps split_once_char_iff split: if_splits)

lemma nar_info_field_ok:
  assumes "nar_info_field cr st key v = Ok st'" and "fields_ok st"
  shows "fields_ok st'"
  using assms path.parse_valid[of v] nix_hash.parse_valid[of v] signature_parsed[of cr v]
    references_parsed[of "split_whitespace v"]
  unfolding nar_info_field_def fields_ok_def
  by (auto simp: obind_eq_Ok split: if_splits)

lemma nar_info_line_ok: "nar_info_line cr st l = Ok st' \<Longrightarrow> fields_ok st \<Longrightarrow> fields_ok st'"
  using nar_info_field_ok
  by (auto simp: nar_info_line_def Let_def outcome_simps split: if_splits)

lemma nar_info_parse_ok: "nar_info_parse cr s = Ok n \<Longrightarrow> nar_info_ok n"
proof -
  assume "nar_info_parse cr s = Ok n"
  then obtain st where st: "ofold (nar_info_line cr) (lines s) no_fields = Ok st" "nar_info_finish st = Ok n"
    by (auto simp: nar_info_parse_def obind_eq_Ok)
  have "fields_ok no_fields" by (simp add: fields_ok_def no_fields_def)
  then have "fields_ok st" using ofold_inv[OF st(1), of fields_ok] nar_info_line_ok by blast
  then show "nar_info_ok n"
    using st(2) by (auto simp: nar_info_finish_def outcome_simps nar_info_ok_def fields_ok_def)
qed

subsection \<open>Lines of the format\<close>

lemma nar_info_line_field:
  assumes "graphic key" "CHR '':'' \<notin> set key" "is_ascii v" "v \<noteq> []" "\<not> is_whitespace [last v]"
  shows "nar_info_line cr st (field_line key v) = nar_info_field cr st key v"
proof -
  have "trim (field_line key v) = field_line key v"
    unfolding field_line_def
    using assms graphic_not_whitespace[of key "hd key"]
    by (intro trim_ascii) (auto simp: graphic_ascii, auto simp: graphic_def)
  moreover have "split_once '': '' (field_line key v) = Some (key, v)"
    unfolding field_line_def using assms(2) by (rule split_once_colon_space)
  moreover have "field_line key v \<noteq> []" by (simp add: field_line_def)
  ultimately show ?thesis by (simp add: nar_info_line_def Let_def)
qed

lemma nar_info_line_graphic:
  "graphic key \<Longrightarrow> CHR '':'' \<notin> set key \<Longrightarrow> graphic v \<Longrightarrow>
     nar_info_line cr st (field_line key v) = nar_info_field cr st key v"
  using graphic_not_whitespace[of v "last v"]
  by (intro nar_info_line_field) (auto simp: graphic_ascii, auto simp: graphic_def)

lemma graphic_keys [simp]:
  "graphic ''StorePath''" "graphic ''URL''" "graphic ''Compression''" "graphic ''FileHash''"
  "graphic ''FileSize''" "graphic ''NarHash''" "graphic ''NarSize''" "graphic ''References''"
  "graphic ''Deriver''" "graphic ''Sig''" "graphic ''CA''" "graphic '':''" "graphic ''-''" "graphic ''/nix/store/''"
  by (simp_all add: graphic_def)

lemma base32_printable [simp]:
  "list_all (\<lambda>c. 33 \<le> (of_char c :: nat) \<and> (of_char c :: nat) \<le> 126) (to_nix_base32 bs)"
proof -
  have "\<forall>c \<in> alphabet32. 33 \<le> (of_char c :: nat) \<and> (of_char c :: nat) \<le> 126"
    by (simp add: NIX_BASE32_CHARS_def)
  then show ?thesis using set_to_nix_base32[of bs] by (auto simp: list_all_iff)
qed

lemma graphic_hash [simp]: "graphic (nix_hash_display h)"
  by (cases "algo h") (simp_all add: nix_hash_display_def graphic_def)

lemma graphic_compression [simp]: "graphic (compression_display c)"
  by (cases c) (simp_all add: graphic_def)

lemma graphic_store_path: "graphic (name sp) \<Longrightarrow> graphic (store_path_display sp)"
  by (simp add: store_path_display_def hash_str_def STORE_DIR_def graphic_def)

lemma join_graphic:
  "xs \<noteq> [] \<Longrightarrow> \<forall>x \<in> set xs. graphic x \<Longrightarrow>
     join '' '' xs \<noteq> [] \<and> is_ascii (join '' '' xs) \<and> \<not> is_whitespace [last (join '' '' xs)]"
proof (induction "'' ''" xs rule: join.induct)
  case (2 x)
  then show ?case
    using graphic_not_whitespace[of x "last x"] by (auto simp: graphic_ascii, auto simp: graphic_def)
next
  case (3 x y ys)
  then show ?case by (auto simp: graphic_ascii)
qed simp

lemma join_ref_displays:
  assumes "nar_info_plain n" "references n \<noteq> []"
  shows "nar_info_line cr st (field_line ''References'' (join '' '' (map store_path_ref_display (references n)))) =
    nar_info_field cr st ''References'' (join '' '' (map store_path_ref_display (references n)))"
  using assms join_graphic[of "map store_path_ref_display (references n)"]
  by (intro nar_info_line_field)
     (auto simp: nar_info_plain_def list_all_iff store_path_ref_display_def)

lemma references_field:
  assumes "nar_info_plain n" "nar_info_ok n" "references n \<noteq> []"
  shows "nar_info_field cr st ''References'' (join '' '' (map store_path_ref_display (references n))) =
    Ok (st\<lparr>f_references := references n\<rparr>)"
proof -
  let ?ws = "map store_path_ref_display (references n)"
  have g: "\<forall>x \<in> set ?ws. graphic x"
    using assms(1) by (auto simp: nar_info_plain_def list_all_iff store_path_ref_display_def)
  have "omap store_path_ref_parse ?ws = Ok (references n)"
    unfolding omap_map
    using assms(2) omap_all_Ok[of "references n" "\<lambda>r. store_path_ref_parse (store_path_ref_display r)" "\<lambda>r. r"]
    by (auto simp: nar_info_ok_def list_all_iff store_path_ref_parse_def store_path_ref_display_def
        obind_eq_Ok parse_basename_iff store_path_ref.expand)
  then show ?thesis
    using join_graphic[of ?ws] g assms(3) split_whitespace_join[OF g]
    by (simp add: nar_info_field_def)
qed

lemma graphic_render_signature:
  assumes "base64_inverse cr enc" "length (signature s) = 64" "graphic (key_name s)"
  shows "graphic (render_signature enc s)"
proof -
  have "signature s \<noteq> []" using assms(2) by auto
  then have "graphic (enc (signature s))" using assms(1) by (simp add: base64_inverse_def)
  then show ?thesis using assms(3) by (simp add: render_signature_def graphic_def)
qed

lemma signature_line:
  assumes "base64_inverse cr enc" "length (signature s) = 64" "CHR '':'' \<notin> set (key_name s)" "graphic (key_name s)"
  shows "nar_info_line cr st (field_line ''Sig'' (render_signature enc s)) =
    Ok (st\<lparr>f_signatures := f_signatures st @ [s]\<rparr>)"
proof -
  have g: "graphic (render_signature enc s)" using assms by (simp add: graphic_render_signature)
  have "nar_signature_parse cr (render_signature enc s) = Ok s"
    using assms split_once_char_found[OF assms(3)]
    by (cases s) (auto simp: nar_signature_parse_def render_signature_def base64_inverse_def)
  then show ?thesis
    by (simp add: nar_info_line_graphic[OF _ _ g] nar_info_field_def)
qed

lemma signature_lines:
  assumes "base64_inverse cr enc"
    and "list_all (\<lambda>s. length (signature s) = 64 \<and> CHR '':'' \<notin> set (key_name s)) sigs"
    and "list_all (\<lambda>s. graphic (key_name s)) sigs"
  shows "ofold (nar_info_line cr) (map (\<lambda>s. field_line ''Sig'' (render_signature enc s)) sigs) st =
    Ok (st\<lparr>f_signatures := f_signatures st @ sigs\<rparr>)"
  using assms(2,3) by (induction sigs arbitrary: st) (simp_all add: signature_line[OF assms(1)])

definition line_safe :: "string \<Rightarrow> bool" where
  "line_safe l \<longleftrightarrow> CHR 0x0A \<notin> set l \<and> (l = [] \<or> last l \<noteq> CHR 0x0D)"

lemma join_set: "set (join sep xs) \<subseteq> set sep \<union> \<Union> (set (map set xs))"
  by (induction sep xs rule: join.induct) auto

lemma line_safe_field:
  assumes "graphic key" "\<forall>c \<in> set v. graphic [c] \<or> c = CHR '' ''"
  shows "line_safe (field_line key v)"
proof -
  have "CHR 0x0A \<notin> set key" "CHR 0x0A \<notin> set v" "CHR 0x0D \<notin> set v"
    using assms by (auto simp: graphic_def list_all_iff)
  moreover from this have "v \<noteq> [] \<Longrightarrow> last v \<noteq> CHR 0x0D" using last_in_set[of v] by metis
  ultimately show ?thesis by (auto simp: line_safe_def field_line_def)
qed

lemma graphic_chars: "graphic v \<Longrightarrow> \<forall>c \<in> set v. graphic [c] \<or> c = CHR '' ''"
  by (auto simp: graphic_def list_all_iff)

lemma line_safe_graphic: "graphic key \<Longrightarrow> graphic v \<Longrightarrow> line_safe (field_line key v)"
  by (intro line_safe_field graphic_chars)

lemma lines_render:
  assumes "base64_inverse cr enc" "nar_info_plain n" "nar_info_ok n"
  shows "lines (render_narinfo enc n) = nar_info_lines enc n"
proof -
  have "\<forall>c \<in> set (join '' '' (map store_path_ref_display (references n))). graphic [c] \<or> c = CHR '' ''"
    using assms(2) join_set[of "'' ''" "map store_path_ref_display (references n)"]
    by (fastforce simp: nar_info_plain_def list_all_iff store_path_ref_display_def dest!: graphic_chars)
  then have refs: "line_safe (field_line ''References'' (join '' '' (map store_path_ref_display (references n))))"
    by (intro line_safe_field) simp_all
  have sig: "graphic (render_signature enc s)" if "s \<in> set (signatures n)" for s
    using that assms by (auto simp: nar_info_ok_def nar_info_plain_def list_all_iff
        intro!: graphic_render_signature)
  have "list_all line_safe (nar_info_lines enc n)"
    using assms(2) refs sig
    by (cases "deriver n"; cases "ca n")
       (auto simp: nar_info_lines_def list_all_iff nar_info_plain_def graphic_store_path line_safe_graphic)
  then show ?thesis
    unfolding render_narinfo_def by (intro lines_unlines) (auto simp: list_all_iff line_safe_def)
qed

lemma nar_info_render_parse:
  assumes b64: "base64_inverse cr enc" and plain: "nar_info_plain n" and ok: "nar_info_ok n"
    and refs: "references n \<noteq> []"
  shows "nar_info_parse cr (render_narinfo enc n) = Ok n"
proof -
  have sigs: "list_all (\<lambda>s. length (signature s) = 64 \<and> CHR '':'' \<notin> set (key_name s)) (signatures n)"
     "list_all (\<lambda>s. graphic (key_name s)) (signatures n)"
    using plain ok by (simp_all add: nar_info_plain_def nar_info_ok_def)
  have facts: "graphic (store_path_display (ni_store_path n))" "graphic (url n)"
      "store_path_parse (store_path_display (ni_store_path n)) = Ok (ni_store_path n)"
      "nix_hash_parse (nix_hash_display (file_hash n)) = Ok (file_hash n)"
      "nix_hash_parse (nix_hash_display (nar_hash n)) = Ok (nar_hash n)"
      "pred_option graphic (deriver n)" "pred_option graphic (ca n)"
    using plain ok by (simp_all add: nar_info_plain_def nar_info_ok_def graphic_store_path
        path.parse_print nix_hash.parse_print)
  note line = nar_info_line_graphic[unfolded nar_info_field_def]
  have "ofold (nar_info_line cr) (nar_info_lines enc n) no_fields =
    Ok \<lparr>f_store_path = Some (ni_store_path n), f_url = Some (url n), f_compression = Some (compression n),
        f_file_hash = Some (file_hash n), f_file_size = Some (file_size n), f_nar_hash = Some (nar_hash n),
        f_nar_size = Some (nar_size n), f_references = references n, f_deriver = deriver n,
        f_signatures = signatures n, f_ca = ca n\<rparr>"
    using facts
    by (cases "deriver n"; cases "ca n")
       (simp_all add: nar_info_lines_def line join_ref_displays[OF plain refs] references_field[OF plain ok refs]
         compression.parse_print parse_size_def parse_u64_display ofold_append
         signature_lines[OF b64 sigs] no_fields_def)
  then show ?thesis
    by (simp add: nar_info_parse_def lines_render[OF assms(1-3)] nar_info_finish_def)
qed

lemma nar_info_empty_references:
  "nar_info_line cr st (field_line ''References'' []) = Err (NarInfoParse (''malformed line: '' @ quoted ''References:''))"
proof -
  have "trim (field_line ''References'' []) = ''References:''"
    by (simp add: trim_def field_line_def chars_ascii is_whitespace_def in_range_def is_ascii_simps del: chars.simps)
  moreover have "split_once '': '' ''References:'' = None" by (simp add: strip_prefix_def)
  ultimately show ?thesis by (simp add: nar_info_line_def del: split_once.simps)
qed

lemma nar_info_no_references:
  assumes b64: "base64_inverse cr enc" and plain: "nar_info_plain n" and ok: "nar_info_ok n"
    and refs: "references n = []"
  shows "nar_info_parse cr (render_narinfo enc n) =
    Err (NarInfoParse (''malformed line: '' @ quoted ''References:''))"
proof -
  have facts: "graphic (store_path_display (ni_store_path n))" "graphic (url n)"
      "store_path_parse (store_path_display (ni_store_path n)) = Ok (ni_store_path n)"
      "nix_hash_parse (nix_hash_display (file_hash n)) = Ok (file_hash n)"
      "nix_hash_parse (nix_hash_display (nar_hash n)) = Ok (nar_hash n)"
    using plain ok by (simp_all add: nar_info_plain_def nar_info_ok_def graphic_store_path
        path.parse_print nix_hash.parse_print)
  note line = nar_info_line_graphic[unfolded nar_info_field_def]
  show ?thesis
    using facts refs
    by (simp add: nar_info_parse_def lines_render[OF b64 plain ok] nar_info_lines_def line
        compression.parse_print parse_size_def parse_u64_display nar_info_empty_references)
qed

subsection \<open>The fingerprint\<close>

text \<open>Names without the separators of the fingerprint.\<close>

definition fingerprint_safe :: "nar_info \<Rightarrow> bool" where
  "fingerprint_safe n \<longleftrightarrow> store_path_ok (ni_store_path n) \<and> nix_hash_ok (nar_hash n) \<and>
     CHR '';'' \<notin> set (name (ni_store_path n)) \<and> list_all (\<lambda>r. CHR '','' \<notin> set (as_str r)) (references n)"

lemma sep_inject:
  "(c :: char) \<notin> set a \<Longrightarrow> c \<notin> set a' \<Longrightarrow> a @ c # b = a' @ c # b' \<longleftrightarrow> a = a' \<and> b = b'"
proof -
  assume "c \<notin> set a" "c \<notin> set a'"
  then have "split_once [c] (a @ c # b) = Some (a, b)" "split_once [c] (a' @ c # b') = Some (a', b')"
    by (simp_all add: split_once_char_found del: split_once.simps)
  then show ?thesis by (metis option.inject prod.inject)
qed

lemma base32_no_sep: "c \<notin> alphabet32 \<Longrightarrow> c \<notin> set (to_nix_base32 bs)"
  using set_to_nix_base32 by blast

lemma no_semicolon:
  "CHR '';'' \<notin> set (name sp) \<Longrightarrow> CHR '';'' \<notin> set (store_path_display sp)"
  "CHR '';'' \<notin> set (nix_hash_display h)" "CHR '';'' \<notin> set (u64_display w)"
proof -
  have "CHR '';'' \<notin> set (to_nix_base32 bs)" for bs
    by (rule base32_no_sep) (simp add: NIX_BASE32_CHARS_def)
  then show "CHR '';'' \<notin> set (name sp) \<Longrightarrow> CHR '';'' \<notin> set (store_path_display sp)"
      "CHR '';'' \<notin> set (nix_hash_display h)"
    by (cases "algo h"; simp add: store_path_display_def STORE_DIR_def hash_str_def nix_hash_display_def)+
  show "CHR '';'' \<notin> set (u64_display w)"
    using nat_display_digits[of "CHR '';''" "unat w"] by (auto simp: u64_display_def)
qed

lemma join_comma_inject:
  assumes "\<forall>x \<in> set xs. c \<notin> set x \<and> x \<noteq> []" "\<forall>x \<in> set ys. c \<notin> set x \<and> x \<noteq> []"
  shows "join [c] xs = join [c] ys \<longleftrightarrow> xs = ys"
proof -
  have "join [c] zs = [] \<longleftrightarrow> zs = []" if "\<forall>x \<in> set zs. c \<notin> set x \<and> x \<noteq> []" for zs
    using that by (cases "([c], zs)" rule: join.cases) auto
  then show ?thesis using assms split_join_char[of xs c] split_join_char[of ys c] by metis
qed

lemma sorted_refs_inject:
  "sort (map to_store_path_string rs) = sort (map to_store_path_string qs) \<longleftrightarrow> mset rs = mset qs"
proof -
  have "inj to_store_path_string"
    by (auto simp: inj_def to_store_path_string_def store_path_ref.expand)
  then have "mset (map to_store_path_string rs) = mset (map to_store_path_string qs) \<longleftrightarrow> mset rs = mset qs"
    using multiset.inj_map[of to_store_path_string] by (simp add: inj_eq)
  moreover have "sort (map to_store_path_string rs) = sort (map to_store_path_string qs) \<longleftrightarrow>
      mset (map to_store_path_string rs) = mset (map to_store_path_string qs)"
    using properties_for_sort[of "sort (map to_store_path_string qs)" "map to_store_path_string rs"]
    by (metis mset_sort sorted_sort)
  ultimately show ?thesis by simp
qed

lemma ref_strings: "list_all (\<lambda>r. CHR '','' \<notin> set (as_str r)) rs \<Longrightarrow>
  \<forall>x \<in> set (sort (map to_store_path_string rs)). CHR '','' \<notin> set x \<and> x \<noteq> []"
  by (auto simp: list_all_iff to_store_path_string_def STORE_DIR_def)

lemma fingerprint_inject:
  assumes "fingerprint_safe n" "fingerprint_safe m"
  shows "fingerprint n = fingerprint m \<longleftrightarrow>
    ni_store_path n = ni_store_path m \<and> nar_hash n = nar_hash m \<and> nar_size n = nar_size m \<and>
    mset (references n) = mset (references m)"
proof -
  have "fingerprint n = fingerprint m \<longleftrightarrow>
    store_path_display (ni_store_path n) = store_path_display (ni_store_path m) \<and>
    nix_hash_display (nar_hash n) = nix_hash_display (nar_hash m) \<and> nar_size n = nar_size m \<and>
    sort (map to_store_path_string (references n)) = sort (map to_store_path_string (references m))"
    using assms no_semicolon(1)[of "ni_store_path n"] no_semicolon(1)[of "ni_store_path m"]
    by (simp add: fingerprint_def fingerprint_safe_def sep_inject no_semicolon
        join_comma_inject[OF ref_strings ref_strings])
  moreover have "nix_hash_display (nar_hash n) = nix_hash_display (nar_hash m) \<longleftrightarrow> nar_hash n = nar_hash m"
    using assms nix_hash.print_inj_on by (auto simp: fingerprint_safe_def inj_on_def)
  moreover have "store_path_display (ni_store_path n) = store_path_display (ni_store_path m) \<longleftrightarrow>
      ni_store_path n = ni_store_path m"
    using assms path.print_inj_on by (auto simp: fingerprint_safe_def inj_on_def)
  ultimately show ?thesis by (simp add: sorted_refs_inject)
qed

section \<open>Sample values\<close>

definition sample_store_path :: store_path where
  "sample_store_path = \<lparr>hash = replicate 20 0, name = ''hello-2.12.1''\<rparr>"

definition sample_narinfo :: nar_info where
  "sample_narinfo =
     \<lparr>ni_store_path = sample_store_path, url = ''nar/hello.nar.xz'', compression = Xz,
      file_hash = \<lparr>algo = Sha256, digest = replicate 32 0\<rparr>, file_size = 1000,
      nar_hash = \<lparr>algo = Sha256, digest = replicate 32 1\<rparr>, nar_size = 2000,
      references = [StorePathRef (basename sample_store_path)], deriver = None,
      signatures = [\<lparr>key_name = ''cache-1'', signature = replicate 64 7\<rparr>], ca = None\<rparr>"

text \<open>A base64 codec that prints a byte as two letters.\<close>

definition hex_encode :: "bytes \<Rightarrow> string" where
  "hex_encode bs = concat (map (\<lambda>b. [char_of (65 + unat b div 16), char_of (65 + unat b mod 16)]) bs)"

fun hex_decode :: "string \<Rightarrow> (string, bytes) outcome" where
  "hex_decode [] = Ok []"
| "hex_decode [c] = Err ''odd length''"
| "hex_decode (c # d # s) =
     obind (hex_decode s) (\<lambda>bs. Ok (of_nat ((of_char c - 65) * 16 + (of_char d - 65)) # bs))"

definition hex_crypto :: "unit crypto" where
  "hex_crypto = \<lparr>base64_decode = hex_decode, verifying_key_from_bytes = (\<lambda>_. Ok ()),
     ed25519_verify = (\<lambda>_ _ _. True)\<rparr>"

lemma hex_inverse: "base64_inverse hex_crypto hex_encode"
proof -
  have small: "unat b div 16 < 16" for b :: u8
    using unat_u8_less[of b] by (simp add: less_mult_imp_div_less)
  have byte: "of_nat ((of_char (char_of (65 + unat b div 16) :: char) - 65) * 16 +
      (of_char (char_of (65 + unat b mod 16) :: char) - 65)) = b" for b :: u8
  proof -
    have "(65 + unat b div 16) mod 256 = 65 + unat b div 16" "(65 + unat b mod 16) mod 256 = 65 + unat b mod 16"
      using small[of b] by simp_all
    then show ?thesis by (simp only: of_char_of diff_add_inverse div_mult_mod_eq) simp
  qed
  have "hex_decode (hex_encode bs) = Ok bs" for bs
    by (induction bs) (simp_all only: hex_encode_def list.map concat.simps append_Cons append_Nil
        hex_decode.simps obind.simps byte)
  moreover have "list_all (\<lambda>c. 33 \<le> (of_char c :: nat) \<and> (of_char c :: nat) \<le> 126) (hex_encode bs)" for bs
  proof (induction bs)
    case (Cons b bs)
    have "(65 + unat b div 16) mod 256 = 65 + unat b div 16" using small[of b] by simp
    then show ?case using Cons small[of b] by (simp add: hex_encode_def)
  qed (simp add: hex_encode_def)
  moreover have "bs \<noteq> [] \<Longrightarrow> hex_encode bs \<noteq> []" for bs by (cases bs) (simp_all add: hex_encode_def)
  ultimately show ?thesis by (simp add: base64_inverse_def hex_crypto_def graphic_def)
qed

lemma sample_path_ok: "store_path_ok sample_store_path"
  by (simp add: store_path_ok_def sample_store_path_def is_cont_def)

lemma sample_ok: "nar_info_ok sample_narinfo"
  using sample_path_ok by (auto simp: nar_info_ok_def sample_narinfo_def nix_hash_ok_def)

lemma sample_basename_graphic: "graphic (basename sample_store_path)"
  by (simp add: basename_def hash_str_def graphic_def sample_store_path_def)

lemma sample_plain: "nar_info_plain sample_narinfo"
  using sample_basename_graphic
  by (simp add: nar_info_plain_def sample_narinfo_def) (simp add: graphic_def sample_store_path_def)

lemma sample_no_refs:
  "nar_info_plain (sample_narinfo\<lparr>references := []\<rparr>)" "nar_info_ok (sample_narinfo\<lparr>references := []\<rparr>)"
  using sample_plain sample_ok by (simp_all add: nar_info_plain_def nar_info_ok_def)

lemma sample_safe: "fingerprint_safe sample_narinfo"
proof -
  have "CHR '','' \<notin> set (to_nix_base32 bs)" for bs
    by (rule base32_no_sep) (simp add: NIX_BASE32_CHARS_def)
  then show ?thesis
    using sample_ok by (simp add: fingerprint_safe_def nar_info_ok_def sample_narinfo_def
        sample_store_path_def basename_def hash_str_def)
qed

section \<open>Properties\<close>

text \<open>C36. Round trip: the parser reads back every file of the format with at least one reference,
  whose fields are printable ASCII: same store path, URL, compression, hashes, sizes, references,
  deriver, signatures in their order, and content address.\<close>

theorem narinfo_roundtrip:
  assumes "base64_inverse cr enc" and "nar_info_plain n" and "nar_info_ok n" and "references n \<noteq> []"
  shows "nar_info_parse cr (render_narinfo enc n) = Ok n"
  using assms by (rule nar_info_render_parse)

theorem narinfo_roundtrip_witness:
  "nar_info_parse hex_crypto (render_narinfo hex_encode sample_narinfo) = Ok sample_narinfo"
  using narinfo_roundtrip[OF hex_inverse sample_plain sample_ok] by (simp add: sample_narinfo_def)

text \<open>C37. A file of a store path without references is refused: its line \<open>References:\<close> with an
  empty value loses the space when the line is trimmed and is then reported as malformed, so the
  branch for an empty value is never reached.\<close>

theorem narinfo_without_references_refused:
  assumes "base64_inverse cr enc" and "nar_info_plain n" and "nar_info_ok n" and "references n = []"
  shows "nar_info_parse cr (render_narinfo enc n) =
    Err (NarInfoParse (''malformed line: '' @ quoted ''References:''))"
  using assms by (rule nar_info_no_references)

theorem narinfo_without_references_witness:
  "nar_info_parse hex_crypto (render_narinfo hex_encode (sample_narinfo\<lparr>references := []\<rparr>)) =
    Err (NarInfoParse (''malformed line: '' @ quoted ''References:''))"
  using narinfo_without_references_refused[OF hex_inverse sample_no_refs] by simp

text \<open>Whatever the parser returns is well formed: a store path with a hash of 20 bytes and a
  name, digests of the length of their algorithm, references that are themselves base names of store
  paths, signatures of 64 bytes.\<close>

theorem narinfo_parse_wellformed:
  assumes "nar_info_parse cr s = Ok n"
  shows "nar_info_ok n"
  using assms by (rule nar_info_parse_ok)

theorem narinfo_parse_wellformed_witness: "nar_info_ok sample_narinfo"
  using narinfo_parse_wellformed[OF nar_info_render_parse[OF hex_inverse sample_plain sample_ok]]
  by (simp add: sample_narinfo_def)

text \<open>C23. The fingerprint covers what it should: for store paths and references whose names have
  no semicolon and no comma, two files have the same fingerprint exactly if they agree on store path, NAR
  hash, NAR size and on the references up to their order.\<close>

theorem fingerprint_exact:
  assumes "fingerprint_safe n" and "fingerprint_safe m"
  shows "fingerprint n = fingerprint m \<longleftrightarrow>
    ni_store_path n = ni_store_path m \<and> nar_hash n = nar_hash m \<and> nar_size n = nar_size m \<and>
    mset (references n) = mset (references m)"
  using assms by (rule fingerprint_inject)

theorem fingerprint_exact_witness:
  "fingerprint sample_narinfo \<noteq> fingerprint (sample_narinfo\<lparr>nar_size := 2001\<rparr>)"
  using fingerprint_exact[of sample_narinfo "sample_narinfo\<lparr>nar_size := 2001\<rparr>"] sample_safe
  by (simp add: fingerprint_safe_def sample_narinfo_def)

text \<open>Without that restriction the fingerprint is ambiguous: one reference whose name
  contains a comma and a store prefix prints like two references, and the reference parser accepts both
  readings, so a signature for one file is a signature for the other.\<close>

theorem fingerprint_ambiguous:
  "\<exists>a b c. store_path_ref_parse a = Ok (StorePathRef a) \<and> store_path_ref_parse b = Ok (StorePathRef b) \<and>
     store_path_ref_parse c = Ok (StorePathRef c) \<and> 
     fingerprint (n\<lparr>references := [StorePathRef a, StorePathRef b]\<rparr>) =
     fingerprint (n\<lparr>references := [StorePathRef c]\<rparr>)"
proof -
  let ?h = "''00bgd045z0d4icpbc2yyz4gx48ak44la''"
  have h: "set ?h \<subseteq> alphabet32" by (simp add: NIX_BASE32_CHARS_def)
  have p: "store_path_ref_parse (?h @ ''-'' @ nm) = Ok (StorePathRef (?h @ ''-'' @ nm))"
    if "nm \<noteq> []" "\<not> is_cont (hd nm)" for nm
    using alphabet_basename_parses[OF h _ that] by (auto simp: store_path_ref_parse_def)
  have "fingerprint (n\<lparr>references := [StorePathRef (?h @ ''-a''), StorePathRef (?h @ ''-b'')]\<rparr>) =
     fingerprint (n\<lparr>references := [StorePathRef (?h @ ''-a,/nix/store/'' @ ?h @ ''-b'')]\<rparr>)"
    by (simp add: fingerprint_def to_store_path_string_def STORE_DIR_def less_eq_char_def)
  then show ?thesis
    using p[of "''a''"] p[of "''b''"] p[of "''a,/nix/store/'' @ ?h @ ''-b''"]
    by (intro exI[of _ "?h @ ''-a''"] exI[of _ "?h @ ''-b''"] exI[of _ "?h @ ''-a,/nix/store/'' @ ?h @ ''-b''"])
       (simp add: is_cont_def)
qed

end
