(* ===== verification/Config.thy ===== *)
theory Config
  imports Niphas_Error
begin

text \<open>
  The configuration (src/crates/niphas-core/src/config.rs): its records with their default
  values, the order in which the sources are merged, and the parser of durations.

  Merging and extracting is the crate figment, here the argument \<open>extract\<close>, a function from the
  list of providers, later ones stronger, to the configuration or the text of an error. A duration is
  its seconds; all of them come from \<open>Duration::from_secs\<close>. The products
  \<open>m * 60\<close> and \<open>h * 3600\<close> wrap, as in the release profile.
\<close>

section \<open>Definitions\<close>

record cache_config =
  cache_url :: string
  public_key :: "string option"
  priority :: u32

record closure_resolution_config =
  concurrency :: nat
  closure_timeout :: u64

record cache_storage_config =
  cache_path :: string
  high_watermark_bytes :: u64
  low_watermark_bytes :: u64
  gc_interval :: u64

record niphas_config =
  log_level :: string
  binary_caches :: "cache_config list"
  allowed_flake_origins :: "string list"
  allowed_uris :: "string list"
  eval_timeout :: u64
  closure_resolution :: closure_resolution_config
  cache :: cache_storage_config
  eval_webhook_url :: string
  health_port :: u16

definition default_cache_priority :: u32 where
  "default_cache_priority = 40"

definition default_closure_resolution_config :: closure_resolution_config where
  "default_closure_resolution_config = \<lparr>concurrency = 32, closure_timeout = 60\<rparr>"

definition default_cache_storage_config :: cache_storage_config where
  "default_cache_storage_config =
     \<lparr>cache_path = ''/var/lib/niphas/cache'',
      high_watermark_bytes = 15 * 1024 * 1024 * 1024,
      low_watermark_bytes = 10 * 1024 * 1024 * 1024,
      gc_interval = 300\<rparr>"

definition default_config :: niphas_config where
  "default_config =
     \<lparr>log_level = ''info'', binary_caches = [], allowed_flake_origins = [], allowed_uris = [],
      eval_timeout = 300, closure_resolution = default_closure_resolution_config,
      cache = default_cache_storage_config,
      eval_webhook_url = ''http://niphas-eval.niphas-system.svc:8443'', health_port = 8080\<rparr>"

datatype provider = Defaults niphas_config | YamlFile string | EnvPrefixed string string

definition config_providers :: "string option \<Rightarrow> provider list" where
  "config_providers path =
     [Defaults default_config] @ (case path of None \<Rightarrow> [] | Some p \<Rightarrow> [YamlFile p]) @
     [YamlFile ''/etc/niphas/config.yaml'', EnvPrefixed ''NIPHAS_'' ''_'']"

definition config_load ::
  "(provider list \<Rightarrow> (string, niphas_config) outcome) \<Rightarrow> string option \<Rightarrow> (string, niphas_config) outcome" where
  "config_load extract path = extract (config_providers path)"

definition config_load_or_default ::
  "(provider list \<Rightarrow> (string, niphas_config) outcome) \<Rightarrow> string option \<Rightarrow> ('e, niphas_config) outcome" where
  "config_load_or_default extract path =
     (case config_load extract path of
        Ok c \<Rightarrow> Ok c
      | Err e \<Rightarrow> Ok default_config
      | Panic \<Rightarrow> Panic
      | Diverge \<Rightarrow> Diverge)"

definition duration_serialize :: "u64 \<Rightarrow> string" where
  "duration_serialize secs = u64_display secs @ ''s''"

definition parse_duration :: "string \<Rightarrow> (string, u64) outcome" where
  "parse_duration raw =
     (let s = trim raw;
          invalid = (\<lambda>e. ''invalid duration '' @ quoted s @ '': '' @ int_error_display e) in
      case strip_suffix ''s'' s of
        Some secs \<Rightarrow> omap_err invalid (parse_u64 (trim secs))
      | None \<Rightarrow>
        (case strip_suffix ''m'' s of
           Some mins \<Rightarrow> obind (omap_err invalid (parse_u64 (trim mins))) (\<lambda>m. Ok (m * 60))
         | None \<Rightarrow>
           (case strip_suffix ''h'' s of
              Some hours \<Rightarrow> obind (omap_err invalid (parse_u64 (trim hours))) (\<lambda>h. Ok (h * 3600))
            | None \<Rightarrow> omap_err (\<lambda>e. ''invalid duration '' @ quoted s @ '': expected format like '' @
                 quoted ''300s'' @ '', '' @ quoted ''5m'' @ '', '' @ quoted ''1h'') (parse_u64 s))))"

section \<open>Lemmas\<close>

lemma trim_graphic: "graphic s \<Longrightarrow> trim s = s"
  using graphic_not_whitespace[of s "hd s"] graphic_not_whitespace[of s "last s"]
  by (intro trim_ascii) (auto simp: graphic_ascii, auto simp: graphic_def)

lemma strip_suffix_char: "strip_suffix [c] (s @ [d]) = (if c = d then Some s else None)"
  by (auto simp: strip_suffix_def strip_prefix_def)

lemma display_suffix: "graphic (u64_display n @ [CHR ''s''])" "graphic (u64_display n @ [CHR ''m''])"
    "graphic (u64_display n @ [CHR ''h''])"
  using graphic_u64_display[of n] by (simp_all add: graphic_def)

lemma strip_suffix_digits:
  assumes "c \<notin> set (u64_display n)"
  shows "strip_suffix [c] (u64_display n) = None"
proof (cases "strip_suffix [c] (u64_display n)")
  case (Some r)
  then have "u64_display n = r @ [c]" by (simp add: strip_suffix_eq_Some)
  then have "c \<in> set (u64_display n)" by (metis in_set_conv_decomp)
  with assms show ?thesis by simp
qed

lemma no_unit:
  "CHR ''s'' \<notin> set (u64_display n)" "CHR ''m'' \<notin> set (u64_display n)" "CHR ''h'' \<notin> set (u64_display n)"
  using nat_display_digits[of "CHR ''s''" "unat n"] nat_display_digits[of "CHR ''m''" "unat n"]
    nat_display_digits[of "CHR ''h''" "unat n"] by (auto simp: u64_display_def)

section \<open>Properties\<close>

text \<open>A duration written by the serializer is read back by the parser, whatever its length.\<close>

theorem duration_roundtrip: "parse_duration (duration_serialize secs) = Ok secs"
  using trim_graphic[OF display_suffix(1)[of secs]] trim_graphic[OF graphic_u64_display[of secs]]
  by (simp add: parse_duration_def duration_serialize_def strip_suffix_char parse_u64_display)

text \<open>C39. What the units mean: a number alone or with \<open>s\<close> is seconds, minutes (\<open>m\<close>) and hours (\<open>h\<close>) are multiplied in 64-bit
  arithmetic, so that a number of minutes or hours is exact when the product fits in 64 bits and is
  reduced modulo 2 to the 64 otherwise; for example 307445734561825861 minutes are 44 seconds.\<close>

theorem duration_units:
  "parse_duration (u64_display n) = Ok n \<and>
   parse_duration (u64_display n @ ''s'') = Ok n \<and>
   parse_duration (u64_display n @ ''m'') = Ok (of_nat (60 * unat n)) \<and>
   parse_duration (u64_display n @ ''h'') = Ok (of_nat (3600 * unat n)) \<and>
   parse_duration (u64_display 307445734561825861 @ ''m'') = Ok 44"
proof -
  note t = trim_graphic[OF graphic_u64_display] trim_graphic[OF display_suffix(1)] trim_graphic[OF display_suffix(2)] trim_graphic[OF display_suffix(3)]
  have m: "parse_duration (u64_display k @ ''m'') = Ok (k * 60)" for k
    using t by (simp add: parse_duration_def strip_suffix_char parse_u64_display)
  have h: "parse_duration (u64_display k @ ''h'') = Ok (k * 3600)" for k
    using t by (simp add: parse_duration_def strip_suffix_char parse_u64_display)
  have sec: "parse_duration (u64_display k @ ''s'') = Ok k" for k
    using t by (simp add: parse_duration_def strip_suffix_char parse_u64_display)
  have s: "parse_duration (u64_display k) = Ok k" for k
    using t by (simp add: parse_duration_def strip_suffix_digits no_unit parse_u64_display)
  show ?thesis using m[of n] m[of 307445734561825861] h[of n] s[of n] sec[of n] by (simp add: mult.commute)
qed

end
