(* ===== verification/Cache_Client.thy ===== *)
theory Cache_Client
  imports Nar_Info Config "HOL-Library.AList"
begin

text \<open>
  The clients of binary caches: the HTTP client with its fall-back over several caches
  (src/crates/niphas-core/src/nix/cache_client.rs), and the in-memory client and the builder of
  narinfos that the tests use (src/crates/niphas-core/src/testutils/).

  The trait \<open>BinaryCacheClient\<close> is the locale \<open>binary_cache_client\<close>, interpreted on both. An
  HTTP exchange (crate reqwest) is the record \<open>http\<close>: the answer to a GET of a URL during one
  call, and the text of a status code. Logging is left out.
\<close>

section \<open>Definitions\<close>

text \<open>The answer to a request: a status with the body read as text and as bytes, or a failure.\<close>

datatype http_response =
    Response (status: nat) (body_text: "(string, string) outcome") (body_bytes: "(string, bytes) outcome")
  | RequestFailed string

record http =
  http_get :: "string \<Rightarrow> http_response"
  status_text :: "nat \<Rightarrow> string"

definition is_success :: "nat \<Rightarrow> bool" where
  "is_success st \<longleftrightarrow> 200 \<le> st \<and> st < 300"

record cache_client =
  client_caches :: "cache_config list"

text \<open>\<open>sort_by_key\<close> is stable.\<close>

definition cache_client_new :: "unit option \<Rightarrow> string \<Rightarrow> cache_config list \<Rightarrow> cache_client result" where
  "cache_client_new built build_error caches =
     (case built of
        None \<Rightarrow> Err (Cache (''failed to create HTTP client: '' @ build_error))
      | Some _ \<Rightarrow> Ok \<lparr>client_caches = sort_key priority caches\<rparr>)"

definition join_url :: "string \<Rightarrow> string \<Rightarrow> string" where
  "join_url base file = trim_end_matches (CHR ''/'') base @ ''/'' @ file"

fun fetch_narinfo_loop ::
  "'k crypto \<Rightarrow> http \<Rightarrow> string \<Rightarrow> string \<Rightarrow> niphas_error option \<Rightarrow> cache_config list \<Rightarrow> nar_info result" where
  "fetch_narinfo_loop cr net path_text file last_err [] =
     Err (case last_err of Some e \<Rightarrow> e | None \<Rightarrow> Cache ''no binary caches configured'')"
| "fetch_narinfo_loop cr net path_text file last_err (c # caches) =
     (let u = join_url (cache_url c) file in
      case http_get net u of
        Response st body bytes \<Rightarrow>
          if is_success st
          then obind (omap_err (\<lambda>e. Cache (''failed to read narinfo body: '' @ e)) body) (nar_info_parse cr)
          else if st = 404
          then fetch_narinfo_loop cr net path_text file (Some (StorePathNotCached path_text)) caches
          else fetch_narinfo_loop cr net path_text file
                 (Some (Cache (''HTTP '' @ status_text net st @ '' from '' @ u))) caches
      | RequestFailed e \<Rightarrow>
          fetch_narinfo_loop cr net path_text file (Some (Cache (''request failed: '' @ e))) caches)"

definition fetch_narinfo_impl :: "'k crypto \<Rightarrow> http \<Rightarrow> cache_client \<Rightarrow> store_path \<Rightarrow> nar_info result" where
  "fetch_narinfo_impl cr net cl sp =
     fetch_narinfo_loop cr net (store_path_display sp) (hash_str sp @ ''.narinfo'') None (client_caches cl)"

definition fetch_narinfo_by_hash_impl :: "'k crypto \<Rightarrow> http \<Rightarrow> cache_client \<Rightarrow> string \<Rightarrow> nar_info result" where
  "fetch_narinfo_by_hash_impl cr net cl h =
     fetch_narinfo_loop cr net h (h @ ''.narinfo'') None (client_caches cl)"

fun fetch_nar_loop :: "http \<Rightarrow> string \<Rightarrow> niphas_error option \<Rightarrow> cache_config list \<Rightarrow> bytes result" where
  "fetch_nar_loop net file last_err [] =
     Err (case last_err of Some e \<Rightarrow> e | None \<Rightarrow> Cache ''no binary caches configured'')"
| "fetch_nar_loop net file last_err (c # caches) =
     (let u = join_url (cache_url c) file in
      case http_get net u of
        Response st body bytes \<Rightarrow>
          if is_success st
          then omap_err (\<lambda>e. Cache (''failed to read NAR body: '' @ e)) bytes
          else fetch_nar_loop net file
                 (Some (Cache (''HTTP '' @ status_text net st @ '' fetching NAR from '' @ u))) caches
      | RequestFailed e \<Rightarrow>
          fetch_nar_loop net file (Some (Cache (''NAR request failed: '' @ e))) caches)"

definition fetch_nar_impl :: "http \<Rightarrow> cache_client \<Rightarrow> nar_info \<Rightarrow> bytes result" where
  "fetch_nar_impl net cl n = fetch_nar_loop net (url n) None (client_caches cl)"

subsection \<open>The client and the builder of the tests\<close>

record fake_cache_client =
  fake_narinfos :: "string \<Rightarrow> nar_info option"
  fake_nars :: "string \<Rightarrow> bytes option"

definition fake_new :: fake_cache_client where
  "fake_new = \<lparr>fake_narinfos = Map.empty, fake_nars = Map.empty\<rparr>"

definition add_narinfo :: "nar_info \<Rightarrow> fake_cache_client \<Rightarrow> fake_cache_client" where
  "add_narinfo n fk = fk\<lparr>fake_narinfos := (fake_narinfos fk)(hash_str (ni_store_path n) \<mapsto> n)\<rparr>"

definition add_nar :: "string \<Rightarrow> bytes \<Rightarrow> fake_cache_client \<Rightarrow> fake_cache_client" where
  "add_nar u data fk = fk\<lparr>fake_nars := (fake_nars fk)(u \<mapsto> data)\<rparr>"

definition fake_fetch_narinfo :: "fake_cache_client \<Rightarrow> store_path \<Rightarrow> nar_info result" where
  "fake_fetch_narinfo fk sp =
     ok_or (StorePathNotCached (store_path_display sp)) (fake_narinfos fk (hash_str sp))"

definition fake_fetch_nar :: "fake_cache_client \<Rightarrow> nar_info \<Rightarrow> bytes result" where
  "fake_fetch_nar fk n = ok_or (Cache (''NAR not found: '' @ url n)) (fake_nars fk (url n))"

definition fake_fetch_narinfo_by_hash :: "fake_cache_client \<Rightarrow> string \<Rightarrow> nar_info result" where
  "fake_fetch_narinfo_by_hash fk h = ok_or (StorePathNotCached h) (fake_narinfos fk h)"

record nar_info_builder =
  b_store_path :: store_path
  b_url :: string
  b_compression :: compression
  b_file_hash :: nix_hash
  b_file_size :: u64
  b_nar_hash :: nix_hash
  b_nar_size :: u64
  b_references :: "store_path_ref list"

definition builder_new :: "string \<Rightarrow> nar_info_builder result" where
  "builder_new sp_text =
     (case store_path_parse sp_text of
        Ok sp \<Rightarrow> Ok \<lparr>b_store_path = sp, b_url = ''nar/'' @ hash_str sp @ ''.nar.zst'',
          b_compression = CompressionNone,
          b_file_hash = \<lparr>algo = Sha256, digest = replicate 32 0\<rparr>, b_file_size = 1000,
          b_nar_hash = \<lparr>algo = Sha256, digest = replicate 32 0\<rparr>, b_nar_size = 2000,
          b_references = []\<rparr>
      | _ \<Rightarrow> Panic)"

definition builder_references :: "string list \<Rightarrow> nar_info_builder \<Rightarrow> nar_info_builder result" where
  "builder_references refs b =
     (case omap store_path_ref_parse refs of
        Ok rs \<Rightarrow> Ok (b\<lparr>b_references := rs\<rparr>)
      | _ \<Rightarrow> Panic)"

definition builder_nar_size :: "u64 \<Rightarrow> nar_info_builder \<Rightarrow> nar_info_builder" where
  "builder_nar_size sz b = b\<lparr>b_nar_size := sz\<rparr>"

definition builder_file_size :: "u64 \<Rightarrow> nar_info_builder \<Rightarrow> nar_info_builder" where
  "builder_file_size sz b = b\<lparr>b_file_size := sz\<rparr>"

definition builder_compression :: "compression \<Rightarrow> nar_info_builder \<Rightarrow> nar_info_builder" where
  "builder_compression c b = b\<lparr>b_compression := c\<rparr>"

definition builder_build :: "nar_info_builder \<Rightarrow> nar_info" where
  "builder_build b =
     \<lparr>ni_store_path = b_store_path b, url = b_url b, compression = b_compression b,
      file_hash = b_file_hash b, file_size = b_file_size b, nar_hash = b_nar_hash b,
      nar_size = b_nar_size b, references = b_references b, deriver = None, signatures = [],
      ca = None\<rparr>"

section \<open>The interface\<close>

text \<open>
  What the users of a binary cache rely on: the two ways to ask for a narinfo agree, and a
  narinfo that comes from the cache is one of those \<open>served\<close>.
\<close>

locale binary_cache_client =
  fixes fetch_narinfo :: "store_path \<Rightarrow> nar_info result"
    and fetch_nar :: "nar_info \<Rightarrow> bytes result"
    and fetch_narinfo_by_hash :: "string \<Rightarrow> nar_info result"
    and served :: "nar_info \<Rightarrow> bool"
  assumes by_hash: "fetch_narinfo sp = Ok n \<longleftrightarrow> fetch_narinfo_by_hash (hash_str sp) = Ok n"
    and fetched_served: "fetch_narinfo sp = Ok n \<Longrightarrow> served n"
begin

lemma fetch_depends_on_hash: "hash sp = hash sp' \<Longrightarrow> fetch_narinfo sp = Ok n \<longleftrightarrow> fetch_narinfo sp' = Ok n"
  by (simp add: by_hash hash_str_def)

lemma name_ignored: "fetch_narinfo (sp\<lparr>name := x\<rparr>) = Ok n \<longleftrightarrow> fetch_narinfo sp = Ok n"
  by (rule fetch_depends_on_hash) simp

end

section \<open>Lemmas\<close>

text \<open>A cache answers when the GET of the file succeeds; otherwise it leaves an error behind.\<close>

definition cache_answer :: "http \<Rightarrow> string \<Rightarrow> cache_config \<Rightarrow> http_response" where
  "cache_answer net file c = http_get net (join_url (cache_url c) file)"

fun answers :: "http_response \<Rightarrow> bool" where
  "answers (Response st body bytes) = is_success st"
| "answers (RequestFailed e) = False"

fun narinfo_failure :: "http \<Rightarrow> string \<Rightarrow> string \<Rightarrow> http_response \<Rightarrow> niphas_error" where
  "narinfo_failure net path_text u (Response st body bytes) =
     (if st = 404 then StorePathNotCached path_text
      else Cache (''HTTP '' @ status_text net st @ '' from '' @ u))"
| "narinfo_failure net path_text u (RequestFailed e) = Cache (''request failed: '' @ e)"

definition narinfo_failure_of :: "http \<Rightarrow> string \<Rightarrow> string \<Rightarrow> cache_config \<Rightarrow> niphas_error" where
  "narinfo_failure_of net path_text file c =
     narinfo_failure net path_text (join_url (cache_url c) file) (cache_answer net file c)"

lemma fetch_narinfo_loop_eq:
  "fetch_narinfo_loop cr net path_text file last_err caches =
     (case find (\<lambda>c. answers (cache_answer net file c)) caches of
        Some c \<Rightarrow> obind (omap_err (\<lambda>e. Cache (''failed to read narinfo body: '' @ e))
                     (body_text (cache_answer net file c))) (nar_info_parse cr)
      | None \<Rightarrow> Err (if caches \<noteq> [] then narinfo_failure_of net path_text file (last caches)
                     else case last_err of Some e \<Rightarrow> e | None \<Rightarrow> Cache ''no binary caches configured''))"
proof (induction caches arbitrary: last_err)
  case (Cons c caches)
  show ?case
  proof (cases "cache_answer net file c")
    case (Response st body bytes)
    then show ?thesis
      using Cons by (auto simp: cache_answer_def narinfo_failure_of_def Let_def split: option.splits)
  next
    case (RequestFailed e)
    then show ?thesis
      using Cons by (auto simp: cache_answer_def narinfo_failure_of_def Let_def split: option.splits)
  qed
qed simp

lemma fetch_narinfo_loop_Ok:
  "fetch_narinfo_loop cr net p file last_err caches = Ok n \<longleftrightarrow>
   fetch_narinfo_loop cr net p' file last_err' caches = Ok n"
  unfolding fetch_narinfo_loop_eq by (simp split: option.splits)

lemma fetched_is_parsed:
  "fetch_narinfo_loop cr net p file last_err caches = Ok n \<Longrightarrow> \<exists>text. nar_info_parse cr text = Ok n"
  unfolding fetch_narinfo_loop_eq by (auto simp: obind_eq_Ok split: option.splits)

interpretation http_client: binary_cache_client "fetch_narinfo_impl cr net cl" "fetch_nar_impl net cl"
    "fetch_narinfo_by_hash_impl cr net cl" nar_info_ok
proof
  show "fetch_narinfo_impl cr net cl sp = Ok n \<longleftrightarrow> fetch_narinfo_by_hash_impl cr net cl (hash_str sp) = Ok n" for sp n
    unfolding fetch_narinfo_impl_def fetch_narinfo_by_hash_impl_def by (rule fetch_narinfo_loop_Ok)
  show "fetch_narinfo_impl cr net cl sp = Ok n \<Longrightarrow> nar_info_ok n" for sp n
    unfolding fetch_narinfo_impl_def by (auto dest!: fetched_is_parsed nar_info_parse_ok)
qed

interpretation fake_client: binary_cache_client "fake_fetch_narinfo fk" "fake_fetch_nar fk"
    "fake_fetch_narinfo_by_hash fk" "\<lambda>n. n \<in> ran (fake_narinfos fk)"
  by unfold_locales (auto simp: fake_fetch_narinfo_def fake_fetch_narinfo_by_hash_def outcome_simps ranI)

lemma fetch_nar_loop_eq:
  "fetch_nar_loop net file last_err caches =
     (case find (\<lambda>c. answers (cache_answer net file c)) caches of
        Some c \<Rightarrow> omap_err (\<lambda>e. Cache (''failed to read NAR body: '' @ e)) (body_bytes (cache_answer net file c))
      | None \<Rightarrow> Err (case last_err of
                Some e \<Rightarrow> (if caches = [] then e else outcome_error (fetch_nar_loop net file None [last caches]))
              | None \<Rightarrow> (if caches = [] then Cache ''no binary caches configured''
                         else outcome_error (fetch_nar_loop net file None [last caches]))))"
proof (induction caches arbitrary: last_err)
  case (Cons c caches)
  show ?case
  proof (cases "cache_answer net file c")
    case (Response st body bytes)
    then show ?thesis
      using Cons by (auto simp: cache_answer_def Let_def split: option.splits)
  next
    case (RequestFailed e)
    then show ?thesis
      using Cons by (auto simp: cache_answer_def Let_def split: option.splits)
  qed
qed (simp split: option.splits)

section \<open>Properties\<close>

text \<open>The fall-back over the caches: the narinfo comes from the first cache, in the order of
  the client, that answers with a success status, and is the parse of its body, even when
  that parse fails; when no cache answers, the error is that of the last cache, and a client without
  caches says so.\<close>

theorem fetch_narinfo_fallback:
  "fetch_narinfo_impl cr net cl sp =
     (case find (\<lambda>c. answers (cache_answer net (hash_str sp @ ''.narinfo'') c)) (client_caches cl) of
        Some c \<Rightarrow> obind (omap_err (\<lambda>e. Cache (''failed to read narinfo body: '' @ e))
                     (body_text (cache_answer net (hash_str sp @ ''.narinfo'') c))) (nar_info_parse cr)
      | None \<Rightarrow> Err (if client_caches cl \<noteq> []
                     then narinfo_failure_of net (store_path_display sp) (hash_str sp @ ''.narinfo'') (last (client_caches cl))
                     else Cache ''no binary caches configured''))"
  by (simp add: fetch_narinfo_impl_def fetch_narinfo_loop_eq split: option.splits)

text \<open>A new client tries the caches by increasing priority number and keeps caches of the same
  number in their configured order; none is lost or repeated.\<close>

theorem cache_client_order:
  "cache_client_new (Some ()) e caches = Ok cl \<longleftrightarrow>
     mset (client_caches cl) = mset caches \<and> sorted (map priority (client_caches cl)) \<and>
     (\<forall>p. filter (\<lambda>c. p = priority c) (client_caches cl) = filter (\<lambda>c. p = priority c) caches)"
proof
  assume "cache_client_new (Some ()) e caches = Ok cl"
  then have "client_caches cl = sort_key priority caches" by (auto simp: cache_client_new_def)
  then show "mset (client_caches cl) = mset caches \<and> sorted (map priority (client_caches cl)) \<and>
     (\<forall>p. filter (\<lambda>c. p = priority c) (client_caches cl) = filter (\<lambda>c. p = priority c) caches)"
    by (simp add: sort_key_stable eq_commute[of _ "priority _"])
next
  assume *: "mset (client_caches cl) = mset caches \<and> sorted (map priority (client_caches cl)) \<and>
     (\<forall>p. filter (\<lambda>c. p = priority c) (client_caches cl) = filter (\<lambda>c. p = priority c) caches)"
  then have "sort_key priority caches = client_caches cl"
    by (intro properties_for_sort_key) simp_all
  then show "cache_client_new (Some ()) e caches = Ok cl" by (simp add: cache_client_new_def)
qed

text \<open>A client asks by the hash of a store path only: the name of the requested path does
  not matter, and nothing compares it with the store path of the narinfo that comes back.\<close>

theorem fetch_ignores_name:
  "fetch_narinfo_impl cr net cl (sp\<lparr>name := x\<rparr>) = Ok n \<longleftrightarrow> fetch_narinfo_impl cr net cl sp = Ok n"
  by (rule http_client.name_ignored)

end
