(* ===== verification/Closure.thy ===== *)
theory Closure
  imports Cache_Client
begin

text \<open>
  Resolution of the closure of a store path (src/crates/niphas-core/src/nix/closure.rs): a
  breadth-first search that takes a batch off the queue, starts a fetch for every path of the batch
  that was not visited, and handles the answers in the order in which they complete.

  The order of completion of round \<open>k\<close> (\<open>FuturesUnordered\<close>) is the argument \<open>sched k\<close>, a
  rearrangement of the started fetches; the clock is the argument \<open>expired\<close>, which says whether the
  deadline has passed at the start of round \<open>k\<close>. The loop has a fuel argument; the lemmas give
  an amount that is always enough when the concurrency is positive. The set \<open>visited\<close> and the map
  \<open>narinfos\<close> are keyed by the text of the store path, as in the code.
\<close>

section \<open>Definitions\<close>

record resolved_closure =
  narinfos :: "(string \<times> nar_info) list"
  paths :: "string list"

text \<open>\<open>Iterator::sum\<close> on 64-bit integers, which wraps in the release profile.\<close>

definition closure_nar_size :: "resolved_closure \<Rightarrow> u64" where
  "closure_nar_size c = sum_list (map (\<lambda>(k, n). nar_size n) (narinfos c))"

definition closure_file_size :: "resolved_closure \<Rightarrow> u64" where
  "closure_file_size c = sum_list (map (\<lambda>(k, n). file_size n) (narinfos c))"

fun start_batch :: "string set \<Rightarrow> store_path list \<Rightarrow> string set \<times> store_path list" where
  "start_batch visited [] = (visited, [])"
| "start_batch visited (sp # batch) =
     (if store_path_display sp \<in> visited then start_batch visited batch
      else let (v, futures) = start_batch (insert (store_path_display sp) visited) batch
           in (v, sp # futures))"

fun enqueue_refs :: "string set \<Rightarrow> store_path_ref list \<Rightarrow> store_path list \<Rightarrow> store_path list result" where
  "enqueue_refs visited [] queue = Ok queue"
| "enqueue_refs visited (r # rs) queue =
     (let ref_path_str = to_store_path_string r in
      if ref_path_str \<in> visited then enqueue_refs visited rs queue
      else case store_path_parse ref_path_str of
             Ok ref_sp \<Rightarrow> enqueue_refs visited rs (queue @ [ref_sp])
           | Err e \<Rightarrow> enqueue_refs visited rs queue
           | Panic \<Rightarrow> Panic
           | Diverge \<Rightarrow> Diverge)"

type_synonym closure_state = "store_path list \<times> (string \<times> nar_info) list \<times> string list"

fun collect_results ::
  "(store_path \<Rightarrow> nar_info result) \<Rightarrow> string set \<Rightarrow> store_path list \<Rightarrow> closure_state \<Rightarrow> closure_state result" where
  "collect_results fetch visited [] st = Ok st"
| "collect_results fetch visited (sp # futures) (queue, infos, order) =
     (let sp_str = store_path_display sp in
      case fetch sp of
        Ok n \<Rightarrow>
          obind (enqueue_refs visited (references n) queue) (\<lambda>queue.
          collect_results fetch visited futures (queue, AList.update sp_str n infos, order @ [sp_str]))
      | Err e \<Rightarrow> Err (ClosureResolution (''failed to resolve '' @ sp_str @ '': '' @ niphas_error_display e))
      | Panic \<Rightarrow> Panic
      | Diverge \<Rightarrow> Diverge)"

fun resolve_loop ::
  "nat \<Rightarrow> (store_path \<Rightarrow> nar_info result) \<Rightarrow> (nat \<Rightarrow> store_path list \<Rightarrow> store_path list) \<Rightarrow> (nat \<Rightarrow> bool) \<Rightarrow>
     nat \<Rightarrow> u64 \<Rightarrow> nat \<Rightarrow> string set \<Rightarrow> closure_state \<Rightarrow> resolved_closure result" where
  "resolve_loop 0 fetch sched expired conc timeout k visited st = Diverge"
| "resolve_loop (Suc fuel) fetch sched expired conc timeout k visited (queue, infos, order) =
     (if queue = [] then Ok \<lparr>narinfos = infos, paths = order\<rparr>
      else if expired k
      then Err (Timeout (''closure resolution timed out after '' @ u64_display timeout @ ''s''))
      else
        let n = min (length queue) conc;
            (visited, futures) = start_batch visited (take n queue)
        in obind (collect_results fetch visited (sched k futures) (drop n queue, infos, order))
             (resolve_loop fuel fetch sched expired conc timeout (Suc k) visited))"

definition resolve_closure ::
  "nat \<Rightarrow> (store_path \<Rightarrow> nar_info result) \<Rightarrow> (nat \<Rightarrow> store_path list \<Rightarrow> store_path list) \<Rightarrow> (nat \<Rightarrow> bool) \<Rightarrow>
     nat \<Rightarrow> u64 \<Rightarrow> store_path \<Rightarrow> resolved_closure result" where
  "resolve_closure fuel fetch sched expired conc timeout root =
     resolve_loop fuel fetch sched expired conc timeout 0 {} ([root], [], [])"

section \<open>The specification: reachability over references\<close>

definition successor :: "(store_path \<Rightarrow> nar_info result) \<Rightarrow> store_path \<Rightarrow> store_path \<Rightarrow> bool" where
  "successor fetch sp sp' \<longleftrightarrow>
     (\<exists>n r. fetch sp = Ok n \<and> r \<in> set (references n) \<and> store_path_parse (to_store_path_string r) = Ok sp')"

inductive reach :: "(store_path \<Rightarrow> nar_info result) \<Rightarrow> store_path \<Rightarrow> store_path \<Rightarrow> bool"
  for fetch root where
  reach_root: "reach fetch root root"
| reach_step: "reach fetch root sp \<Longrightarrow> successor fetch sp sp' \<Longrightarrow> reach fetch root sp'"

text \<open>The completion order is a rearrangement.\<close>

definition fair_sched :: "(nat \<Rightarrow> store_path list \<Rightarrow> store_path list) \<Rightarrow> bool" where
  "fair_sched sched \<longleftrightarrow> (\<forall>k xs. mset (sched k xs) = mset xs)"

inductive_cases reachE: "reach fetch root sp"

section \<open>One round\<close>

lemma reach_ok: "reach fetch root sp \<Longrightarrow> store_path_ok root \<Longrightarrow> store_path_ok sp"
  by (induction rule: reach.induct) (auto simp: successor_def dest: path.parse_valid)

lemma display_inj: "store_path_ok a \<Longrightarrow> store_path_ok b \<Longrightarrow> store_path_display a = store_path_display b \<longleftrightarrow> a = b"
  using path.print_inj_on by (auto simp: inj_on_def)

lemma start_batch_spec:
  "start_batch visited batch = (v, futures) \<Longrightarrow>
     v = visited \<union> store_path_display ` set futures \<and> set futures \<subseteq> set batch \<and>
     distinct (map store_path_display futures) \<and> store_path_display ` set futures \<inter> visited = {} \<and>
     store_path_display ` set batch \<subseteq> v"
proof (induction visited batch arbitrary: v futures rule: start_batch.induct)
  case (2 visited sp batch)
  show ?case
  proof (cases "store_path_display sp \<in> visited")
    case True
    then show ?thesis using "2.IH"(1)[OF True] "2.prems" by auto
  next
    case False
    obtain v' f' where rest: "start_batch (insert (store_path_display sp) visited) batch = (v', f')"
      by fastforce
    then have "v = v'" "futures = sp # f'" using "2.prems" False by (auto simp: Let_def)
    then show ?thesis using "2.IH"(2)[OF False rest] False by auto
  qed
qed auto

lemma enqueue_refs_spec:
  "enqueue_refs visited rs queue = Ok q' \<Longrightarrow>
     \<exists>new. q' = queue @ new \<and> length new \<le> length rs \<and>
       set new = {sp. \<exists>r \<in> set rs. to_store_path_string r \<notin> visited \<and> store_path_parse (to_store_path_string r) = Ok sp}"
proof (induction rs arbitrary: queue)
  case (Cons r rs)
  consider (skip) "enqueue_refs visited rs queue = Ok q'"
      "to_store_path_string r \<in> visited \<or> (\<exists>e. store_path_parse (to_store_path_string r) = Err e)"
    | (push) sp where "enqueue_refs visited rs (queue @ [sp]) = Ok q'" "to_store_path_string r \<notin> visited"
      "store_path_parse (to_store_path_string r) = Ok sp"
    using Cons.prems by (auto simp: Let_def split: if_splits outcome.splits)
  then show ?case
  proof cases
    case skip
    then show ?thesis using Cons.IH[of queue] by fastforce
  next
    case push
    then obtain new where "q' = (queue @ [sp]) @ new" "length new \<le> length rs"
      "set new = {sp. \<exists>r \<in> set rs. to_store_path_string r \<notin> visited \<and> store_path_parse (to_store_path_string r) = Ok sp}"
      using Cons.IH[of "queue @ [sp]"] by blast
    then show ?thesis using push by (intro exI[of _ "sp # new"]) auto
  qed
qed simp

lemma AList_update_new: "k \<notin> fst ` set al \<Longrightarrow> AList.update k v al = al @ [(k, v)]"
  by (induction al) auto

text \<open>What handling the answers of a round does, when it succeeds.\<close>

definition collected ::
  "(store_path \<Rightarrow> nar_info result) \<Rightarrow> string set \<Rightarrow> store_path list \<Rightarrow> closure_state \<Rightarrow> closure_state \<Rightarrow> bool" where
  "collected fetch visited futures st st' = (case (st, st') of ((q, infos, order), (q', infos', order')) \<Rightarrow>
     order' = order @ map store_path_display futures \<and> map fst infos' = order' \<and>
     (\<forall>p \<in> set order. map_of infos' p = map_of infos p) \<and>
     (\<forall>sp \<in> set futures. \<exists>n. fetch sp = Ok n \<and> map_of infos' (store_path_display sp) = Some n) \<and>
     (\<exists>new. q' = q @ new \<and> set new = {sp'. \<exists>sp \<in> set futures. successor fetch sp sp' \<and> store_path_display sp' \<notin> visited} \<and>
        length new \<le> (\<Sum>sp\<leftarrow>futures. length (references (outcome_value (fetch sp))))))"

lemma new_queue_entries:
  assumes "fetch sp = Ok n" "enqueue_refs visited (references n) queue = Ok q1"
  shows "\<exists>new. q1 = queue @ new \<and> length new \<le> length (references n) \<and>
     set new = {sp'. successor fetch sp sp' \<and> store_path_display sp' \<notin> visited}"
proof -
  have "store_path_parse (to_store_path_string r) = Ok x \<Longrightarrow> store_path_display x = to_store_path_string r" for r x
    by (rule path.print_parse)
  then show ?thesis
    using enqueue_refs_spec[OF assms(2)] assms(1) by (fastforce simp: successor_def)
qed

lemma collect_results_spec:
  assumes "collect_results fetch visited futures (q, infos, order) = Ok st'"
    and "distinct (map store_path_display futures)" and "store_path_display ` set futures \<inter> set order = {}"
    and "map fst infos = order"
  shows "collected fetch visited futures (q, infos, order) st'"
  using assms
proof (induction futures arbitrary: q infos order)
  case Nil
  then show ?case by (auto simp: collected_def)
next
  case (Cons sp futures)
  let ?d = "store_path_display sp"
  obtain n q1 where n: "fetch sp = Ok n" and q1: "enqueue_refs visited (references n) q = Ok q1"
    and rest: "collect_results fetch visited futures (q1, AList.update ?d n infos, order @ [?d]) = Ok st'"
    using Cons.prems(1) by (auto simp: Let_def obind_eq_Ok split: outcome.splits)
  have fresh: "?d \<notin> fst ` set infos"
    using Cons.prems(3) by (simp add: Cons.prems(4)[symmetric])
  then have new_key: "AList.update ?d n infos = infos @ [(?d, n)]" by (rule AList_update_new)
  have "collected fetch visited futures (q1, infos @ [(?d, n)], order @ [?d]) st'"
    using Cons.IH[OF rest] Cons.prems new_key by auto
  moreover obtain new where "q1 = q @ new" "length new \<le> length (references n)"
     "set new = {sp'. successor fetch sp sp' \<and> store_path_display sp' \<notin> visited}"
    using new_queue_entries[of fetch, OF n q1] by blast
  moreover have "map_of (infos @ [(?d, n)]) p = map_of infos p" if "p \<in> set order" for p
    using that Cons.prems(3) by (auto simp: map_add_def split: option.splits)
  moreover have "map_of (infos @ [(?d, n)]) ?d = Some n"
    using fresh map_of_eq_None_iff[of infos ?d] by (simp add: map_add_def)
  ultimately show ?case
    using n by (auto simp: collected_def) 
qed

section \<open>The invariant of the search\<close>

definition closure_inv ::
  "(store_path \<Rightarrow> nar_info result) \<Rightarrow> store_path \<Rightarrow> store_path set \<Rightarrow> string set \<Rightarrow> closure_state \<Rightarrow> bool" where
  "closure_inv fetch root V visited st = (case st of (queue, infos, order) \<Rightarrow>
     visited = store_path_display ` V \<and> set order = visited \<and> distinct order \<and> map fst infos = order \<and>
     (\<forall>sp \<in> V. reach fetch root sp \<and> (\<exists>n. fetch sp = Ok n \<and> map_of infos (store_path_display sp) = Some n) \<and>
        (\<forall>sp'. successor fetch sp sp' \<longrightarrow> sp' \<in> V \<union> set queue)) \<and>
     (\<forall>sp \<in> set queue. reach fetch root sp) \<and> root \<in> V \<union> set queue)"

lemma closure_inv_init: "closure_inv fetch root {} {} ([root], [], [])"
  by (simp add: closure_inv_def reach_root)

lemma displayed_in:
  assumes "store_path_ok root" "\<forall>x \<in> A. reach fetch root x" "reach fetch root sp"
    and "store_path_display sp \<in> store_path_display ` A"
  shows "sp \<in> A"
proof -
  obtain a where "a \<in> A" "store_path_display sp = store_path_display a" using assms(4) by blast
  then show ?thesis using display_inj[of sp a] reach_ok assms(1,2,3) by metis
qed

lemma in_take_or_drop: "x \<in> set xs \<Longrightarrow> x \<in> set (take n xs) \<or> x \<in> set (drop n xs)"
  by (metis UnE append_take_drop_id set_append)

lemma round_started:
  assumes "store_path_ok root" and inv: "closure_inv fetch root V visited (queue, infos, order)"
    and batch: "start_batch visited (take n queue) = (v, futures)"
  shows "\<forall>sp \<in> V \<union> set futures. reach fetch root sp" and "v = store_path_display ` (V \<union> set futures)"
    and "sp \<in> set queue \<Longrightarrow> sp \<in> V \<union> set futures \<union> set (drop n queue)"
proof -
  note b = start_batch_spec[OF batch]
  have old: "visited = store_path_display ` V" "\<forall>sp \<in> V. reach fetch root sp" "\<forall>sp \<in> set queue. reach fetch root sp"
    using inv by (auto simp: closure_inv_def)
  have "set futures \<subseteq> set queue" using b set_take_subset by fastforce
  then show VF: "\<forall>sp \<in> V \<union> set futures. reach fetch root sp" using old by blast
  show v: "v = store_path_display ` (V \<union> set futures)" using b old(1) by (simp add: image_Un)
  show "sp \<in> V \<union> set futures \<union> set (drop n queue)" if sp: "sp \<in> set queue"
    using in_take_or_drop[OF sp, of n]
  proof
    assume "sp \<in> set (take n queue)"
    then have "store_path_display sp \<in> v" using b by blast
    then show ?thesis using displayed_in[OF assms(1) VF, folded v] old(3) sp by blast
  qed simp
qed

text \<open>The narinfos after a round: those of before, and those of the fetched paths.\<close>

lemma round_infos:
  assumes inv: "closure_inv fetch root V visited (queue, infos, order)"
    and c: "collected fetch v G (rest, infos, order) (q', infos', order')" and sp: "sp \<in> V \<union> set G"
  shows "\<exists>n. fetch sp = Ok n \<and> map_of infos' (store_path_display sp) = Some n"
proof (cases "sp \<in> set G")
  case True
  then show ?thesis using c by (auto simp: collected_def)
next
  case False
  then have "sp \<in> V" using sp by blast
  then have "store_path_display sp \<in> set order" using inv by (auto simp: closure_inv_def)
  then have "map_of infos' (store_path_display sp) = map_of infos (store_path_display sp)"
    using c by (simp add: collected_def)
  then show ?thesis using inv \<open>sp \<in> V\<close> by (auto simp: closure_inv_def)
qed

lemma closure_inv_round:
  assumes root: "store_path_ok root" and inv: "closure_inv fetch root V visited (queue, infos, order)"
    and batch: "start_batch visited (take n queue) = (v, futures)" and perm: "mset G = mset futures"
    and res: "collect_results fetch v G (drop n queue, infos, order) = Ok st'"
  shows "closure_inv fetch root (V \<union> set futures) v st'"
proof -
  note b = start_batch_spec[OF batch] and started = round_started[OF root inv batch]
  have GF: "set G = set futures" using perm by (metis set_mset_mset)
  have dG: "distinct (map store_path_display G)"
    using b perm by (metis mset_eq_imp_distinct_iff mset_map)
  have old: "set order = visited" "distinct order" "map fst infos = order" "\<forall>sp \<in> set queue. reach fetch root sp"
    using inv by (auto simp: closure_inv_def)
  have c: "collected fetch v G (drop n queue, infos, order) st'"
    using collect_results_spec[OF res dG] b old GF by auto
  obtain q' infos' order' where st': "st' = (q', infos', order')" by (cases st') auto
  obtain new where q': "q' = drop n queue @ new"
    and new: "set new = {sp'. \<exists>sp \<in> set G. successor fetch sp sp' \<and> store_path_display sp' \<notin> v}"
    using c by (auto simp: collected_def st')
  have queue: "sp \<in> V \<union> set futures \<union> set q'" if "sp \<in> set queue" for sp
    using started(3)[OF that] by (auto simp: q')
  have "reach fetch root sp" if "sp \<in> set q'" for sp
    using that old(4) new started(1) GF by (auto simp: q' dest: in_set_dropD) (blast intro: reach_step)
  moreover have "sp' \<in> V \<union> set futures \<union> set q'" if "sp \<in> V \<union> set futures" "successor fetch sp sp'" for sp sp'
  proof (cases "sp \<in> V")
    case True
    then have "sp' \<in> V \<union> set queue" using inv that by (auto simp: closure_inv_def)
    then show ?thesis using queue by blast
  next
    case False
    then have "sp \<in> set G" "reach fetch root sp'" using that GF started(1) reach_step[of fetch root sp sp'] by auto
    then show ?thesis using that displayed_in[OF root started(1), folded started(2), of sp'] new by (auto simp: q')
  qed
  moreover have "\<exists>n. fetch sp = Ok n \<and> map_of infos' (store_path_display sp) = Some n" if "sp \<in> V \<union> set futures" for sp
    using round_infos[OF inv c[unfolded st']] that GF by simp
  moreover have "root \<in> V \<union> set futures \<union> set q'" using inv queue by (auto simp: closure_inv_def)
  moreover have "set order' = v" "distinct order'" "map fst infos' = order'"
    using c old b dG GF by (auto simp: collected_def st')
  ultimately show ?thesis using started(1,2) by (simp add: closure_inv_def st')
qed

section \<open>The whole search\<close>

definition closure_correct ::
  "(store_path \<Rightarrow> nar_info result) \<Rightarrow> store_path \<Rightarrow> resolved_closure \<Rightarrow> bool" where
  "closure_correct fetch root c \<longleftrightarrow>
     set (paths c) = store_path_display ` {sp. reach fetch root sp} \<and> distinct (paths c) \<and>
     map fst (narinfos c) = paths c \<and>
     (\<forall>sp. reach fetch root sp \<longrightarrow> (\<exists>n. fetch sp = Ok n \<and> map_of (narinfos c) (store_path_display sp) = Some n))"

lemma closure_inv_final:
  assumes "closure_inv fetch root V visited ([], infos, order)"
  shows "closure_correct fetch root \<lparr>narinfos = infos, paths = order\<rparr>"
proof -
  have inv: "visited = store_path_display ` V" "set order = visited" "distinct order" "map fst infos = order"
    "\<forall>sp \<in> V. reach fetch root sp \<and> (\<exists>n. fetch sp = Ok n \<and> map_of infos (store_path_display sp) = Some n) \<and>
        (\<forall>sp'. successor fetch sp sp' \<longrightarrow> sp' \<in> V)" "root \<in> V"
    using assms by (auto simp: closure_inv_def)
  have "sp \<in> V" if "reach fetch root sp" for sp
    using that inv by induction blast+
  then have V: "V = {sp. reach fetch root sp}" using inv(5) by blast
  show ?thesis
    unfolding closure_correct_def resolved_closure.select_convs
  proof (intro conjI allI impI)
    show "set order = store_path_display ` {sp. reach fetch root sp}" using inv(1,2) V by metis
    show "\<exists>n. fetch sp = Ok n \<and> map_of infos (store_path_display sp) = Some n" if "reach fetch root sp" for sp
      using that inv(5) V by blast
  qed (use inv in blast)+
qed

lemma resolve_loop_sound:
  assumes root: "store_path_ok root" and fair: "fair_sched sched"
  shows "closure_inv fetch root V visited st \<Longrightarrow>
    resolve_loop fuel fetch sched expired conc timeout k visited st = Ok c \<Longrightarrow> closure_correct fetch root c"
proof (induction fuel arbitrary: V k visited st)
  case (Suc fuel)
  obtain queue infos order where st: "st = (queue, infos, order)" by (cases st) auto
  show ?case
  proof (cases "queue = []")
    case True
    then show ?thesis using Suc.prems closure_inv_final by (auto simp: st)
  next
    case False
    let ?n = "min (length queue) conc"
    obtain v futures where b: "start_batch visited (take ?n queue) = (v, futures)" by fastforce
    obtain st' where res: "collect_results fetch v (sched k futures) (drop ?n queue, infos, order) = Ok st'"
      and rest: "resolve_loop fuel fetch sched expired conc timeout (Suc k) v st' = Ok c"
      using Suc.prems(2) False b by (auto simp: st Let_def obind_eq_Ok split: if_splits)
    have "mset (sched k futures) = mset futures" using fair by (simp add: fair_sched_def)
    then have "closure_inv fetch root (V \<union> set futures) v st'"
      using closure_inv_round[OF root _ b _ res] Suc.prems(1) by (simp add: st)
    then show ?thesis using Suc.IH rest by blast
  qed
qed simp

text \<open>How much the search can still have to do: the queue, and the references of the paths that
  are not visited yet.\<close>

definition refs_of :: "(store_path \<Rightarrow> nar_info result) \<Rightarrow> store_path \<Rightarrow> nat" where
  "refs_of fetch sp = length (references (outcome_value (fetch sp)))"

definition pending :: "(store_path \<Rightarrow> nar_info result) \<Rightarrow> store_path \<Rightarrow> store_path set \<Rightarrow> store_path list \<Rightarrow> nat" where
  "pending fetch root V queue = length queue + sum (refs_of fetch) ({sp. reach fetch root sp} - V)"

lemma pending_round:
  assumes fin: "finite {sp. reach fetch root sp}" and root: "store_path_ok root"
    and inv: "closure_inv fetch root V visited (queue, infos, order)"
    and batch: "start_batch visited (take n queue) = (v, futures)" and perm: "mset G = mset futures"
    and res: "collect_results fetch v G (drop n queue, infos, order) = Ok (q', infos', order')"
    and n: "n \<le> length queue"
  shows "pending fetch root (V \<union> set futures) q' + n \<le> pending fetch root V queue"
proof -
  let ?R = "{sp. reach fetch root sp}"
  note b = start_batch_spec[OF batch]
  have old: "visited = store_path_display ` V" "set order = visited" "map fst infos = order"
      "\<forall>sp \<in> set queue. reach fetch root sp"
    using inv by (auto simp: closure_inv_def)
  have GF: "set G = set futures" using perm by (metis set_mset_mset)
  have dG: "distinct (map store_path_display G)"
    using b perm by (metis mset_eq_imp_distinct_iff mset_map)
  have "collected fetch v G (drop n queue, infos, order) (q', infos', order')"
    using collect_results_spec[OF res dG] b old GF by auto
  then have len: "length q' \<le> length queue - n + (\<Sum>sp\<leftarrow>G. refs_of fetch sp)"
    by (auto simp: collected_def refs_of_def)
  have "distinct G" using dG by (simp add: distinct_map)
  then have sum: "(\<Sum>sp\<leftarrow>G. refs_of fetch sp) = sum (refs_of fetch) (set futures)"
    using GF by (metis sum_list_distinct_conv_sum_set)
  have F: "set futures \<subseteq> ?R - V"
  proof
    fix sp assume sp: "sp \<in> set futures"
    then have "sp \<in> set queue" using b set_take_subset by fastforce
    moreover have "sp \<notin> V" using b old(1) sp by blast
    ultimately show "sp \<in> ?R - V" using old(4) by blast
  qed
  have "sum (refs_of fetch) (?R - V) = sum (refs_of fetch) (set futures) + sum (refs_of fetch) (?R - V - set futures)"
    using sum.subset_diff[OF F] fin by (simp add: add.commute)
  moreover have "?R - V - set futures = ?R - (V \<union> set futures)" by blast
  ultimately show ?thesis using len n by (simp add: pending_def sum)
qed

lemma enqueue_no_diverge: "enqueue_refs visited rs q \<noteq> Diverge"
proof (induction rs arbitrary: q)
  case (Cons r rs)
  have "store_path_parse s \<noteq> Diverge" for s by (rule store_path_parse_no_diverge)
  then show ?case using Cons by (auto simp: Let_def split: outcome.splits)
qed simp

lemma collect_no_diverge:
  "\<forall>sp. fetch sp \<noteq> Diverge \<Longrightarrow> collect_results fetch visited G st \<noteq> Diverge"
proof (induction G arbitrary: st)
  case (Cons sp G)
  then show ?case
    by (cases st) (auto simp: Let_def obind_eq_Diverge enqueue_no_diverge split: outcome.splits)
qed simp

lemma resolve_loop_returns:
  assumes fin: "finite {sp. reach fetch root sp}" and root: "store_path_ok root" and fair: "fair_sched sched"
    and conc: "0 < conc" and fetch: "\<forall>sp. fetch sp \<noteq> Diverge"
  shows "closure_inv fetch root V visited st \<Longrightarrow> pending fetch root V (fst st) < fuel \<Longrightarrow>
    resolve_loop fuel fetch sched expired conc timeout k visited st \<noteq> Diverge"
proof (induction fuel arbitrary: V k visited st)
  case (Suc fuel)
  obtain queue infos order where st: "st = (queue, infos, order)" by (cases st) auto
  show ?case
  proof (cases "queue = [] \<or> expired k")
    case True
    then show ?thesis by (auto simp: st)
  next
    case False
    let ?n = "min (length queue) conc"
    obtain v futures where b: "start_batch visited (take ?n queue) = (v, futures)" by fastforce
    have loop: "resolve_loop (Suc fuel) fetch sched expired conc timeout k visited st =
      obind (collect_results fetch v (sched k futures) (drop ?n queue, infos, order))
        (resolve_loop fuel fetch sched expired conc timeout (Suc k) v)"
      using False b by (simp add: st Let_def)
    have perm: "mset (sched k futures) = mset futures" using fair by (simp add: fair_sched_def)
    have "resolve_loop fuel fetch sched expired conc timeout (Suc k) v st' \<noteq> Diverge"
      if res: "collect_results fetch v (sched k futures) (drop ?n queue, infos, order) = Ok st'" for st'
    proof (rule Suc.IH)
      show "closure_inv fetch root (V \<union> set futures) v st'"
        using closure_inv_round[OF root _ b perm res] Suc.prems(1) by (simp add: st)
      have "pending fetch root (V \<union> set futures) (fst st') + ?n \<le> pending fetch root V queue"
        using pending_round[OF fin root _ b perm] res Suc.prems(1) by (cases st') (auto simp: st)
      moreover have "0 < ?n" using False conc by simp
      ultimately show "pending fetch root (V \<union> set futures) (fst st') < fuel"
        using Suc.prems(2) unfolding st fst_conv by linarith
    qed
    then show ?thesis
      unfolding loop using collect_no_diverge[OF fetch] by (auto simp: obind_eq_Diverge)
  qed
qed simp

definition refs_parse :: "nar_info \<Rightarrow> bool" where
  "refs_parse n \<longleftrightarrow> list_all (\<lambda>r. settled (store_path_parse (to_store_path_string r))) (references n)"

lemma enqueue_settled:
  "list_all (\<lambda>r. settled (store_path_parse (to_store_path_string r))) rs \<Longrightarrow> \<exists>q'. enqueue_refs visited rs q = Ok q'"
proof (induction rs arbitrary: q)
  case (Cons r rs)
  then show ?case by (auto simp: Let_def split: outcome.splits)
qed simp

lemma collect_succeeds:
  "\<forall>sp \<in> set G. \<exists>n. fetch sp = Ok n \<and> refs_parse n \<Longrightarrow> \<exists>st'. collect_results fetch visited G st = Ok st'"
proof (induction G arbitrary: st)
  case (Cons sp G)
  obtain q infos order where st: "st = (q, infos, order)" by (cases st) auto
  obtain n where n: "fetch sp = Ok n" "refs_parse n" using Cons.prems by auto
  then obtain q' where "enqueue_refs visited (references n) q = Ok q'"
    using enqueue_settled[of "references n" visited q] by (auto simp: refs_parse_def)
  then show ?case using Cons.IH Cons.prems n(1) by (simp add: st Let_def)
qed (metis collect_results.simps(1))

lemma resolve_loop_no_error:
  assumes root: "store_path_ok root" and fair: "fair_sched sched"
    and time: "\<forall>k. \<not> expired k" and fetch: "\<forall>sp. reach fetch root sp \<longrightarrow> (\<exists>n. fetch sp = Ok n \<and> refs_parse n)"
  shows "closure_inv fetch root V visited st \<Longrightarrow>
    resolve_loop fuel fetch sched expired conc timeout k visited st = Diverge \<or>
    (\<exists>c. resolve_loop fuel fetch sched expired conc timeout k visited st = Ok c)"
proof (induction fuel arbitrary: V k visited st)
  case (Suc fuel)
  obtain queue infos order where st: "st = (queue, infos, order)" by (cases st) auto
  show ?case
  proof (cases "queue = []")
    case False
    let ?n = "min (length queue) conc"
    obtain v futures where b: "start_batch visited (take ?n queue) = (v, futures)" by fastforce
    have perm: "mset (sched k futures) = mset futures" using fair by (simp add: fair_sched_def)
    then have "set (sched k futures) = set futures" by (metis set_mset_mset)
    moreover have "set futures \<subseteq> set queue" using start_batch_spec[OF b] set_take_subset by fastforce
    ultimately have "\<forall>sp \<in> set (sched k futures). \<exists>n. fetch sp = Ok n \<and> refs_parse n"
      using Suc.prems fetch by (auto simp: closure_inv_def st)
    then obtain st' where res: "collect_results fetch v (sched k futures) (drop ?n queue, infos, order) = Ok st'"
      using collect_succeeds by blast
    have "closure_inv fetch root (V \<union> set futures) v st'"
      using closure_inv_round[OF root _ b perm res] Suc.prems by (simp add: st)
    then show ?thesis using Suc.IH False time b res by (simp add: st Let_def)
  qed (simp add: st)
qed simp

section \<open>Use of the cache interface\<close>

text \<open>A cache client that serves well-formed narinfos only.\<close>

locale checked_cache_client = binary_cache_client fetch_narinfo fetch_nar fetch_narinfo_by_hash nar_info_ok
  for fetch_narinfo fetch_nar fetch_narinfo_by_hash
begin

lemma fetched_refs_parse: "fetch_narinfo sp = Ok n \<Longrightarrow> refs_parse n"
proof -
  assume "fetch_narinfo sp = Ok n"
  then have "nar_info_ok n" by (rule fetched_served)
  moreover have "settled (store_path_parse (STORE_DIR @ ''/'' @ basename p))" if "store_path_ok p" for p
    using path.parse_print[OF that] by (simp add: display_of_basename)
  ultimately show ?thesis
    by (auto simp: nar_info_ok_def refs_parse_def list_all_iff to_store_path_string_def)
qed

lemma resolves:
  assumes "finite {sp. reach fetch_narinfo root sp}" and root: "store_path_ok root"
    and fair: "fair_sched sched" and "0 < conc" and time: "\<forall>k. \<not> expired k"
    and no_div: "\<forall>sp. fetch_narinfo sp \<noteq> Diverge"
    and all: "\<forall>sp. reach fetch_narinfo root sp \<longrightarrow> (\<exists>n. fetch_narinfo sp = Ok n)"
    and fuel: "1 + sum (refs_of fetch_narinfo) {sp. reach fetch_narinfo root sp} < fuel"
  shows "\<exists>c. resolve_closure fuel fetch_narinfo sched expired conc timeout root = Ok c \<and>
    closure_correct fetch_narinfo root c"
proof -
  have "\<forall>sp. reach fetch_narinfo root sp \<longrightarrow> (\<exists>n. fetch_narinfo sp = Ok n \<and> refs_parse n)"
    using all fetched_refs_parse by blast
  then have "\<exists>c. resolve_closure fuel fetch_narinfo sched expired conc timeout root = Ok c"
    unfolding resolve_closure_def
    using resolve_loop_no_error[OF root fair time _ closure_inv_init]
      resolve_loop_returns[OF assms(1) root fair assms(4) no_div closure_inv_init] fuel
    by (simp add: pending_def) metis
  then show ?thesis
    unfolding resolve_closure_def using resolve_loop_sound[OF root fair closure_inv_init] by blast
qed

end

interpretation http_checked: checked_cache_client "fetch_narinfo_impl cr net cl" "fetch_nar_impl net cl"
    "fetch_narinfo_by_hash_impl cr net cl"
  by unfold_locales

section \<open>Errors and the degenerate configuration\<close>

lemma collect_error:
  "collect_results fetch visited G st = Err e \<Longrightarrow>
     \<exists>sp \<in> set G. \<exists>e'. fetch sp = Err e' \<and>
       e = ClosureResolution (''failed to resolve '' @ store_path_display sp @ '': '' @ niphas_error_display e')"
proof (induction G arbitrary: st)
  case (Cons sp G)
  obtain q infos order where st: "st = (q, infos, order)" by (cases st) auto
  have "enqueue_refs visited rs q \<noteq> Err e'" for rs q e'
    by (induction rs arbitrary: q) (auto simp: Let_def split: outcome.splits)
  then show ?case
    using Cons by (auto simp: st Let_def obind_eq_Err split: outcome.splits)
qed simp

lemma resolve_loop_error:
  assumes root: "store_path_ok root" and fair: "fair_sched sched"
  shows "closure_inv fetch root V visited st \<Longrightarrow>
    resolve_loop fuel fetch sched expired conc timeout k visited st = Err e \<Longrightarrow>
    (e = Timeout (''closure resolution timed out after '' @ u64_display timeout @ ''s'') \<and> (\<exists>j. expired j)) \<or>
    (\<exists>sp e'. reach fetch root sp \<and> fetch sp = Err e' \<and>
       e = ClosureResolution (''failed to resolve '' @ store_path_display sp @ '': '' @ niphas_error_display e'))"
proof (induction fuel arbitrary: V k visited st)
  case (Suc fuel)
  obtain queue infos order where st: "st = (queue, infos, order)" by (cases st) auto
  show ?case
  proof (cases "queue = [] \<or> expired k")
    case True
    then show ?thesis using Suc.prems(2) by (auto simp: st split: if_splits)
  next
    case False
    let ?n = "min (length queue) conc"
    obtain v futures where b: "start_batch visited (take ?n queue) = (v, futures)" by fastforce
    have perm: "mset (sched k futures) = mset futures" using fair by (simp add: fair_sched_def)
    have reach: "reach fetch root sp" if "sp \<in> set (sched k futures)" for sp
    proof -
      have "sp \<in> set futures" using that perm by (metis set_mset_mset)
      then have "sp \<in> set queue" using start_batch_spec[OF b] set_take_subset by fastforce
      then show ?thesis using Suc.prems(1) by (simp add: st closure_inv_def)
    qed
    consider "collect_results fetch v (sched k futures) (drop ?n queue, infos, order) = Err e"
      | st' where "collect_results fetch v (sched k futures) (drop ?n queue, infos, order) = Ok st'"
          "resolve_loop fuel fetch sched expired conc timeout (Suc k) v st' = Err e"
      using Suc.prems(2) False b by (auto simp: st Let_def obind_eq_Err)
    then show ?thesis
    proof cases
      case 1
      then show ?thesis using collect_error[OF 1] reach by blast
    next
      case (2 st')
      have "closure_inv fetch root (V \<union> set futures) v st'"
        using closure_inv_round[OF root _ b perm 2(1)] Suc.prems(1) by (simp add: st)
      then show ?thesis using Suc.IH 2(2) by blast
    qed
  qed
qed simp

lemma zero_concurrency_loop:
  assumes fair: "fair_sched sched" and "queue \<noteq> []"
  shows "resolve_loop fuel fetch sched expired 0 timeout k visited (queue, infos, order) =
    (if \<exists>j. k \<le> j \<and> j < k + fuel \<and> expired j
     then Err (Timeout (''closure resolution timed out after '' @ u64_display timeout @ ''s''))
     else Diverge)"
proof (induction fuel arbitrary: k)
  case (Suc fuel)
  have "sched k [] = []" using fair unfolding fair_sched_def by (metis mset_zero_iff)
  then have step: "resolve_loop (Suc fuel) fetch sched expired 0 timeout k visited (queue, infos, order) =
      (if expired k then Err (Timeout (''closure resolution timed out after '' @ u64_display timeout @ ''s''))
       else resolve_loop fuel fetch sched expired 0 timeout (Suc k) visited (queue, infos, order))"
    using assms(2) by simp
  have "(\<exists>j. k \<le> j \<and> j < k + Suc fuel \<and> expired j) \<longleftrightarrow>
      expired k \<or> (\<exists>j. Suc k \<le> j \<and> j < Suc k + fuel \<and> expired j)"
    by (metis Suc_leI add_Suc add_Suc_right le_neq_implies_less less_add_Suc1 order_refl Suc_leD)
  then show ?case
    unfolding step Suc.IH by (cases "expired k") (simp_all only: if_True if_False simp_thms)
qed simp

section \<open>A sample run\<close>

text \<open>A cache with one path that refers to itself.\<close>

definition sample_client :: fake_cache_client where
  "sample_client = add_narinfo sample_narinfo fake_new"

abbreviation sample_fetch :: "store_path \<Rightarrow> nar_info result" where
  "sample_fetch \<equiv> fake_fetch_narinfo sample_client"

lemma sample_fetch_root: "sample_fetch sample_store_path = Ok sample_narinfo"
  by (simp add: fake_fetch_narinfo_def sample_client_def add_narinfo_def sample_narinfo_def)

lemma sample_self: "to_store_path_string (StorePathRef (basename sample_store_path)) = store_path_display sample_store_path"
  by (simp add: to_store_path_string_def display_of_basename)

lemma sample_successor: "successor sample_fetch sample_store_path sp \<longleftrightarrow> sp = sample_store_path"
proof -
  have "references sample_narinfo = [StorePathRef (basename sample_store_path)]" by (simp add: sample_narinfo_def)
  then show ?thesis
    using path.parse_print[OF sample_path_ok]
    by (auto simp: successor_def sample_fetch_root sample_self)
qed

lemma sample_reach: "{sp. reach sample_fetch sample_store_path sp} = {sample_store_path}"
proof -
  have "reach sample_fetch sample_store_path sp \<Longrightarrow> sp = sample_store_path" for sp
    by (induction rule: reach.induct) (simp_all add: sample_successor)
  then show ?thesis using reach_root by blast
qed

lemma sample_run:
  "resolve_closure 2 sample_fetch (\<lambda>k xs. xs) (\<lambda>k. False) 4 60 sample_store_path =
     Ok \<lparr>narinfos = [(store_path_display sample_store_path, sample_narinfo)],
         paths = [store_path_display sample_store_path]\<rparr>"
proof -
  have "references sample_narinfo = [StorePathRef (basename sample_store_path)]" by (simp add: sample_narinfo_def)
  then show ?thesis
    by (simp add: resolve_closure_def sample_fetch_root sample_self eval_nat_numeral Let_def)
qed

text \<open>The same path behind an HTTP cache that answers every request with its narinfo.\<close>

definition sample_net :: http where
  "sample_net = \<lparr>http_get = (\<lambda>u. Response 200 (Ok (render_narinfo hex_encode sample_narinfo)) (Ok [])),
     status_text = (\<lambda>s. [])\<rparr>"

definition sample_http_client :: cache_client where
  "sample_http_client = \<lparr>client_caches = [\<lparr>cache_url = ''https://cache'', public_key = None, priority = 40\<rparr>]\<rparr>"

abbreviation sample_http_fetch :: "store_path \<Rightarrow> nar_info result" where
  "sample_http_fetch \<equiv> fetch_narinfo_impl hex_crypto sample_net sample_http_client"

lemma sample_http_fetch: "sample_http_fetch sp = Ok sample_narinfo"
  using nar_info_render_parse[OF hex_inverse sample_plain sample_ok]
  by (simp add: fetch_narinfo_impl_def sample_http_client_def sample_net_def is_success_def sample_narinfo_def)

lemma sample_http_reach: "{sp. reach sample_http_fetch sample_store_path sp} = {sample_store_path}"
proof -
  have same: "successor sample_http_fetch a b \<longleftrightarrow> successor sample_fetch sample_store_path b" for a b
    by (simp add: successor_def sample_http_fetch sample_fetch_root)
  have "reach sample_http_fetch sample_store_path sp \<Longrightarrow> sp = sample_store_path" for sp
    by (induction rule: reach.induct) (simp_all add: same sample_successor)
  then show ?thesis using reach_root by blast
qed

lemma in_order_fair: "fair_sched (\<lambda>k xs. xs)"
  by (simp add: fair_sched_def)

section \<open>Properties\<close>

text \<open>C3. A closure that is resolved is the right one, whatever the order in which the fetches
  complete, the concurrency and the deadline: its paths are exactly the texts of the store
  paths reachable from the root over references, each once, and its narinfos are exactly the fetched
  narinfo of each of them.\<close>

theorem closure_exact:
  assumes "store_path_ok root" and "fair_sched sched"
    and "resolve_closure fuel fetch sched expired conc timeout root = Ok c"
  shows "closure_correct fetch root c"
  using resolve_loop_sound[OF assms(1,2) closure_inv_init] assms(3) by (simp add: resolve_closure_def)

theorem closure_exact_witness:
  "closure_correct sample_fetch sample_store_path
     \<lparr>narinfos = [(store_path_display sample_store_path, sample_narinfo)],
      paths = [store_path_display sample_store_path]\<rparr>"
  using closure_exact[OF sample_path_ok in_order_fair sample_run] .

text \<open>C20. The search ends: with a finite closure and a positive concurrency, one round more than one
  plus the number of references in the closure is enough, whatever the schedule, the clock and the errors.\<close>

theorem closure_terminates:
  assumes "finite {sp. reach fetch root sp}" and "store_path_ok root" and "fair_sched sched" and "0 < conc"
    and "\<forall>sp. fetch sp \<noteq> Diverge" and "1 + sum (refs_of fetch) {sp. reach fetch root sp} < fuel"
  shows "resolve_closure fuel fetch sched expired conc timeout root \<noteq> Diverge"
  using resolve_loop_returns[OF assms(1-5) closure_inv_init] assms(6)
  by (simp add: resolve_closure_def pending_def)

theorem closure_terminates_witness:
  "resolve_closure 3 sample_fetch (\<lambda>k xs. xs) (\<lambda>k. False) 1 60 sample_store_path \<noteq> Diverge"
proof (rule closure_terminates)
  show "finite {sp. reach sample_fetch sample_store_path sp}" by (simp add: sample_reach)
  show "\<forall>sp. sample_fetch sp \<noteq> Diverge" by (simp add: fake_fetch_narinfo_def outcome_simps)
  show "1 + sum (refs_of sample_fetch) {sp. reach sample_fetch sample_store_path sp} < 3"
    unfolding sample_reach by (simp add: refs_of_def sample_fetch_root) (simp add: sample_narinfo_def)
qed (simp_all add: sample_path_ok in_order_fair)

text \<open>With the HTTP client, a closure whose every path is served by the caches is resolved: no
  reference that a cache can serve makes the search panic or skip.\<close>

theorem closure_http_resolves:
  assumes "finite {sp. reach (fetch_narinfo_impl cr net cl) root sp}" and "store_path_ok root"
    and "fair_sched sched" and "0 < conc" and "\<forall>k. \<not> expired k"
    and "\<forall>sp. fetch_narinfo_impl cr net cl sp \<noteq> Diverge"
    and "\<forall>sp. reach (fetch_narinfo_impl cr net cl) root sp \<longrightarrow> (\<exists>n. fetch_narinfo_impl cr net cl sp = Ok n)"
    and "1 + sum (refs_of (fetch_narinfo_impl cr net cl)) {sp. reach (fetch_narinfo_impl cr net cl) root sp} < fuel"
  shows "\<exists>c. resolve_closure fuel (fetch_narinfo_impl cr net cl) sched expired conc timeout root = Ok c \<and>
    closure_correct (fetch_narinfo_impl cr net cl) root c"
  using assms by (rule http_checked.resolves)

theorem closure_http_resolves_witness:
  "\<exists>c. resolve_closure 3 sample_http_fetch (\<lambda>k xs. xs) (\<lambda>k. False) 1 60 sample_store_path = Ok c \<and>
    closure_correct sample_http_fetch sample_store_path c"
proof (rule closure_http_resolves)
  show "1 + sum (refs_of sample_http_fetch) {sp. reach sample_http_fetch sample_store_path sp} < 3"
    unfolding sample_http_reach by (simp add: refs_of_def sample_http_fetch) (simp add: sample_narinfo_def)
qed (simp_all add: sample_http_reach sample_http_fetch sample_path_ok in_order_fair)

text \<open>An error of the search is the timeout, after a deadline has passed, or names a store
  path of the closure whose narinfo could not be fetched together with the reason.\<close>

theorem closure_errors:
  assumes "store_path_ok root" and "fair_sched sched"
    and "resolve_closure fuel fetch sched expired conc timeout root = Err e"
  shows "(e = Timeout (''closure resolution timed out after '' @ u64_display timeout @ ''s'') \<and> (\<exists>j. expired j)) \<or>
    (\<exists>sp e'. reach fetch root sp \<and> fetch sp = Err e' \<and>
       e = ClosureResolution (''failed to resolve '' @ store_path_display sp @ '': '' @ niphas_error_display e'))"
  using resolve_loop_error[OF assms(1,2) closure_inv_init] assms(3) by (simp add: resolve_closure_def)

theorem closure_errors_witness:
  "\<exists>sp e'. reach (fake_fetch_narinfo fake_new) sample_store_path sp \<and> fake_fetch_narinfo fake_new sp = Err e'"
  using closure_errors[OF sample_path_ok in_order_fair, of 1 "fake_fetch_narinfo fake_new" "\<lambda>k. False" 1 60]
  by (auto simp: resolve_closure_def fake_fetch_narinfo_def fake_new_def)

text \<open>With a concurrency of zero the search makes no progress: it spins until the first round
  at which the deadline has passed and then reports the timeout, and never returns before that.\<close>

theorem closure_zero_concurrency:
  assumes "fair_sched sched"
  shows "resolve_closure fuel fetch sched expired 0 timeout root =
    (if \<exists>k < fuel. expired k
     then Err (Timeout (''closure resolution timed out after '' @ u64_display timeout @ ''s''))
     else Diverge)"
  using zero_concurrency_loop[OF assms, of "[root]" fuel fetch expired timeout 0 "{}" "[]" "[]"]
  by (simp add: resolve_closure_def)

theorem closure_zero_concurrency_witness:
  "resolve_closure 100 sample_fetch (\<lambda>k xs. xs) (\<lambda>k. False) 0 60 sample_store_path = Diverge"
  using closure_zero_concurrency[OF in_order_fair, of 100 sample_fetch "\<lambda>k. False" 60 sample_store_path] by simp

end
