(* ===== verification/Evaluator.thy ===== *)
theory Evaluator
  imports Eval_Request Allowlist Closure
begin

text \<open>
  The evaluation service (src/crates/niphas-eval/src/): the evaluator (evaluator.rs) and
  the HTTP handlers (handlers.rs, routes of lib.rs).

  The subprocess \<open>nix eval\<close> is the argument \<open>run_nix\<close>, from the argument vector to what \<open>tokio\<close>
  reports of it within the timeout: that the time ran out, that the process could not be run, or
  its status with its two outputs, decoded by \<open>from_utf8_lossy\<close>. The decoder of the JSON output
  (serde_json) is the argument \<open>parse_output\<close>. The arguments of the closure search are those of
  \<open>resolve_closure\<close>. Logging is left out.
\<close>

section \<open>Definitions\<close>

record evaluator =
  ev_config :: niphas_config
  ev_cache_client :: cache_client
  warm :: bool

definition evaluator_new :: "unit option \<Rightarrow> string \<Rightarrow> niphas_config \<Rightarrow> evaluator result" where
  "evaluator_new built build_error config =
     obind (cache_client_new built build_error (binary_caches config)) (\<lambda>client.
     Ok \<lparr>ev_config = config, ev_cache_client = client, warm = False\<rparr>)"

definition is_warm :: "evaluator \<Rightarrow> bool" where
  "is_warm ev = warm ev"

record nix_eval_result =
  er_store_path :: string
  er_name :: string
  er_main_program :: "string option"

datatype nix_run = TimedOut | SpawnFailed string | Exited (exit_success: bool) (stdout: string) (stderr: string)

text \<open>What the evaluator uses of the world: the nix command, the JSON decoder, the network.\<close>

record 'k eval_env =
  run_nix :: "string list \<Rightarrow> nix_run"
  parse_output :: "string \<Rightarrow> (string, nix_eval_result) outcome"
  env_crypto :: "'k crypto"
  env_net :: http
  env_sched :: "nat \<Rightarrow> store_path list \<Rightarrow> store_path list"
  env_expired :: "nat \<Rightarrow> bool"
  env_fuel :: nat

definition nix_expr :: "string \<Rightarrow> string \<Rightarrow> string" where
  "nix_expr pinned_ref att =
     ''let drv = (builtins.getFlake '' @ [CHR 0x22] @ pinned_ref @ [CHR 0x22] @ '').'' @ att @
     ''; in builtins.toJSON {'' @ [CHR 0x0A] @
     ''                outPath = drv.outPath;'' @ [CHR 0x0A] @
     ''                name = drv.name;'' @ [CHR 0x0A] @
     ''                mainProgram = drv.meta.mainProgram or null;'' @ [CHR 0x0A] @
     ''            }''"

definition nix_args :: "string \<Rightarrow> string list" where
  "nix_args expr = [''eval'', ''--raw'', ''--expr'', expr,
     ''--extra-experimental-features'', ''nix-command flakes'']"

definition nix_eval :: "'k eval_env \<Rightarrow> string \<Rightarrow> string \<Rightarrow> (app_error, nix_eval_result) outcome" where
  "nix_eval env pinned_ref att =
     (case run_nix env (nix_args (nix_expr pinned_ref att)) of
        TimedOut \<Rightarrow> Err AppEvalTimeout
      | SpawnFailed e \<Rightarrow> Err (EvalFailed (''failed to run nix eval: '' @ e))
      | Exited ok out err \<Rightarrow>
          if \<not> ok then Err (EvalFailed (''nix eval failed: '' @ err))
          else omap_err (\<lambda>e. EvalFailed (''failed to parse nix eval output: '' @ e)) (parse_output env out))"

definition pin_ref :: "eval_request \<Rightarrow> string" where
  "pin_ref req = (case revision req of Some sha \<Rightarrow> flake_ref req @ ''/'' @ sha | None \<Rightarrow> flake_ref req)"

text \<open>The steps of \<open>evaluate\<close>, each left with the question-mark operator, and \<open>evaluate\<close> itself: the result and the
  evaluator afterwards, whose flag is set on success.\<close>

definition evaluate_steps ::
  "'k eval_env \<Rightarrow> evaluator \<Rightarrow> eval_request \<Rightarrow> (app_error, eval_response) outcome" where
  "evaluate_steps env ev req =
     obind (omap_err app_error_from (validate_eval_request req)) (\<lambda>_.
     obind (validate_flake_origin (flake_ref req) (allowed_flake_origins (ev_config ev))) (\<lambda>_.
     obind (nix_eval env (pin_ref req) (attribute req)) (\<lambda>er.
     obind (omap_err (\<lambda>e. Internal (''invalid store path from eval: '' @ niphas_error_display e))
              (store_path_parse (er_store_path er))) (\<lambda>root.
     obind (omap_err (\<lambda>e. ClosureResolutionFailed (niphas_error_display e))
              (resolve_closure (env_fuel env)
                 (fetch_narinfo_impl (env_crypto env) (env_net env) (ev_cache_client ev))
                 (env_sched env) (env_expired env)
                 (concurrency (closure_resolution (ev_config ev)))
                 (closure_timeout (closure_resolution (ev_config ev))) root)) (\<lambda>resolved.
     Ok \<lparr>resp_store_path = er_store_path er, resp_name = er_name er,
         main_program = er_main_program er, closure_paths = paths resolved\<rparr>)))))"

definition evaluate ::
  "'k eval_env \<Rightarrow> evaluator \<Rightarrow> eval_request \<Rightarrow> (app_error, eval_response) outcome \<times> evaluator" where
  "evaluate env ev req =
     (case evaluate_steps env ev req of
        Ok resp \<Rightarrow> (Ok resp, ev\<lparr>warm := True\<rparr>)
      | failed \<Rightarrow> (failed, ev))"

subsection \<open>Handlers\<close>

datatype http_body = EvalBody eval_response | ErrorBody error_response | NoBody

definition evaluate_handler ::
  "'k eval_env \<Rightarrow> evaluator \<Rightarrow> eval_request \<Rightarrow> (app_error, nat \<times> http_body) outcome \<times> evaluator" where
  "evaluate_handler env ev req =
     (case evaluate env ev req of
        (Ok resp, ev') \<Rightarrow> (Ok (200, EvalBody resp), ev')
      | (Err e, ev') \<Rightarrow> (case into_response e of (st, b) \<Rightarrow> (Ok (st, ErrorBody b), ev'))
      | (Panic, ev') \<Rightarrow> (Panic, ev')
      | (Diverge, ev') \<Rightarrow> (Diverge, ev'))"

definition healthz :: nat where
  "healthz = 200"

definition readyz :: "evaluator \<Rightarrow> nat" where
  "readyz ev = (if is_warm ev then 200 else 503)"

section \<open>The specification\<close>

text \<open>A request that the service may act on: its fields are in the documented languages and a pattern of
  the allowlist matches its flake reference.\<close>

definition in_grammar :: "eval_request \<Rightarrow> bool" where
  "in_grammar req \<longleftrightarrow> flake_ref_grammar (flake_ref req) \<and> attribute_grammar (attribute req) \<and>
     pred_option revision_grammar (revision req)"

definition on_allowlist :: "evaluator \<Rightarrow> eval_request \<Rightarrow> bool" where
  "on_allowlist ev req \<longleftrightarrow>
     (\<exists>pat \<in> set (allowed_flake_origins (ev_config ev)). glob (chars pat) (flake_ref req))"

text \<open>How the Nix language reads a string literal after its opening quote: up to the next quote.
  A backslash, which starts an escape, and a dollar sign, which may start an antiquotation, are
  given up on: a text with neither is read as itself.\<close>

fun nix_string :: "string \<Rightarrow> (string \<times> string) option" where
  "nix_string [] = None"
| "nix_string (c # s) =
     (if c = CHR 0x22 then Some ([], s)
      else if c = CHR 0x5C \<or> c = CHR ''$'' then None
      else map_option (\<lambda>(lit, r). (c # lit, r)) (nix_string s))"

text \<open>The characters that an attribute path of identifiers can have.\<close>

definition attr_path_char :: "char \<Rightarrow> bool" where
  "attr_path_char c \<longleftrightarrow> letter c \<or> digit c \<or> c \<in> set ''_-.''"

text \<open>A run of the service over requests, each with the world it meets.\<close>

fun serve :: "evaluator \<Rightarrow> ('k eval_env \<times> eval_request) list \<Rightarrow>
    (app_error, nat \<times> http_body) outcome list \<times> evaluator" where
  "serve ev [] = ([], ev)"
| "serve ev ((env, req) # calls) =
     (case evaluate_handler env ev req of (r, ev1) \<Rightarrow>
      case serve ev1 calls of (rs, ev2) \<Rightarrow> (r # rs, ev2))"

section \<open>Lemmas\<close>

lemma class_ascii: "letter c \<or> digit c \<Longrightarrow> (of_char c :: nat) < 128"
  by (auto simp: letter_def digit_def Let_def)

lemma class_ascii_list:
  "\<forall>c \<in> set extra. (of_char c :: nat) < 128 \<Longrightarrow>
     list_all (\<lambda>x. letter x \<or> digit x \<or> x \<in> set extra) s \<Longrightarrow> is_ascii s"
  using class_ascii by (fastforce simp: list_all_iff is_ascii_def)

lemma flake_ref_ascii: "flake_ref_grammar fr \<Longrightarrow> is_ascii fr"
proof -
  assume "flake_ref_grammar fr"
  then obtain c cs p where fr: "fr = (c # cs) @ '':'' @ p" "letter c"
      "list_all (\<lambda>x. letter x \<or> digit x \<or> x \<in> set ''+-.'') cs"
      "list_all (\<lambda>x. letter x \<or> digit x \<or> x \<in> set ''/_-.@:#+?=&~'') p"
    unfolding flake_ref_grammar_def by blast
  have "is_ascii cs" by (rule class_ascii_list[OF _ fr(3)]) simp
  moreover have "is_ascii p" by (rule class_ascii_list[OF _ fr(4)]) simp
  ultimately show ?thesis using fr(1,2) class_ascii[of c] by simp
qed

lemma validate_request: "validate_eval_request req = Ok () \<longleftrightarrow> in_grammar req"
  by (simp add: validate_eval_request_Ok in_grammar_def)

lemma settled_unit: "settled m \<Longrightarrow> m = Ok () \<or> (\<exists>e. m = Err e)"
  by (auto simp: settled_iff)

lemma origin_allowed:
  assumes "in_grammar req"
  shows "validate_flake_origin (flake_ref req) (allowed_flake_origins (ev_config ev)) = Ok () \<longleftrightarrow> on_allowlist ev req"
    and "\<not> on_allowlist ev req \<Longrightarrow>
      \<exists>m. validate_flake_origin (flake_ref req) (allowed_flake_origins (ev_config ev)) = Err (AppFlakeNotAllowed m)"
  using allowlist_loop_ascii[OF flake_ref_ascii, of "flake_ref req"] assms
  by (auto simp: validate_flake_origin_def on_allowlist_def in_grammar_def)

text \<open>Every error of the validation is an \<open>InvalidInput\<close>.\<close>

lemma segments_error: "validate_segments att segs = Err e \<Longrightarrow> \<exists>m. e = InvalidInput m"
  by (induction segs) (auto split: if_splits list.splits option.splits)

lemma validate_error: "validate_eval_request req = Err e \<Longrightarrow> \<exists>m. e = InvalidInput m"
  unfolding validate_eval_request_def obind_eq_Err
  by (auto simp: validate_flake_ref_def validate_attribute_def validate_revision_def
      dest: segments_error split: if_splits option.splits prod.splits)

lemma invalid_request:
  assumes "\<not> in_grammar req"
  shows "\<exists>m. validate_eval_request req = Err (InvalidInput m)"
  using settled_unit[OF validate_settled[of req]] assms validate_request validate_error by blast

lemma evaluate_invalid:
  "\<not> in_grammar req \<Longrightarrow> \<exists>m. evaluate env ev req = (Err (AppInvalidInput m), ev)"
  using invalid_request[of req] by (auto simp: evaluate_def evaluate_steps_def)

lemma evaluate_forbidden:
  "in_grammar req \<Longrightarrow> \<not> on_allowlist ev req \<Longrightarrow> \<exists>m. evaluate env ev req = (Err (AppFlakeNotAllowed m), ev)"
  using validate_request[of req] origin_allowed(2)[of req ev] by (auto simp: evaluate_def evaluate_steps_def)

text \<open>The errors after the two checks.\<close>

definition late_error :: "app_error \<Rightarrow> bool" where
  "late_error e \<longleftrightarrow> (case e of EvalFailed _ \<Rightarrow> True | AppEvalTimeout \<Rightarrow> True | Internal _ \<Rightarrow> True
     | ClosureResolutionFailed _ \<Rightarrow> True | _ \<Rightarrow> False)"

lemma nix_eval_error: "nix_eval env p a = Err e \<Longrightarrow> late_error e"
  by (auto simp: nix_eval_def late_error_def omap_err_eq_Err split: nix_run.splits if_splits)

lemma evaluate_fst: "fst (evaluate env ev req) = evaluate_steps env ev req"
  by (simp add: evaluate_def split: outcome.split)

lemma evaluate_warm: "warm (snd (evaluate env ev req)) \<longleftrightarrow> warm ev \<or> (\<exists>resp. evaluate_steps env ev req = Ok resp)"
  by (simp add: evaluate_def split: outcome.split)

lemma evaluate_late:
  assumes "in_grammar req" "on_allowlist ev req" "evaluate_steps env ev req = Err e"
  shows "late_error e"
proof -
  have "validate_eval_request req = Ok ()"
    "validate_flake_origin (flake_ref req) (allowed_flake_origins (ev_config ev)) = Ok ()"
    using assms validate_request origin_allowed by blast+
  then consider "nix_eval env (pin_ref req) (attribute req) = Err e" | "\<exists>m. e = Internal m" | "\<exists>m. e = ClosureResolutionFailed m"
    using assms(3) by (auto simp: evaluate_steps_def obind_eq_Err omap_err_eq_Err)
  then show ?thesis by cases (auto simp: late_error_def dest: nix_eval_error)
qed

lemma late_status: "late_error e \<Longrightarrow> fst (into_response e) \<in> {408, 422, 500, 502}"
  by (cases e) (auto simp: late_error_def)

lemma evaluate_Ok:
  assumes "evaluate env ev req = (Ok resp, ev')"
  shows "in_grammar req" "on_allowlist ev req" "warm ev'"
    and "\<exists>root c. store_path_parse (resp_store_path resp) = Ok root \<and> closure_paths resp = paths c \<and>
      resolve_closure (env_fuel env) (fetch_narinfo_impl (env_crypto env) (env_net env) (ev_cache_client ev))
        (env_sched env) (env_expired env) (concurrency (closure_resolution (ev_config ev)))
        (closure_timeout (closure_resolution (ev_config ev))) root = Ok c"
proof -
  show "in_grammar req" using assms evaluate_invalid[of req env ev] by fastforce
  then show "on_allowlist ev req" using assms evaluate_forbidden[of req ev env] by fastforce
qed (use assms in \<open>auto simp: evaluate_def evaluate_steps_def outcome_simps split: outcome.splits\<close>)

lemma nix_string_plain:
  "\<forall>c \<in> set lit. c \<notin> {CHR 0x22, CHR 0x5C, CHR ''$''} \<Longrightarrow> nix_string (lit @ CHR 0x22 # s) = Some (lit, s)"
  by (induction lit) auto

lemma class_not_special: "letter c \<or> digit c \<Longrightarrow> c \<notin> {CHR 0x22, CHR 0x5C, CHR ''$''}"
  by (auto simp: letter_def digit_def)

lemma hex_digit_class: "hex_digit c \<Longrightarrow> letter c \<or> digit c"
  by (auto simp: hex_digit_def letter_def digit_def Let_def)

lemma flake_ref_plain: "flake_ref_grammar fr \<Longrightarrow> c \<in> set fr \<Longrightarrow> c \<notin> {CHR 0x22, CHR 0x5C, CHR ''$''}"
  unfolding flake_ref_grammar_def using class_not_special by (fastforce simp: list_all_iff)

lemma pin_ref_plain:
  assumes "in_grammar req" "c \<in> set (pin_ref req)"
  shows "c \<notin> {CHR 0x22, CHR 0x5C, CHR ''$''}"
proof (cases "c \<in> set (flake_ref req)")
  case True
  then show ?thesis using assms(1) flake_ref_plain[of "flake_ref req" c] by (auto simp: in_grammar_def)
next
  case False
  then have "c = CHR ''/'' \<or> hex_digit c"
    using assms by (auto simp: pin_ref_def in_grammar_def revision_grammar_def list_all_iff split: option.splits)
  then show ?thesis using hex_digit_class class_not_special by fastforce
qed

lemma join_chars: "c \<in> set (join sep xs) \<Longrightarrow> c \<in> set sep \<or> (\<exists>x \<in> set xs. c \<in> set x)"
  by (induction sep xs rule: join.induct) auto

lemma attribute_plain: "attribute_grammar att \<Longrightarrow> list_all attr_path_char att"
  unfolding attribute_grammar_def attribute_segment_def
  by (fastforce simp: list_all_iff attr_path_char_def dest: join_chars)

lemma into_response_status: "fst (into_response e) \<in> {400, 403, 404, 408, 422, 500, 502}"
  by (cases e) simp_all

lemma handler_eq:
  "evaluate_handler env ev req =
     (case evaluate_steps env ev req of
        Ok resp \<Rightarrow> (Ok (200, EvalBody resp), ev\<lparr>warm := True\<rparr>)
      | Err e \<Rightarrow> (Ok (fst (into_response e), ErrorBody (snd (into_response e))), ev)
      | Panic \<Rightarrow> (Panic, ev) | Diverge \<Rightarrow> (Diverge, ev))"
  by (simp add: evaluate_handler_def evaluate_def split: outcome.split prod.split)

lemma handler_warm:
  "evaluate_handler env ev req = (r, ev1) \<Longrightarrow> warm ev1 \<longleftrightarrow> warm ev \<or> (\<exists>b. r = Ok (200, b))"
proof (cases "evaluate_steps env ev req")
  case (Err e)
  assume "evaluate_handler env ev req = (r, ev1)"
  moreover have "fst (into_response e) \<noteq> 200" using into_response_status[of e] by auto
  ultimately show ?thesis using Err by (auto simp: handler_eq)
qed (auto simp: handler_eq)

lemma readyz_200: "readyz ev = 200 \<longleftrightarrow> warm ev"
  by (simp add: readyz_def is_warm_def)

lemma serve_ready:
  "readyz (snd (serve ev calls)) = 200 \<longleftrightarrow>
     readyz ev = 200 \<or> (\<exists>b. Ok (200, b) \<in> set (fst (serve ev calls)))"
proof (induction calls arbitrary: ev)
  case (Cons call calls)
  obtain env req where call: "call = (env, req)" by (cases call)
  obtain r ev1 where step: "evaluate_handler env ev req = (r, ev1)" by fastforce
  have "warm ev1 \<longleftrightarrow> warm ev \<or> (\<exists>b. r = Ok (200, b))"
    using step by (rule handler_warm)
  then show ?case using Cons.IH[of ev1] step
    by (auto simp: call readyz_200 split: prod.splits)
qed simp

section \<open>A sample run\<close>

text \<open>A nix command that always finds the sample store path, and the cache that serves it.\<close>

definition sample_env :: "unit eval_env" where
  "sample_env =
     \<lparr>run_nix = (\<lambda>args. Exited True [] []),
      parse_output = (\<lambda>out. Ok \<lparr>er_store_path = store_path_display sample_store_path, er_name = ''hello'',
        er_main_program = None\<rparr>),
      env_crypto = hex_crypto, env_net = sample_net, env_sched = (\<lambda>k xs. xs), env_expired = (\<lambda>k. False),
      env_fuel = 3\<rparr>"

definition sample_evaluator :: evaluator where
  "sample_evaluator =
     \<lparr>ev_config = default_config\<lparr>allowed_flake_origins := [''github:o/*'']\<rparr>,
      ev_cache_client = sample_http_client, warm = False\<rparr>"

definition sample_request :: eval_request where
  "sample_request = \<lparr>flake_ref = ''github:o/r'', attribute = ''packages.default'', revision = Some ''abc123'',
     binary_cache = None\<rparr>"

lemma sample_in_grammar: "in_grammar sample_request"
proof -
  have "flake_ref_grammar ''github:o/r''"
    unfolding flake_ref_grammar_def
    by (intro exI[of _ "CHR ''g''"] exI[of _ "''ithub''"] exI[of _ "''o/r''"]) (simp add: letter_def)
  moreover have "attribute_grammar ''packages.default''"
    unfolding attribute_grammar_def
    by (intro exI[of _ "[''packages'', ''default'']"]) (simp add: attribute_segment_def letter_def)
  moreover have "revision_grammar ''abc123''"
    by (simp add: revision_grammar_def hex_digit_def digit_def)
  ultimately show ?thesis by (simp add: in_grammar_def sample_request_def)
qed

lemma sample_on_allowlist: "on_allowlist sample_evaluator sample_request"
proof -
  have "chars ''github:o/*'' = map (\<lambda>c. [c]) ''github:o/*''" by (rule chars_ascii) simp
  then have "glob (chars ''github:o/*'') ''github:o/r''" by (auto simp: glob_simps simp del: chars.simps)
  then show ?thesis by (simp add: on_allowlist_def sample_evaluator_def sample_request_def del: chars.simps)
qed

lemma sample_resolves:
  "\<exists>c. resolve_closure 3 sample_http_fetch (\<lambda>k xs. xs) (\<lambda>k. False) 32 60 sample_store_path = Ok c"
proof -
  have "\<exists>c. resolve_closure 3 sample_http_fetch (\<lambda>k xs. xs) (\<lambda>k. False) 32 60 sample_store_path = Ok c \<and>
      closure_correct sample_http_fetch sample_store_path c"
  proof (rule http_checked.resolves)
    show "1 + sum (refs_of sample_http_fetch) {sp. reach sample_http_fetch sample_store_path sp} < 3"
      unfolding sample_http_reach by (simp add: refs_of_def sample_http_fetch) (simp add: sample_narinfo_def)
  qed (simp_all add: sample_http_reach sample_http_fetch sample_path_ok in_order_fair)
  then show ?thesis by blast
qed

lemma sample_evaluate: "\<exists>resp ev'. evaluate sample_env sample_evaluator sample_request = (Ok resp, ev')"
proof -
  obtain c where "resolve_closure 3 sample_http_fetch (\<lambda>k xs. xs) (\<lambda>k. False) 32 60 sample_store_path = Ok c"
    using sample_resolves by blast
  moreover have "validate_eval_request sample_request = Ok ()" using sample_in_grammar by (simp add: validate_request)
  moreover have "validate_flake_origin (flake_ref sample_request) (allowed_flake_origins (ev_config sample_evaluator)) = Ok ()"
    using sample_in_grammar sample_on_allowlist origin_allowed(1) by blast
  moreover have "store_path_parse (store_path_display sample_store_path) = Ok sample_store_path"
    using sample_path_ok by (rule path.parse_print)
  ultimately show ?thesis
    by (simp add: evaluate_def evaluate_steps_def nix_eval_def sample_env_def sample_evaluator_def default_config_def
        default_closure_resolution_config_def)
qed

section \<open>Properties\<close>

text \<open>C4. The nix command is run for permitted requests only, and then with one command line: replacing the
  command by any other that agrees on that command line, where the request is in the grammar and on
  the allowlist, changes nothing.\<close>

theorem evaluate_nix_only_when_permitted:
  assumes "in_grammar req \<Longrightarrow> on_allowlist ev req \<Longrightarrow>
     f (nix_args (nix_expr (pin_ref req) (attribute req))) = run_nix env (nix_args (nix_expr (pin_ref req) (attribute req)))"
  shows "evaluate (env\<lparr>run_nix := f\<rparr>) ev req = evaluate env ev req"
proof -
  have "evaluate_steps (env\<lparr>run_nix := f\<rparr>) ev req = evaluate_steps env ev req"
  proof (cases "in_grammar req \<and> on_allowlist ev req")
    case True
    then have "nix_eval (env\<lparr>run_nix := f\<rparr>) (pin_ref req) (attribute req) = nix_eval env (pin_ref req) (attribute req)"
      using assms by (simp add: nix_eval_def split: nix_run.split)
    then show ?thesis by (simp add: evaluate_steps_def)
  next
    case False
    then show ?thesis
      using invalid_request[of req] origin_allowed(2)[of req ev] validate_request[of req]
      by (cases "in_grammar req") (auto simp: evaluate_steps_def)
  qed
  then show ?thesis by (simp add: evaluate_def)
qed

theorem evaluate_nix_only_when_permitted_witness:
  "evaluate (sample_env\<lparr>run_nix := (\<lambda>args. if length args = 6 then Exited True [] [] else TimedOut)\<rparr>)
     sample_evaluator sample_request = evaluate sample_env sample_evaluator sample_request"
  by (rule evaluate_nix_only_when_permitted) (simp add: sample_env_def nix_args_def)

text \<open>C13. No injection through the flake reference or the attribute: in the expression for a request in the
  grammar, the Nix string literal after the opening quote is the pinned reference, character by character, and
  what follows it is the attribute path of plain identifiers and then the rest of the fixed text.\<close>

theorem nix_expr_no_injection:
  assumes "in_grammar req"
  shows "\<exists>after.
    nix_string (drop (Suc (length ''let drv = (builtins.getFlake '')) (nix_expr (pin_ref req) (attribute req))) =
      Some (pin_ref req, '').'' @ attribute req @ CHR '';'' # after) \<and>
    takeWhile attr_path_char (attribute req @ CHR '';'' # after) = attribute req"
proof -
  have "nix_string (pin_ref req @ CHR 0x22 # s) = Some (pin_ref req, s)" for s
    by (rule nix_string_plain) (use pin_ref_plain[OF assms] in blast)
  moreover have "takeWhile attr_path_char (attribute req @ CHR '';'' # s) = attribute req" for s
    using attribute_plain[of "attribute req"] assms
    by (subst takeWhile_append2) (auto simp: in_grammar_def list_all_iff attr_path_char_def letter_def digit_def)
  ultimately show ?thesis by (simp add: nix_expr_def)
qed

theorem nix_expr_no_injection_witness:
  "\<exists>after.
    nix_string (drop (Suc (length ''let drv = (builtins.getFlake '')) (nix_expr (pin_ref sample_request) (attribute sample_request))) =
      Some (pin_ref sample_request, '').'' @ attribute sample_request @ CHR '';'' # after) \<and>
    takeWhile attr_path_char (attribute sample_request @ CHR '';'' # after) = attribute sample_request"
  by (rule nix_expr_no_injection) (rule sample_in_grammar)

text \<open>C24. What a successful evaluation answers: the request was permitted, the store path parses, and the
  closure paths are the texts of exactly the store paths that the binary caches' narinfos reach from it, the
  store path itself among them, without repetition; the service is ready afterwards.\<close>

theorem evaluate_exact:
  assumes "evaluate env ev req = (Ok resp, ev')" and "fair_sched (env_sched env)"
  shows "in_grammar req \<and> on_allowlist ev req \<and> readyz ev' = 200 \<and>
    (\<exists>root. store_path_parse (resp_store_path resp) = Ok root \<and>
       set (closure_paths resp) = store_path_display `
         {sp. reach (fetch_narinfo_impl (env_crypto env) (env_net env) (ev_cache_client ev)) root sp} \<and>
       resp_store_path resp \<in> set (closure_paths resp) \<and> distinct (closure_paths resp))"
proof -
  let ?fetch = "fetch_narinfo_impl (env_crypto env) (env_net env) (ev_cache_client ev)"
  obtain root c where root: "store_path_parse (resp_store_path resp) = Ok root" and c: "closure_paths resp = paths c"
    and res: "resolve_closure (env_fuel env) ?fetch (env_sched env) (env_expired env)
      (concurrency (closure_resolution (ev_config ev))) (closure_timeout (closure_resolution (ev_config ev))) root = Ok c"
    using evaluate_Ok(4)[OF assms(1)] by blast
  have "closure_correct ?fetch root c"
    using resolve_loop_sound[OF path.parse_valid[OF root] assms(2) closure_inv_init] res
    by (simp add: resolve_closure_def)
  moreover have "store_path_display root = resp_store_path resp" using root by (rule path.print_parse)
  ultimately have "set (closure_paths resp) = store_path_display ` {sp. reach ?fetch root sp} \<and>
      resp_store_path resp \<in> set (closure_paths resp) \<and> distinct (closure_paths resp)"
    using imageI[of root "{sp. reach ?fetch root sp}" store_path_display] reach_root[of ?fetch root] c
    by (simp add: closure_correct_def)
  then show ?thesis using evaluate_Ok(1-3)[OF assms(1)] root readyz_200 by blast
qed

theorem evaluate_exact_witness:
  "\<exists>resp ev' root. evaluate sample_env sample_evaluator sample_request = (Ok resp, ev') \<and> readyz ev' = 200 \<and>
     store_path_parse (resp_store_path resp) = Ok root \<and> resp_store_path resp \<in> set (closure_paths resp)"
proof -
  obtain resp ev' where "evaluate sample_env sample_evaluator sample_request = (Ok resp, ev')"
    using sample_evaluate by blast
  moreover have "fair_sched (env_sched sample_env)" using in_order_fair by (simp add: sample_env_def)
  ultimately show ?thesis using evaluate_exact[of sample_env sample_evaluator sample_request resp ev'] by blast
qed

text \<open>The status of the answer: 400 exactly for requests outside the grammar, 403 exactly for requests in the
  grammar that no pattern of the allowlist matches; every other answer is 200 or one of 408, 422, 500
  and 502.\<close>

theorem evaluate_status:
  "((\<exists>b. fst (evaluate_handler env ev req) = Ok (400, b)) \<longleftrightarrow> \<not> in_grammar req) \<and>
   ((\<exists>b. fst (evaluate_handler env ev req) = Ok (403, b)) \<longleftrightarrow> in_grammar req \<and> \<not> on_allowlist ev req) \<and>
   (case fst (evaluate_handler env ev req) of
      Ok (st, b) \<Rightarrow> st \<in> {200, 400, 403, 408, 422, 500, 502} | Err _ \<Rightarrow> False | _ \<Rightarrow> True)"
proof (cases "in_grammar req \<and> on_allowlist ev req")
  case True
  show ?thesis
  proof (cases "evaluate_steps env ev req")
    case (Err e)
    then have "fst (into_response e) \<in> {408, 422, 500, 502}" using True evaluate_late late_status by blast
    then show ?thesis using True Err by (auto simp: handler_eq)
  qed (use True in \<open>auto simp: handler_eq\<close>)
next
  case False
  consider (invalid) m where "\<not> in_grammar req" "evaluate_steps env ev req = Err (AppInvalidInput m)"
    | (forbidden) m where "in_grammar req" "evaluate_steps env ev req = Err (AppFlakeNotAllowed m)"
    using False evaluate_invalid[of req env ev] evaluate_forbidden[of req ev env] evaluate_fst[of env ev req]
    by (metis fst_conv)
  then show ?thesis using False by cases (simp_all add: handler_eq)
qed

text \<open>The readiness probe says 200 exactly after a successful evaluation: over every sequence of requests,
  whatever they meet, a fresh evaluator is ready at the end if and only if one of its answers was 200.\<close>

theorem ready_iff_evaluated:
  assumes "evaluator_new built build_error config = Ok ev"
  shows "readyz (snd (serve ev calls)) = 200 \<longleftrightarrow> (\<exists>b. Ok (200, b) \<in> set (fst (serve ev calls)))"
proof -
  have "\<not> warm ev" using assms by (auto simp: evaluator_new_def obind_eq_Ok)
  then show ?thesis using serve_ready[of ev calls] readyz_200[of ev] by blast
qed

theorem ready_iff_evaluated_witness:
  "\<exists>ev. evaluator_new (Some ()) [] default_config = Ok ev \<and>
     (readyz (snd (serve ev [(sample_env, sample_request)])) = 200 \<longleftrightarrow>
      (\<exists>b. Ok (200, b) \<in> set (fst (serve ev [(sample_env, sample_request)]))))"
proof -
  obtain ev where "evaluator_new (Some ()) [] default_config = Ok ev"
    by (simp add: evaluator_new_def cache_client_new_def)
  then show ?thesis using ready_iff_evaluated by blast
qed

end
