(* ===== verification/Effects.thy ===== *)
theory Effects
  imports Niphas_Error
begin

text \<open>
  Programs with a state: an \<open>('s, 'e, 'a) prog\<close> takes the state of the world to an outcome and the
  state it leaves. Unlike an outcome of a state, the state is there after an error too, which is what the
  error paths of the code are about.
\<close>

type_synonym ('s, 'e, 'a) prog = "'s \<Rightarrow> ('e, 'a) outcome \<times> 's"

definition pret :: "'a \<Rightarrow> ('s, 'e, 'a) prog" where
  "pret x = (\<lambda>s. (Ok x, s))"

definition pfail :: "'e \<Rightarrow> ('s, 'e, 'a) prog" where
  "pfail e = (\<lambda>s. (Err e, s))"

text \<open>The question-mark operator.\<close>

definition pbind :: "('s, 'e, 'a) prog \<Rightarrow> ('a \<Rightarrow> ('s, 'e, 'b) prog) \<Rightarrow> ('s, 'e, 'b) prog" where
  "pbind m f = (\<lambda>s. case m s of
     (Ok x, t) \<Rightarrow> f x t | (Err e, t) \<Rightarrow> (Err e, t) | (Panic, t) \<Rightarrow> (Panic, t) | (Diverge, t) \<Rightarrow> (Diverge, t))"

text \<open>A computation that does not touch the state, and one step that changes it or fails without a change.\<close>

definition plift :: "('e, 'a) outcome \<Rightarrow> ('s, 'e, 'a) prog" where
  "plift r = (\<lambda>s. (r, s))"

definition patomic :: "('s \<Rightarrow> ('e, 's) outcome) \<Rightarrow> ('s, 'e, unit) prog" where
  "patomic f = (\<lambda>s. case f s of
     Ok t \<Rightarrow> (Ok (), t) | Err e \<Rightarrow> (Err e, s) | Panic \<Rightarrow> (Panic, s) | Diverge \<Rightarrow> (Diverge, s))"

text \<open>\<open>map_err\<close>, \<open>inspect_err\<close> with a cleanup whose result is dropped, and \<open>let _ = ...\<close>.\<close>

definition pmap_err :: "('e \<Rightarrow> 'f) \<Rightarrow> ('s, 'e, 'a) prog \<Rightarrow> ('s, 'f, 'a) prog" where
  "pmap_err g m = (\<lambda>s. case m s of (r, t) \<Rightarrow> (omap_err g r, t))"

definition pon_err :: "('s, 'e, 'a) prog \<Rightarrow> ('s \<Rightarrow> 's) \<Rightarrow> ('s, 'e, 'a) prog" where
  "pon_err m cleanup = (\<lambda>s. case m s of (Err e, t) \<Rightarrow> (Err e, cleanup t) | r \<Rightarrow> r)"

definition pdrop :: "('s, 'e, 'a) prog \<Rightarrow> 's \<Rightarrow> 's" where
  "pdrop m s = snd (m s)"

text \<open>A loop over a list that leaves at the first step that does not return \<open>Ok\<close>.\<close>

fun piter :: "('a \<Rightarrow> ('s, 'e, unit) prog) \<Rightarrow> 'a list \<Rightarrow> ('s, 'e, unit) prog" where
  "piter f [] = pret ()"
| "piter f (x # xs) = pbind (f x) (\<lambda>_. piter f xs)"

section \<open>How programs run\<close>

named_theorems prog_simps \<open>running a program step by step\<close>

lemma pret_run [simp, prog_simps]: "pret x s = (Ok x, s)"
  by (simp add: pret_def)

lemma pfail_run [simp, prog_simps]: "pfail e s = (Err e, s)"
  by (simp add: pfail_def)

lemma plift_run [simp, prog_simps]: "plift r s = (r, s)"
  by (simp add: plift_def)

lemma pbind_Ok [simp, prog_simps]: "m s = (Ok x, t) \<Longrightarrow> pbind m f s = f x t"
  by (simp add: pbind_def)

lemma pbind_Err [simp, prog_simps]: "m s = (Err e, t) \<Longrightarrow> pbind m f s = (Err e, t)"
  by (simp add: pbind_def)

lemma pbind_pret [simp]: "pbind (pret x) f = f x"
  by (simp add: pbind_def fun_eq_iff)

lemma pbind_plift_Ok [simp]: "pbind (plift (Ok x)) f = f x"
  by (simp add: pbind_def fun_eq_iff)

lemma pbind_plift_Err [simp]: "pbind (plift (Err e)) f = pfail e"
  by (simp add: pbind_def fun_eq_iff)

lemma pbind_eq_Ok [prog_simps]: "pbind m f s = (Ok y, u) \<longleftrightarrow> (\<exists>x t. m s = (Ok x, t) \<and> f x t = (Ok y, u))"
  by (auto simp: pbind_def split: prod.splits outcome.splits)

lemma pbind_eq_Err [prog_simps]:
  "pbind m f s = (Err e, u) \<longleftrightarrow> m s = (Err e, u) \<or> (\<exists>x t. m s = (Ok x, t) \<and> f x t = (Err e, u))"
  by (auto simp: pbind_def split: prod.splits outcome.splits)

lemma patomic_eq_Ok [prog_simps]: "patomic f s = (Ok x, t) \<longleftrightarrow> f s = Ok t"
  by (auto simp: patomic_def split: outcome.splits)

lemma patomic_eq_Err [prog_simps]: "patomic f s = (Err e, t) \<longleftrightarrow> f s = Err e \<and> t = s"
  by (auto simp: patomic_def split: outcome.splits)

lemma plift_eq [prog_simps]: "plift r s = (r', t) \<longleftrightarrow> r = r' \<and> s = t"
  by (simp add: plift_def)

lemma pmap_err_eq_Ok [prog_simps]: "pmap_err g m s = (Ok x, t) \<longleftrightarrow> m s = (Ok x, t)"
  by (auto simp: pmap_err_def omap_err_eq_Ok split: prod.splits)

lemma pmap_err_eq_Err [prog_simps]: "pmap_err g m s = (Err e, t) \<longleftrightarrow> (\<exists>e'. m s = (Err e', t) \<and> e = g e')"
  by (auto simp: pmap_err_def omap_err_eq_Err split: prod.splits)

lemma pon_err_eq_Ok [prog_simps]: "pon_err m c s = (Ok x, t) \<longleftrightarrow> m s = (Ok x, t)"
  by (auto simp: pon_err_def split: prod.splits outcome.splits)

lemma pon_err_eq_Err [prog_simps]: "pon_err m c s = (Err e, t) \<longleftrightarrow> (\<exists>u. m s = (Err e, u) \<and> t = c u)"
  by (auto simp: pon_err_def split: prod.splits outcome.splits)

text \<open>A relation between the state before and after that every part of a program keeps.\<close>

definition keeps :: "('s \<Rightarrow> 's \<Rightarrow> bool) \<Rightarrow> ('s, 'e, 'a) prog \<Rightarrow> bool" where
  "keeps R m \<longleftrightarrow> (\<forall>s. R s (snd (m s)))"

lemma keepsD: "keeps R m \<Longrightarrow> m s = (r, t) \<Longrightarrow> R s t"
  by (metis keeps_def snd_conv)

lemma keeps_state [simp]:
  assumes "reflp R"
  shows "keeps R (pret x)" "keeps R (pfail e)" "keeps R (plift r)"
  using assms by (simp_all add: keeps_def reflpD)

lemma keeps_pbind:
  assumes "transp R" "keeps R m" "\<And>x. keeps R (f x)"
  shows "keeps R (pbind m f)"
  unfolding keeps_def
proof
  fix s
  obtain r t where m: "m s = (r, t)" by fastforce
  then have "R s t" using assms(2) by (rule keepsD[rotated])
  moreover have "R t (snd (f x t))" for x using assms(3) by (simp add: keeps_def)
  ultimately show "R s (snd (pbind m f s))"
    using m transpD[OF assms(1), of s t] by (cases r) (simp_all add: pbind_def)
qed

lemma keeps_piter:
  assumes "reflp R" "transp R" "\<And>x. x \<in> set xs \<Longrightarrow> keeps R (f x)"
  shows "keeps R (piter f xs)"
  using assms(3)
proof (induction xs)
  case (Cons x xs)
  then show ?case by (simp add: keeps_pbind[OF assms(2)])
qed (simp add: assms(1))

lemma keeps_pmap_err [simp]: "keeps R (pmap_err g m) \<longleftrightarrow> keeps R m"
  by (simp add: keeps_def pmap_err_def case_prod_beta)

end
