(* ===== verification/File_System.thy ===== *)
theory File_System
  imports Effects Rust_Str "HOL-Library.Sublist"
begin

text \<open>
  The file system as the program uses it through \<open>std::fs\<close> and \<open>std::path\<close>: directories, files
  with a mode and contents, and symbolic links, addressed by the list of names from the root. Looking up a
  path text follows the kernel: \<open>.\<close> and repeated slashes are skipped, \<open>..\<close> is the parent of the
  directory reached, links are followed, at most 40 of them. The process runs as root with the root as its
  working directory; permissions, quotas and limits on names never make an operation fail. \<open>NulByte\<close> is the error of the
  standard library for a path that cannot be passed to the kernel.
\<close>

section \<open>Definitions\<close>

datatype errno = ENOENT | EEXIST | ENOTDIR | EISDIR | ENOTEMPTY | ELOOP | EINVAL | EBUSY | NulByte

fun errno_display :: "errno \<Rightarrow> string" where
  "errno_display ENOENT = ''No such file or directory (os error 2)''"
| "errno_display EEXIST = ''File exists (os error 17)''"
| "errno_display ENOTDIR = ''Not a directory (os error 20)''"
| "errno_display EISDIR = ''Is a directory (os error 21)''"
| "errno_display ENOTEMPTY = ''Directory not empty (os error 39)''"
| "errno_display ELOOP = ''Too many levels of symbolic links (os error 40)''"
| "errno_display EINVAL = ''Invalid argument (os error 22)''"
| "errno_display EBUSY = ''Device or resource busy (os error 16)''"
| "errno_display NulByte = ''file name contained an unexpected NUL byte''"

datatype fnode = FDir | FFile (mode: nat) (data: bytes) | FLink (link_target: string)

type_synonym fpath = "string list"
type_synonym fs = "fpath \<Rightarrow> fnode option"

definition absolute :: "string \<Rightarrow> bool" where
  "absolute s \<longleftrightarrow> s \<noteq> [] \<and> hd s = CHR ''/''"

text \<open>\<open>Path::join\<close>: an absolute path replaces the base.\<close>

definition path_join :: "string \<Rightarrow> string \<Rightarrow> string" where
  "path_join base p =
     (if absolute p then p
      else if base = [] \<or> last base = CHR ''/'' then base @ p
      else base @ CHR ''/'' # p)"

definition components :: "string \<Rightarrow> string list" where
  "components s = filter (\<lambda>c. c \<noteq> [] \<and> c \<noteq> ''.'') (split_char (CHR ''/'') s)"

function walk :: "fs \<Rightarrow> bool \<Rightarrow> nat \<Rightarrow> fpath \<Rightarrow> string list \<Rightarrow> (errno, fpath) outcome" where
  "walk f follow links d [] = Ok d"
| "walk f follow links d (c # cs) =
     (if c = ''..'' then walk f follow links (butlast d) cs
      else case f (d @ [c]) of
        None \<Rightarrow> if cs = [] then Ok (d @ [c]) else Err ENOENT
      | Some FDir \<Rightarrow> walk f follow links (d @ [c]) cs
      | Some (FFile md dt) \<Rightarrow> if cs = [] then Ok (d @ [c]) else Err ENOTDIR
      | Some (FLink t) \<Rightarrow>
          if cs = [] \<and> \<not> follow then Ok (d @ [c])
          else if links = 0 then Err ELOOP
          else walk f follow (links - 1) (if absolute t then [] else d) (components t @ cs))"
  by pat_completeness auto
termination
  by (relation "measures [\<lambda>(f, follow, links, d, cs). links, \<lambda>(f, follow, links, d, cs). length cs]") auto

definition resolve :: "fs \<Rightarrow> bool \<Rightarrow> string \<Rightarrow> (errno, fpath) outcome" where
  "resolve f follow s =
     (if CHR 0x00 \<in> set s then Err NulByte
      else if s = [] then Err ENOENT
      else walk f follow 40 [] (components s))"

text \<open>What is at a path; the root is always a directory.\<close>

definition at :: "fs \<Rightarrow> fpath \<Rightarrow> fnode option" where
  "at f p = (if p = [] then Some FDir else f p)"

definition fs_exists :: "fs \<Rightarrow> string \<Rightarrow> bool" where
  "fs_exists f s = (case resolve f True s of Ok p \<Rightarrow> at f p \<noteq> None | _ \<Rightarrow> False)"

definition is_dir :: "fs \<Rightarrow> string \<Rightarrow> bool" where
  "is_dir f s = (case resolve f True s of Ok p \<Rightarrow> at f p = Some FDir | _ \<Rightarrow> False)"

definition mkdir :: "string list \<Rightarrow> fs \<Rightarrow> (errno, fs) outcome" where
  "mkdir cs f =
     obind (walk f False 40 [] cs) (\<lambda>p.
     if at f p = None then Ok (f(p \<mapsto> FDir)) else Err EEXIST)"

definition dir_at :: "fs \<Rightarrow> string list \<Rightarrow> bool" where
  "dir_at f cs = (case walk f True 40 [] cs of Ok p \<Rightarrow> at f p = Some FDir | _ \<Rightarrow> False)"

text \<open>\<open>fs::create_dir_all\<close>: try, then create the parent and try again; a directory that is already
  there is fine.\<close>

definition mkdir_or_dir :: "string list \<Rightarrow> (fs, errno, unit) prog" where
  "mkdir_or_dir cs = (\<lambda>f. case mkdir cs f of
     Ok g \<Rightarrow> (Ok (), g)
   | Err e \<Rightarrow> if dir_at f cs then (Ok (), f) else (Err e, f)
   | Panic \<Rightarrow> (Panic, f) | Diverge \<Rightarrow> (Diverge, f))"

function mkdir_all :: "string list \<Rightarrow> (fs, errno, unit) prog" where
  "mkdir_all cs f =
     (if mkdir cs f = Err ENOENT \<and> cs \<noteq> []
      then (case mkdir_all (butlast cs) f of
              (Ok _, g) \<Rightarrow> mkdir_or_dir cs g
            | failed \<Rightarrow> failed)
      else mkdir_or_dir cs f)"
  by pat_completeness auto
termination
  by (relation "measure (\<lambda>(cs, f). length cs)") auto

declare mkdir_all.simps [simp del]

definition create_dir_all :: "string \<Rightarrow> (fs, errno, unit) prog" where
  "create_dir_all s =
     (if CHR 0x00 \<in> set s then pfail NulByte else if s = [] then pret () else mkdir_all (components s))"

definition fs_write :: "string \<Rightarrow> bytes \<Rightarrow> fs \<Rightarrow> (errno, fs) outcome" where
  "fs_write s dt f =
     obind (resolve f True s) (\<lambda>p.
     case at f p of
       None \<Rightarrow> Ok (f(p \<mapsto> FFile 420 dt))
     | Some (FFile md _) \<Rightarrow> Ok (f(p \<mapsto> FFile md dt))
     | Some FDir \<Rightarrow> Err EISDIR
     | Some (FLink _) \<Rightarrow> Err ELOOP)"

definition set_permissions :: "string \<Rightarrow> nat \<Rightarrow> fs \<Rightarrow> (errno, fs) outcome" where
  "set_permissions s md f =
     obind (resolve f True s) (\<lambda>p.
     case at f p of
       None \<Rightarrow> Err ENOENT
     | Some (FFile _ dt) \<Rightarrow> Ok (f(p \<mapsto> FFile md dt))
     | Some _ \<Rightarrow> Ok f)"

definition symlink :: "string \<Rightarrow> string \<Rightarrow> fs \<Rightarrow> (errno, fs) outcome" where
  "symlink t s f =
     (if CHR 0x00 \<in> set t then Err NulByte
      else if t = [] then Err ENOENT
      else obind (resolve f False s) (\<lambda>p.
        if at f p = None then Ok (f(p \<mapsto> FLink t)) else Err EEXIST))"

text \<open>Everything at and below a path, and a subtree moved to another place.\<close>

definition prune :: "fpath \<Rightarrow> fs \<Rightarrow> fs" where
  "prune p f = (\<lambda>q. if prefix p q then None else f q)"

definition move :: "fpath \<Rightarrow> fpath \<Rightarrow> fs \<Rightarrow> fs" where
  "move p p' f = (\<lambda>q. if prefix p' q then f (p @ drop (length p') q) else if prefix p q then None else f q)"

definition empty_dir :: "fs \<Rightarrow> fpath \<Rightarrow> bool" where
  "empty_dir f p \<longleftrightarrow> (\<forall>q. strict_prefix p q \<longrightarrow> f q = None)"

definition rename :: "string \<Rightarrow> string \<Rightarrow> fs \<Rightarrow> (errno, fs) outcome" where
  "rename a b f =
     obind (resolve f False a) (\<lambda>p.
     obind (resolve f False b) (\<lambda>p'.
     if at f p = None then Err ENOENT
     else if p = [] \<or> p' = [] then Err EBUSY
     else if p = p' then Ok f
     else if f p = Some FDir then
       (if prefix p p' then Err EINVAL
        else case f p' of
          None \<Rightarrow> Ok (move p p' f)
        | Some FDir \<Rightarrow> if empty_dir f p' then Ok (move p p' f) else Err ENOTEMPTY
        | Some _ \<Rightarrow> Err ENOTDIR)
     else if f p' = Some FDir then Err EISDIR
     else Ok (move p p' f)))"

definition remove_dir_all :: "string \<Rightarrow> fs \<Rightarrow> (errno, fs) outcome" where
  "remove_dir_all s f =
     obind (resolve f False s) (\<lambda>p.
     case at f p of
       None \<Rightarrow> Err ENOENT
     | Some (FFile _ _) \<Rightarrow> Err ENOTDIR
     | Some _ \<Rightarrow> if p = [] then Err EBUSY else Ok (prune p f))"

definition remove_dir :: "string \<Rightarrow> fs \<Rightarrow> (errno, fs) outcome" where
  "remove_dir s f =
     obind (resolve f False s) (\<lambda>p.
     case at f p of
       None \<Rightarrow> Err ENOENT
     | Some FDir \<Rightarrow> if p = [] then Err EBUSY else if empty_dir f p then Ok (prune p f) else Err ENOTEMPTY
     | Some _ \<Rightarrow> Err ENOTDIR)"

section \<open>Plain paths\<close>

text \<open>Names that name an entry of a directory, texts of absolute paths made of such names, and the
  directories on the way to a path.\<close>

definition plain_name :: "string \<Rightarrow> bool" where
  "plain_name c \<longleftrightarrow> c \<noteq> [] \<and> c \<noteq> ''.'' \<and> c \<noteq> ''..'' \<and> CHR ''/'' \<notin> set c \<and> CHR 0x00 \<notin> set c"

definition plain_path :: "string \<Rightarrow> bool" where
  "plain_path s \<longleftrightarrow> absolute s \<and> CHR 0x00 \<notin> set s \<and> ''..'' \<notin> set (components s)"

definition dirs :: "fs \<Rightarrow> fpath \<Rightarrow> bool" where
  "dirs f p \<longleftrightarrow> (\<forall>q. prefix q p \<longrightarrow> at f q = Some FDir)"

definition is_link :: "fnode option \<Rightarrow> bool" where
  "is_link x = (case x of Some (FLink _) \<Rightarrow> True | _ \<Rightarrow> False)"

lemma is_link_simps [simp]: "\<not> is_link None" "\<not> is_link (Some FDir)" "\<not> is_link (Some (FFile md dt))"
    "is_link (Some (FLink t))"
  by (simp_all add: is_link_def)

lemma at_simps [simp]: "at f [] = Some FDir" "at f (c # p) = f (c # p)" "at f (p @ [c]) = f (p @ [c])"
  by (simp_all add: at_def)

lemma at_nonempty: "p \<noteq> [] \<Longrightarrow> at f p = f p"
  by (simp add: at_def)

lemma dirs_Nil [simp]: "dirs f []"
  by (simp add: dirs_def)

lemma dirs_snoc: "dirs f (p @ [c]) \<longleftrightarrow> dirs f p \<and> f (p @ [c]) = Some FDir"
  by (auto simp: dirs_def)

lemma dirs_prefix: "dirs f p \<Longrightarrow> prefix q p \<Longrightarrow> dirs f q"
  by (auto simp: dirs_def)

lemma dirs_at: "dirs f p \<Longrightarrow> at f p = Some FDir"
  by (simp add: dirs_def)

lemma dirs_cong: "(\<And>q. prefix q p \<Longrightarrow> f q = g q) \<Longrightarrow> dirs f p \<longleftrightarrow> dirs g p"
  by (simp add: dirs_def at_def)

lemma split_char_Cons_sep: "split_char c (a @ c # b) = split_char c a @ split_char c b"
  unfolding split_char_def
proof (induction a)
  case (Cons x a)
  then show ?case by (cases "split_list (\<lambda>x. x = c) a") (auto split: list.split)
qed simp

lemma components_sep: "components (a @ CHR ''/'' # b) = components a @ components b"
  by (simp add: components_def split_char_Cons_sep)

lemma components_Nil [simp]: "components [] = []"
  by (simp add: components_def split_char_def)

lemma components_join: "\<not> absolute p \<Longrightarrow> components (path_join base p) = components base @ components p"
proof (cases "base = [] \<or> last base \<noteq> CHR ''/''")
  case False
  then have "base = butlast base @ [CHR ''/'']" by (metis append_butlast_last_id)
  then obtain b where b: "base = b @ [CHR ''/'']" by blast
  assume "\<not> absolute p"
  then show ?thesis
    using components_sep[of b p] components_sep[of b "[]"] by (simp add: path_join_def b)
qed (auto simp: path_join_def components_sep)

lemma components_name: "plain_name c \<Longrightarrow> components c = [c]"
  by (subgoal_tac "split_char (CHR ''/'') c = [c]")
     (auto simp: components_def plain_name_def split_char_def intro!: split_list_no_sep)

lemma components_no_slash: "c \<in> set (components s) \<Longrightarrow> CHR ''/'' \<notin> set c \<and> c \<noteq> [] \<and> c \<noteq> ''.''"
  using split_list_piece[of c "\<lambda>x. x = CHR ''/''" s] by (auto simp: components_def split_char_def)

lemma name_not_absolute: "plain_name c \<Longrightarrow> \<not> absolute c"
  by (cases c) (auto simp: plain_name_def absolute_def)

lemma plain_join:
  assumes "plain_path s" "plain_name c"
  shows "plain_path (path_join s c)" "components (path_join s c) = components s @ [c]"
proof -
  show c: "components (path_join s c) = components s @ [c]"
    using assms by (simp add: components_join name_not_absolute components_name)
  have "absolute (path_join s c)"
    using assms name_not_absolute[OF assms(2)] by (auto simp: path_join_def plain_path_def absolute_def)
  moreover have "CHR 0x00 \<notin> set (path_join s c)"
    using assms by (auto simp: path_join_def plain_path_def plain_name_def)
  ultimately show "plain_path (path_join s c)"
    using assms c by (auto simp: plain_path_def plain_name_def)
qed

lemma walk_dirs:
  "''..'' \<notin> set cs \<Longrightarrow> dirs f (d @ cs) \<Longrightarrow> walk f fo l d (cs @ cs') = walk f fo l (d @ cs) cs'"
proof (induction cs arbitrary: d)
  case (Cons c cs)
  have "dirs f (d @ [c])" using Cons.prems(2) by (auto intro: dirs_prefix)
  then have "f (d @ [c]) = Some FDir" by (simp add: dirs_snoc)
  then show ?case using Cons.IH[of "d @ [c]"] Cons.prems by auto
qed simp

lemma walk_plain:
  assumes "''..'' \<notin> set p" "dirs f (butlast p)" "fo \<Longrightarrow> \<not> is_link (at f p)"
  shows "walk f fo l [] p = Ok p"
proof (cases p rule: rev_cases)
  case (snoc p' c)
  have "walk f fo l [] (p' @ [c]) = walk f fo l p' [c]"
    using walk_dirs[of p' f "[]" fo l "[c]"] assms(1,2) snoc by simp
  also have "\<dots> = Ok (p' @ [c])"
    using assms(1,3) by (auto simp: snoc split: option.splits fnode.splits)
  finally show ?thesis using snoc by simp
qed simp

lemma resolve_plain:
  assumes "plain_path s" "dirs f (butlast (components s))" "fo \<Longrightarrow> \<not> is_link (at f (components s))"
  shows "resolve f fo s = Ok (components s)"
  using walk_plain[OF _ assms(2,3)] assms(1) by (auto simp: resolve_def plain_path_def absolute_def)

section \<open>Operations on plain paths\<close>

text \<open>Parent directories of a path in place, the last component of any kind.\<close>

definition in_place :: "fs \<Rightarrow> string \<Rightarrow> bool" where
  "in_place f s \<longleftrightarrow> plain_path s \<and> components s \<noteq> [] \<and> dirs f (butlast (components s))"

lemma in_place_resolve:
  "in_place f s \<Longrightarrow> resolve f False s = Ok (components s)"
  "in_place f s \<Longrightarrow> \<not> is_link (f (components s)) \<Longrightarrow> resolve f True s = Ok (components s)"
  by (auto simp: in_place_def at_def intro!: resolve_plain)

lemma in_place_at: "in_place f s \<Longrightarrow> at f (components s) = f (components s)"
  by (simp add: in_place_def at_nonempty)

lemma in_place_join: "plain_path s \<Longrightarrow> dirs f (components s) \<Longrightarrow> plain_name c \<Longrightarrow> in_place f (path_join s c)"
  by (simp add: in_place_def plain_join)

lemma exists_in_place: "in_place f s \<Longrightarrow> \<not> is_link (f (components s)) \<Longrightarrow> fs_exists f s \<longleftrightarrow> f (components s) \<noteq> None"
  by (simp add: fs_exists_def in_place_resolve in_place_at)

lemma write_new:
  "in_place f s \<Longrightarrow> f (components s) = None \<Longrightarrow> fs_write s dt f = Ok (f(components s \<mapsto> FFile 420 dt))"
  by (simp add: fs_write_def in_place_resolve in_place_at)

lemma write_dir: "in_place f s \<Longrightarrow> f (components s) = Some FDir \<Longrightarrow> fs_write s dt f = Err EISDIR"
  by (simp add: fs_write_def in_place_resolve in_place_at)

lemma in_place_update: "in_place f s \<Longrightarrow> in_place (f(components s \<mapsto> x)) s"
proof -
  assume a: "in_place f s"
  then have "\<not> prefix (components s) (butlast (components s))"
    by (cases "components s" rule: rev_cases) (auto simp: in_place_def dest!: prefix_length_le)
  then have "dirs (f(components s \<mapsto> x)) (butlast (components s)) \<longleftrightarrow> dirs f (butlast (components s))"
    by (intro dirs_cong) auto
  then show ?thesis using a by (simp add: in_place_def)
qed

lemma set_permissions_file:
  "in_place f s \<Longrightarrow> f (components s) = Some (FFile md dt) \<Longrightarrow>
     set_permissions s md' f = Ok (f(components s \<mapsto> FFile md' dt))"
  by (simp add: set_permissions_def in_place_resolve in_place_at)

lemma symlink_new:
  "in_place f s \<Longrightarrow> f (components s) = None \<Longrightarrow> t \<noteq> [] \<Longrightarrow> CHR 0x00 \<notin> set t \<Longrightarrow>
     symlink t s f = Ok (f(components s \<mapsto> FLink t))"
  by (simp add: symlink_def in_place_resolve in_place_at)

lemma symlink_exists:
  "in_place f s \<Longrightarrow> f (components s) = Some x \<Longrightarrow> \<exists>e. symlink t s f = Err e"
  by (simp add: symlink_def in_place_resolve in_place_at)

lemma mkdir_in_place:
  assumes "in_place f s"
  shows "mkdir (components s) f =
    (if f (components s) = None then Ok (f(components s \<mapsto> FDir)) else Err EEXIST)"
  using assms walk_plain[of "components s" f False 40]
  by (simp add: mkdir_def in_place_def at_nonempty plain_path_def)

lemma create_dir_all_new:
  assumes "in_place f s" "f (components s) = None"
  shows "create_dir_all s f = (Ok (), f(components s \<mapsto> FDir))"
  using assms mkdir_in_place[OF assms(1)]
  by (auto simp: create_dir_all_def in_place_def plain_path_def mkdir_all.simps mkdir_or_dir_def absolute_def)

lemma create_dir_all_there:
  assumes "in_place f s" "f (components s) = Some FDir"
  shows "create_dir_all s f = (Ok (), f)"
proof -
  have "dir_at f (components s)"
    using assms walk_plain[of "components s" f True 40]
    by (simp add: dir_at_def in_place_def at_nonempty plain_path_def)
  then show ?thesis using assms mkdir_in_place[OF assms(1)]
    by (auto simp: create_dir_all_def in_place_def plain_path_def mkdir_all.simps mkdir_or_dir_def absolute_def)
qed

lemma remove_dir_all_dir:
  "in_place f s \<Longrightarrow> f (components s) = Some FDir \<Longrightarrow> remove_dir_all s f = Ok (prune (components s) f)"
  by (simp add: remove_dir_all_def in_place_resolve in_place_at in_place_def)

lemma rename_dir:
  assumes "in_place f a" "in_place f b" "f (components a) = Some FDir" "f (components b) = None"
    and "\<not> prefix (components a) (components b)"
  shows "rename a b f = Ok (move (components a) (components b) f)"
  using assms by (auto simp: rename_def in_place_resolve in_place_at in_place_def)

lemma prune_outside [simp]: "\<not> prefix p q \<Longrightarrow> prune p f q = f q"
  by (simp add: prune_def)

lemma prune_inside [simp]: "prefix p q \<Longrightarrow> prune p f q = None"
  by (simp add: prune_def)

lemma move_other: "\<not> prefix p' q \<Longrightarrow> \<not> prefix p q \<Longrightarrow> move p p' f q = f q"
  by (simp add: move_def)

lemma move_target [simp]: "move p p' f (p' @ q) = f (p @ q)"
  by (simp add: move_def)

section \<open>Paths without symbolic links\<close>

definition no_links :: "fs \<Rightarrow> fpath \<Rightarrow> bool" where
  "no_links f p \<longleftrightarrow> (\<forall>q. prefix q p \<longrightarrow> \<not> is_link (at f q))"

lemma walk_settled: "settled (walk f fo l d cs)"
  by (induction f fo l d cs rule: walk.induct) (auto split: option.splits fnode.splits)

lemma walk_no_links:
  "''..'' \<notin> set cs \<Longrightarrow> no_links f (d @ cs) \<Longrightarrow> dirs f d \<Longrightarrow> walk f fo l d cs = Ok q \<Longrightarrow>
     q = d @ cs \<and> (cs = [] \<or> dirs f (butlast (d @ cs)))"
proof (induction cs arbitrary: d)
  case (Cons c cs)
  have nl: "\<not> is_link (f (d @ [c]))"
    using Cons.prems(2) unfolding no_links_def by (metis append_Cons append_Nil append_assoc at_simps(3) prefixI)
  show ?case
  proof (cases "f (d @ [c]) = Some FDir")
    case True
    then have "walk f fo l (d @ [c]) cs = Ok q" "dirs f (d @ [c])"
      using Cons.prems by (auto simp: dirs_snoc)
    then have "q = d @ c # cs" "cs = [] \<or> dirs f (butlast (d @ c # cs))"
      using Cons.IH[of "d @ [c]"] Cons.prems(1,2) by auto
    then show ?thesis using Cons.prems(3) by (cases "cs = []") (auto simp: butlast_append)
  next
    case False
    then show ?thesis using Cons.prems nl
      by (auto simp: butlast_append split: option.splits fnode.splits if_splits)
  qed
qed simp

lemma resolve_no_links:
  assumes "plain_path s" "no_links f (components s)" "resolve f fo s = Ok q"
  shows "q = components s \<and> dirs f (butlast (components s))"
  using walk_no_links[of "components s" f "[]" fo 40 q] assms
  by (auto simp: resolve_def plain_path_def split: if_splits)

lemma resolve_settled: "settled (resolve f fo s)"
  by (simp add: resolve_def walk_settled)

text \<open>Creating directories only adds directories.\<close>

definition grown :: "fs \<Rightarrow> fs \<Rightarrow> bool" where
  "grown f g \<longleftrightarrow> (\<forall>q. g q = f q \<or> f q = None \<and> g q = Some FDir)"

lemma grown_refl [simp]: "grown f f"
  by (simp add: grown_def)

lemma grown_trans: "grown f g \<Longrightarrow> grown g h \<Longrightarrow> grown f h"
  unfolding grown_def by metis

lemma mkdir_grown: "mkdir cs f = Ok g \<Longrightarrow> grown f g"
  by (auto simp: mkdir_def obind_eq_Ok grown_def at_def split: if_splits)

lemma mkdir_settled: "settled (mkdir cs f)"
  by (auto simp: mkdir_def walk_settled)

lemma mkdir_or_dir_grown: "grown f (snd (mkdir_or_dir cs f)) \<and> settled (fst (mkdir_or_dir cs f))"
  using mkdir_settled[of cs f] mkdir_grown[of cs f] by (auto simp: mkdir_or_dir_def split: outcome.splits)

lemma mkdir_all_grown: "grown f (snd (mkdir_all cs f)) \<and> settled (fst (mkdir_all cs f))"
proof (induction cs f rule: mkdir_all.induct)
  case (1 cs f)
  show ?case
  proof (cases "mkdir cs f = Err ENOENT \<and> cs \<noteq> []")
    case True
    obtain r g where rg: "mkdir_all (butlast cs) f = (r, g)" by fastforce
    then have "grown f g" "settled r" using "1.IH"[OF True] by simp_all
    then show ?thesis using True rg mkdir_or_dir_grown[of g cs] grown_trans[of f g]
      by (cases r) (auto simp: mkdir_all.simps[of cs])
  next
    case False
    then show ?thesis using mkdir_or_dir_grown[of f cs] by (auto simp: mkdir_all.simps[of cs])
  qed
qed

lemma create_dir_all_grown: "grown f (snd (create_dir_all s f)) \<and> settled (fst (create_dir_all s f))"
  using mkdir_all_grown[of f "components s"] by (simp add: create_dir_all_def)

lemma grown_keeps:
  assumes "grown f g"
  shows "dirs f p \<Longrightarrow> dirs g p" "no_links f p \<Longrightarrow> no_links g p" "at f p \<noteq> None \<Longrightarrow> at g p \<noteq> None"
  using assms unfolding dirs_def no_links_def grown_def at_def by (metis is_link_simps(2) option.distinct(1))+

lemma mkdir_where:
  assumes "''..'' \<notin> set cs" "no_links f cs" "mkdir cs f = Ok g"
  shows "g = f(cs \<mapsto> FDir)"
  using assms walk_no_links[of cs f "[]" False 40] by (auto simp: mkdir_def obind_eq_Ok split: if_splits)

lemma mkdir_or_dir_where:
  assumes "''..'' \<notin> set cs" "no_links f cs" "q \<noteq> cs"
  shows "snd (mkdir_or_dir cs f) q = f q"
  using mkdir_where[OF assms(1,2)] assms(3) by (auto simp: mkdir_or_dir_def split: outcome.splits)

lemma mkdir_all_where:
  "''..'' \<notin> set cs \<Longrightarrow> no_links f cs \<Longrightarrow> \<not> prefix q cs \<Longrightarrow> snd (mkdir_all cs f) q = f q"
proof (induction cs f rule: mkdir_all.induct)
  case (1 cs f)
  have q: "q \<noteq> cs" using "1.prems"(3) by blast
  show ?case
  proof (cases "mkdir cs f = Err ENOENT \<and> cs \<noteq> []")
    case True
    have sub: "prefix (butlast cs) cs" by (simp add: prefixeq_butlast)
    have b: "''..'' \<notin> set (butlast cs)" "no_links f (butlast cs)" "\<not> prefix q (butlast cs)"
      using "1.prems" sub unfolding no_links_def by (auto dest: in_set_butlastD intro: prefix_order.trans)
    obtain r g where rg: "mkdir_all (butlast cs) f = (r, g)" by fastforce
    have "g q = f q" using "1.IH"[OF True b] rg by simp
    moreover have "no_links g cs"
      using mkdir_all_grown[of f "butlast cs"] grown_keeps(2) "1.prems"(2) rg by auto
    ultimately show ?thesis
      using True rg mkdir_or_dir_where[OF "1.prems"(1) _ q, of g] by (cases r) (auto simp: mkdir_all.simps[of cs])
  next
    case False
    then show ?thesis
      using mkdir_or_dir_where[OF "1.prems"(1,2) q] by (simp only: mkdir_all.simps[of cs] if_False)
  qed
qed

lemma create_dir_all_where:
  "plain_path s \<Longrightarrow> no_links f (components s) \<Longrightarrow> \<not> prefix q (components s) \<Longrightarrow> snd (create_dir_all s f) q = f q"
  using mkdir_all_where[of "components s" f q] by (simp add: create_dir_all_def plain_path_def)

text \<open>Removing an empty directory keeps every path that is not at it.\<close>

lemma prune_keeps:
  assumes "empty_dir f p" "p \<noteq> []"
  shows "no_links f q \<Longrightarrow> no_links (prune p f) q"
    "at f q \<noteq> None \<Longrightarrow> q \<noteq> p \<Longrightarrow> at (prune p f) q \<noteq> None"
    "dirs f (butlast q) \<Longrightarrow> at f q \<noteq> None \<Longrightarrow> q \<noteq> p \<Longrightarrow> dirs (prune p f) (butlast q)"
proof -
  show "no_links f q \<Longrightarrow> no_links (prune p f) q" by (auto simp: no_links_def prune_def at_def)
  have below: "\<not> prefix p q" if "at f q \<noteq> None" "q \<noteq> p" for q
    using that assms by (auto simp: empty_dir_def at_def strict_prefix_def split: if_splits)
  then show "at f q \<noteq> None \<Longrightarrow> q \<noteq> p \<Longrightarrow> at (prune p f) q \<noteq> None" by (auto simp: at_def)
  assume "dirs f (butlast q)" "at f q \<noteq> None" "q \<noteq> p"
  moreover have "\<not> prefix p q'" if "prefix q' (butlast q)" for q'
    using below[OF \<open>at f q \<noteq> None\<close> \<open>q \<noteq> p\<close>] that prefixeq_butlast[of q] by (meson prefix_order.trans)
  ultimately show "dirs (prune p f) (butlast q)" by (auto simp: dirs_def at_def)
qed

end
