(* ===== verification/Csi_Cache.thy ===== *)
theory Csi_Cache
  imports File_System Nar Cache_Client
begin

text \<open>
  The NAR cache of a node (src/crates/niphas-csi/src/cache.rs): fetching a store path, checking its
  hashes, unpacking it beside its final place and renaming it there.

  The binary cache client is the record \<open>cache_ops\<close> of its two functions that the cache calls. The
  decompressors (crate async-compression) are the argument \<open>decode\<close>, SHA-256 the
  argument \<open>sha256\<close> and the record \<open>ops\<close> of the streaming interface, the process id
  the argument \<open>pid\<close>. The state is the file system. The per-path locks, which only order concurrent
  calls, are the subject of Csi_Locks.
\<close>

section \<open>Definitions\<close>

record cache_ops =
  op_fetch_narinfo_by_hash :: "string \<Rightarrow> nar_info result"
  op_fetch_nar :: "nar_info \<Rightarrow> bytes result"

record 'h csi_env =
  csi_client :: cache_ops
  csi_sha :: "'h sha256_ops"
  csi_sha256 :: "bytes \<Rightarrow> bytes"
  csi_decode :: "compression \<Rightarrow> bytes \<Rightarrow> (string, bytes) outcome"
  csi_eof :: string
  csi_pid :: nat

text \<open>\<open>From<io::Error>\<close>.\<close>

definition io :: "errno \<Rightarrow> niphas_error" where
  "io e = Io (errno_display e)"

definition strip_store_dir :: "string \<Rightarrow> string" where
  "strip_store_dir s = (case strip_prefix ''/nix/store/'' s of Some b \<Rightarrow> b | None \<Rightarrow> s)"

definition path_for :: "string \<Rightarrow> string \<Rightarrow> string" where
  "path_for cache_dir sp = path_join cache_dir (strip_store_dir sp)"

definition is_cached :: "string \<Rightarrow> string \<Rightarrow> fs \<Rightarrow> bool" where
  "is_cached cache_dir base f = fs_exists f (path_join cache_dir base)"

definition decompress_nar :: "'h csi_env \<Rightarrow> nar_info \<Rightarrow> bytes \<Rightarrow> bytes result" where
  "decompress_nar env n dt =
     (case compression n of
        CompressionNone \<Rightarrow> Ok dt
      | Zstd \<Rightarrow> omap_err Io (csi_decode env Zstd dt)
      | Xz \<Rightarrow> omap_err Io (csi_decode env Xz dt)
      | Bzip2 \<Rightarrow> omap_err Io (csi_decode env Bzip2 dt)
      | other \<Rightarrow> Err (Cache (''unsupported compression: '' @ compression_display other)))"

definition file_mode :: "bool \<Rightarrow> nat" where
  "file_mode ex = (if ex then 365 else 292)"

primrec extract_node :: "nar_node \<Rightarrow> string \<Rightarrow> (fs, niphas_error, unit) prog"
and extract_entry :: "nar_entry \<Rightarrow> string \<Rightarrow> (fs, niphas_error, unit) prog" where
  "extract_node (Regular ex dt) path =
     pbind (pmap_err io (patomic (fs_write path dt))) (\<lambda>_.
     pmap_err io (patomic (set_permissions path (file_mode ex))))"
| "extract_node (Symlink t) path = pmap_err io (patomic (symlink t path))"
| "extract_node (Directory es) path =
     (\<lambda>f. pbind (if fs_exists f path then pret () else pmap_err io (create_dir_all path)) (\<lambda>_.
          piter (\<lambda>step. step path) (map extract_entry es)) f)"
| "extract_entry (NarEntry nm nd) path = extract_node nd (path_join path nm)"

definition tmp_name :: "'h csi_env \<Rightarrow> string \<Rightarrow> string" where
  "tmp_name env base = ''.tmp-'' @ base @ ''-'' @ nat_display (csi_pid env)"

definition fetch_and_extract :: "'h csi_env \<Rightarrow> string \<Rightarrow> string \<Rightarrow> (fs, niphas_error, unit) prog" where
  "fetch_and_extract env base cache_dir =
     pbind (plift (parse_basename base)) (\<lambda>sp.
     pbind (plift (op_fetch_narinfo_by_hash (csi_client env) (hash_str sp))) (\<lambda>n.
     pbind (plift (op_fetch_nar (csi_client env) n)) (\<lambda>nar_data.
     let file_h = sha256_hash (csi_sha256 env) nar_data in
     if file_h \<noteq> file_hash n
     then pfail (HashMismatch (nix_hash_display (file_hash n)) (nix_hash_display file_h))
     else
     pbind (plift (decompress_nar env n nar_data)) (\<lambda>decompressed.
     let tmp_dir = path_join cache_dir (tmp_name env base);
         final_dir = path_join cache_dir base;
         cleanup = pdrop (patomic (remove_dir_all tmp_dir)) in
     pbind (pmap_err io (create_dir_all tmp_dir)) (\<lambda>_.
     pbind (pon_err (plift (nar_parse (csi_sha env) (nar_reader_new (csi_sha env) (csi_eof env) decompressed)))
              cleanup) (\<lambda>(node, nar_h).
     if nar_h \<noteq> nar_hash n
     then pon_err (pfail (HashMismatch (nix_hash_display (nar_hash n)) (nix_hash_display nar_h))) cleanup
     else
     pbind (extract_node node tmp_dir) (\<lambda>_.
     pon_err (pmap_err io (patomic (rename tmp_dir final_dir))) cleanup)))))))"

definition ensure_path :: "'h csi_env \<Rightarrow> string \<Rightarrow> string \<Rightarrow> (fs, niphas_error, unit) prog" where
  "ensure_path env cache_dir path =
     (let base = strip_store_dir path in
      (\<lambda>f. if is_cached cache_dir base f then (Ok (), f)
           else fetch_and_extract env base cache_dir f))"

definition ensure_cached ::
  "'h csi_env \<Rightarrow> string \<Rightarrow> string list \<Rightarrow> string option \<Rightarrow> (fs, niphas_error, unit) prog" where
  "ensure_cached env cache_dir closure binary_cache_url = piter (ensure_path env cache_dir) closure"

text \<open>\<open>NarCache::new\<close>, up to the client, and the removal of temporary directories at the start;
  \<open>listed\<close> is what \<open>read_dir\<close> lists, if it can.\<close>

definition nar_cache_new ::
  "unit option \<Rightarrow> string \<Rightarrow> niphas_config \<Rightarrow> (fs, niphas_error, string \<times> cache_client) prog" where
  "nar_cache_new built build_error config =
     pbind (pmap_err io (create_dir_all (cache_path (cache config)))) (\<lambda>_.
     pbind (plift (cache_client_new built build_error (binary_caches config))) (\<lambda>client.
     pret (cache_path (cache config), client)))"

fun remove_temp :: "string \<Rightarrow> string list \<Rightarrow> fs \<Rightarrow> fs" where
  "remove_temp cache_dir [] f = f"
| "remove_temp cache_dir (nm # nms) f =
     remove_temp cache_dir nms
       (if prefix ''.tmp-'' nm then pdrop (patomic (remove_dir_all (path_join cache_dir nm))) f else f)"

definition cleanup_temp_dirs :: "string \<Rightarrow> string list option \<Rightarrow> fs \<Rightarrow> fs" where
  "cleanup_temp_dirs cache_dir listed f =
     (case listed of None \<Rightarrow> f | Some nms \<Rightarrow> remove_temp cache_dir nms f)"

section \<open>The tree of an archive in the file system\<close>

fun node_at :: "nar_node \<Rightarrow> fpath \<Rightarrow> fnode option" where
  "node_at (Regular ex dt) p = (if p = [] then Some (FFile (file_mode ex) dt) else None)"
| "node_at (Symlink t) p = (if p = [] then Some (FLink t) else None)"
| "node_at (Directory es) [] = Some FDir"
| "node_at (Directory es) (c # p) =
     (case find (\<lambda>e. entry_name e = c) es of None \<Rightarrow> None | Some e \<Rightarrow> node_at (entry_node e) p)"

definition graft :: "fpath \<Rightarrow> nar_node \<Rightarrow> fs \<Rightarrow> fs" where
  "graft p nd f = (\<lambda>q. if prefix p q then node_at nd (drop (length p) q) else f q)"

text \<open>Targets that the kernel takes for a symbolic link.\<close>

primrec links_ok :: "nar_node \<Rightarrow> bool" and entry_links_ok :: "nar_entry \<Rightarrow> bool" where
  "links_ok (Regular ex dt) = True"
| "links_ok (Symlink t) = (t \<noteq> [] \<and> CHR 0x00 \<notin> set t)"
| "links_ok (Directory es) = list_all entry_links_ok es"
| "entry_links_ok (NarEntry nm nd) = links_ok nd"

definition vacant :: "fs \<Rightarrow> fpath \<Rightarrow> bool" where
  "vacant f p \<longleftrightarrow> (\<forall>q. prefix p q \<longrightarrow> f q = None)"

lemma entry_name_plain: "entry_name_ok = plain_name"
  by (simp add: fun_eq_iff entry_name_ok_def plain_name_def)

lemma graft_outside [simp]: "\<not> prefix p q \<Longrightarrow> graft p nd f q = f q"
  by (simp add: graft_def)

lemma graft_inside [simp]: "graft p nd f (p @ q) = node_at nd q" "graft p nd f p = node_at nd []"
  by (simp_all add: graft_def)

lemma graft_leaf:
  assumes "vacant f p" "\<not> is_directory nd"
  shows "graft p nd f = f(p := node_at nd [])"
proof
  fix q
  have "node_at nd r = None" if "r \<noteq> []" for r using that assms(2) by (cases nd) (simp_all add: is_directory_def)
  moreover have "f (p @ r) = None" for r using assms(1) by (simp add: vacant_def)
  ultimately show "graft p nd f q = (f(p := node_at nd [])) q"
  proof (cases "prefix p q")
    case True
    then obtain r where "q = p @ r" by (auto simp: prefix_def)
    then show ?thesis
      using \<open>\<And>r. r \<noteq> [] \<Longrightarrow> node_at nd r = None\<close>[of r] \<open>\<And>r. f (p @ r) = None\<close>[of r] by (cases "r = []") auto
  qed auto
qed

lemma graft_empty_dir:
  assumes "empty_dir f p"
  shows "graft p (Directory []) f = f(p \<mapsto> FDir)"
proof
  fix q
  show "graft p (Directory []) f q = (f(p \<mapsto> FDir)) q"
  proof (cases "prefix p q")
    case True
    then obtain r where q: "q = p @ r" by (auto simp: prefix_def)
    then show ?thesis using assms by (cases r) (auto simp: empty_dir_def strict_prefix_def)
  qed auto
qed

lemma graft_entry:
  assumes "nm \<notin> entry_name ` set es"
  shows "graft (p @ [nm]) nd (graft p (Directory es) f) = graft p (Directory (es @ [NarEntry nm nd])) f"
proof
  fix q
  have new: "find (\<lambda>e. entry_name e = nm) es = None" using assms by (auto simp: find_None_iff)
  show "graft (p @ [nm]) nd (graft p (Directory es) f) q = graft p (Directory (es @ [NarEntry nm nd])) f q"
  proof (cases "prefix p q")
    case True
    then obtain r where q: "q = p @ r" by (auto simp: prefix_def)
    show ?thesis
    proof (cases r)
      case Nil
      then show ?thesis by (simp add: q graft_def)
    next
      case (Cons c r')
      have find: "find P (es @ [e]) = (case find P es of None \<Rightarrow> if P e then Some e else None | x \<Rightarrow> x)" for P e
        by (induction es) auto
      show ?thesis
        using new by (cases "c = nm") (auto simp: q Cons graft_def find split: option.splits)
    qed
  next
    case False
    moreover from False have "\<not> prefix (p @ [nm]) q" by (auto dest: append_prefixD)
    ultimately show ?thesis by simp
  qed
qed

lemma graft_vacant:
  assumes "nm \<notin> entry_name ` set es"
  shows "vacant (graft p (Directory es) f) (p @ [nm])"
proof -
  have "find (\<lambda>e. entry_name e = nm) es = None" using assms by (auto simp: find_None_iff)
  then show ?thesis by (auto simp: vacant_def prefix_def graft_def)
qed

lemma dirs_graft: "dirs f (butlast p) \<Longrightarrow> p \<noteq> [] \<Longrightarrow> is_directory nd \<Longrightarrow> dirs (graft p nd f) p"
proof (cases p rule: rev_cases)
  case (snoc p' c)
  assume d: "dirs f (butlast p)" and "is_directory nd"
  have "dirs (graft p nd f) p' \<longleftrightarrow> dirs f p'"
    using prefix_length_le[of _ p'] prefix_length_le[of p] by (intro dirs_cong) (fastforce simp: snoc graft_def)
  moreover have "graft p nd f p = Some FDir"
    using \<open>is_directory nd\<close> by (cases nd) (auto simp: is_directory_def)
  ultimately show ?thesis using d by (simp add: snoc dirs_snoc)
qed simp

section \<open>Unpacking\<close>

text \<open>The place of a node: its parents are directories, nothing is below it, and it is free, or an
  empty directory for a directory.\<close>

definition place_for :: "nar_node \<Rightarrow> string \<Rightarrow> fs \<Rightarrow> bool" where
  "place_for nd path f \<longleftrightarrow> in_place f path \<and> empty_dir f (components path) \<and>
     (f (components path) = None \<or> is_directory nd \<and> f (components path) = Some FDir)"

lemma vacant_iff: "vacant f p \<longleftrightarrow> f p = None \<and> empty_dir f p"
  by (auto simp: vacant_def empty_dir_def strict_prefix_def)

lemma extract_leaf:
  assumes "place_for nd path f" "\<not> is_directory nd" "links_ok nd"
  shows "extract_node nd path f = (Ok (), graft (components path) nd f)"
proof -
  have place: "in_place f path" "f (components path) = None" "vacant f (components path)"
    using assms(1,2) by (auto simp: place_for_def vacant_iff)
  note graft_leaf[OF place(3) assms(2)]
  then show ?thesis
  proof (cases nd)
    case (Regular ex dt)
    let ?f1 = "f(components path \<mapsto> FFile 420 dt)"
    have "set_permissions path (file_mode ex) ?f1 = Ok (?f1(components path \<mapsto> FFile (file_mode ex) dt))"
      by (rule set_permissions_file[OF in_place_update[OF place(1)]]) simp
    then show ?thesis
      using write_new[OF place(1,2), of dt] \<open>graft (components path) nd f = _\<close>
      by (simp add: Regular pbind_def pmap_err_def patomic_def)
  next
    case (Symlink t)
    then show ?thesis
      using symlink_new[OF place(1,2), of t] assms(3) \<open>graft (components path) nd f = _\<close>
      by (simp add: pmap_err_def patomic_def)
  qed (use assms(2) in \<open>simp add: is_directory_def\<close>)
qed

text \<open>One entry of a directory, and the loop over the entries.\<close>

definition extracts_entry :: "nar_entry \<Rightarrow> bool" where
  "extracts_entry e \<longleftrightarrow>
     (\<forall>path f. plain_path path \<longrightarrow> dirs f (components path) \<longrightarrow> vacant f (components path @ [entry_name e]) \<longrightarrow>
        extract_entry e path f = (Ok (), graft (components path @ [entry_name e]) (entry_node e) f))"

lemma extract_entries:
  assumes "in_place f path" "list_all extracts_entry es2" "distinct (map entry_name (es1 @ es2))"
  shows "piter (\<lambda>step. step path) (map extract_entry es2) (graft (components path) (Directory es1) f) =
    (Ok (), graft (components path) (Directory (es1 @ es2)) f)"
  using assms(2,3)
proof (induction es2 arbitrary: es1)
  case (Cons e es2)
  let ?p = "components path"
  have new: "entry_name e \<notin> entry_name ` set es1" using Cons.prems(2) by auto
  have "dirs (graft ?p (Directory es1) f) ?p"
    using assms(1) by (intro dirs_graft) (simp_all add: in_place_def is_directory_def)
  then have "extract_entry e path (graft ?p (Directory es1) f) =
      (Ok (), graft (?p @ [entry_name e]) (entry_node e) (graft ?p (Directory es1) f))"
    using Cons.prems(1) graft_vacant[OF new] assms(1) by (simp add: extracts_entry_def in_place_def)
  also have "\<dots> = (Ok (), graft ?p (Directory (es1 @ [e])) f)"
    using graft_entry[OF new, of ?p "entry_node e" f] by simp
  finally show ?case using Cons.IH[of "es1 @ [e]"] Cons.prems by simp
qed simp

lemma extract_directory:
  assumes "place_for (Directory es) path f" "list_all extracts_entry es" "distinct (map entry_name es)"
  shows "extract_node (Directory es) path f = (Ok (), graft (components path) (Directory es) f)"
proof -
  let ?p = "components path" and ?f1 = "graft (components path) (Directory []) f"
  have place: "in_place f path" "empty_dir f ?p" "f ?p = None \<or> f ?p = Some FDir"
    using assms(1) by (auto simp: place_for_def)
  then have f1: "?f1 = f(?p \<mapsto> FDir)" by (simp add: graft_empty_dir)
  have "fs_exists f path \<longleftrightarrow> f ?p \<noteq> None" using place exists_in_place by fastforce
  then have "(if fs_exists f path then pret () else pmap_err io (create_dir_all path)) f = (Ok (), ?f1)"
    using place create_dir_all_new[OF place(1)] f1 by (auto simp: pmap_err_def fun_upd_idem)
  then show ?thesis using extract_entries[OF place(1) assms(2), of "[]"] assms(3) by simp
qed

lemma sorted_names_distinct: "sorted_wrt (<) (map entry_name es) \<Longrightarrow> distinct (map entry_name es)"
  by (simp add: strict_sorted_iff)

lemma extract_node_graft:
  "wf_node nd \<Longrightarrow> links_ok nd \<Longrightarrow> place_for nd path f \<Longrightarrow>
     extract_node nd path f = (Ok (), graft (components path) nd f)"
  "wf_entry e \<Longrightarrow> entry_links_ok e \<Longrightarrow> extracts_entry e"
proof (induction nd and e arbitrary: path f and rule: nar_node.induct nar_entry.induct)
  case (Regular ex dt)
  then show ?case by (intro extract_leaf) (simp_all add: is_directory_def)
next
  case (Symlink t)
  then show ?case by (intro extract_leaf) (simp_all add: is_directory_def)
next
  case (Directory es)
  then show ?case
    by (intro extract_directory) (auto simp: list_all_iff sorted_names_distinct)
next
  case (NarEntry nm nd)
  then show ?case
    by (auto simp: extracts_entry_def place_for_def in_place_join plain_join vacant_iff entry_name_plain)
qed

text \<open>Unpacking succeeds only with targets that the kernel takes, and touches nothing outside its place
  when it fails.\<close>

lemma piter_Ok_each: "piter f xs s = (Ok (), t) \<Longrightarrow> x \<in> set xs \<Longrightarrow> \<exists>u v. f x u = (Ok (), v)"
  by (induction xs arbitrary: s) (auto simp: pbind_eq_Ok)

lemma extract_Ok_links:
  "extract_node nd path f = (Ok (), f') \<Longrightarrow> links_ok nd"
  "extract_entry e path f = (Ok (), f') \<Longrightarrow> entry_links_ok e"
proof (induction nd and e arbitrary: path f f' and path f f' rule: nar_node.induct nar_entry.induct)
  case (Symlink t)
  then show ?case by (auto simp: pmap_err_eq_Ok patomic_eq_Ok symlink_def split: if_splits)
next
  case (Directory es)
  then obtain g where loop: "piter (\<lambda>step. step path) (map extract_entry es) g = (Ok (), f')"
    by (auto simp: pbind_eq_Ok)
  have "\<exists>u v. extract_entry e path u = (Ok (), v)" if "e \<in> set es" for e
    using piter_Ok_each[OF loop, of "extract_entry e"] that by auto
  then show ?case unfolding links_ok.simps list_all_iff using Directory.IH by blast
qed simp_all

definition same_outside :: "fpath \<Rightarrow> fs \<Rightarrow> fs \<Rightarrow> bool" where
  "same_outside p f g \<longleftrightarrow> (\<forall>q. \<not> prefix p q \<longrightarrow> f q = g q)"

lemma same_outside_simps [simp]: "same_outside p f f" "same_outside p f (graft p nd g) \<longleftrightarrow> same_outside p f g"
    "same_outside p f (g(p := x)) \<longleftrightarrow> same_outside p f g" "same_outside p f (prune p g) \<longleftrightarrow> same_outside p f g"
  by (auto simp: same_outside_def)

lemma same_outside_trans: "same_outside p f g \<Longrightarrow> same_outside p g h \<Longrightarrow> same_outside p f h"
  by (simp add: same_outside_def)

lemma same_outside_below: "same_outside (p @ q) f g \<Longrightarrow> same_outside p f g"
  by (auto simp: same_outside_def dest: append_prefixD)

definition entry_confined :: "nar_entry \<Rightarrow> bool" where
  "entry_confined e \<longleftrightarrow>
     (\<forall>path f. plain_path path \<longrightarrow> dirs f (components path) \<longrightarrow> vacant f (components path @ [entry_name e]) \<longrightarrow>
        same_outside (components path @ [entry_name e]) f (snd (extract_entry e path f)))"

lemma entries_confined:
  assumes "in_place f path" "list_all wf_entry es2" "list_all entry_confined es2" "distinct (map entry_name (es1 @ es2))"
  shows "same_outside (components path) f
    (snd (piter (\<lambda>step. step path) (map extract_entry es2) (graft (components path) (Directory es1) f)))"
  using assms(2-4)
proof (induction es2 arbitrary: es1)
  case (Cons e es2)
  let ?p = "components path" and ?g = "graft (components path) (Directory es1) f"
  have new: "entry_name e \<notin> entry_name ` set es1" using Cons.prems(3) by auto
  have d: "dirs ?g ?p"
    using assms(1) by (intro dirs_graft) (simp_all add: in_place_def is_directory_def)
  have "same_outside (?p @ [entry_name e]) ?g (snd (extract_entry e path ?g))"
    using Cons.prems(2) graft_vacant[OF new] assms(1) d by (simp add: entry_confined_def in_place_def)
  then have conf: "same_outside ?p f (snd (extract_entry e path ?g))"
    using same_outside_trans[of ?p f ?g] same_outside_below by simp
  obtain r g' where run: "extract_entry e path ?g = (r, g')" by fastforce
  show ?case
  proof (cases r)
    case (Ok u)
    then have "entry_links_ok e" using run extract_Ok_links(2) by simp
    then have "extracts_entry e" using Cons.prems(1) extract_node_graft(2) by simp
    then have "extract_entry e path ?g = (Ok (), graft ?p (Directory (es1 @ [e])) f)"
      using d graft_vacant[OF new] assms(1) graft_entry[OF new, of ?p "entry_node e" f]
      by (simp add: extracts_entry_def in_place_def)
    then show ?thesis using Cons.IH[of "es1 @ [e]"] Cons.prems by simp
  qed (use conf run in \<open>simp_all add: pbind_def\<close>)
qed simp

lemma extract_confined:
  "wf_node nd \<Longrightarrow> place_for nd path f \<Longrightarrow> same_outside (components path) f (snd (extract_node nd path f))"
  "wf_entry e \<Longrightarrow> entry_confined e"
proof (induction nd and e arbitrary: path f and rule: nar_node.induct nar_entry.induct)
  case (Regular ex dt)
  then show ?case using extract_node_graft(1)[OF Regular.prems(1) _ Regular.prems(2)] by simp
next
  case (Symlink t)
  then have "in_place f path" "f (components path) = None" by (auto simp: place_for_def is_directory_def)
  then show ?case
    by (auto simp: pmap_err_def patomic_def symlink_def in_place_resolve in_place_at)
next
  case (Directory es)
  let ?p = "components path" and ?f1 = "graft (components path) (Directory []) f"
  have place: "in_place f path" "empty_dir f ?p" "f ?p = None \<or> f ?p = Some FDir"
    using Directory.prems(2) by (auto simp: place_for_def)
  then have f1: "?f1 = f(?p \<mapsto> FDir)" by (simp add: graft_empty_dir)
  have "fs_exists f path \<longleftrightarrow> f ?p \<noteq> None" using place exists_in_place by fastforce
  then have "(if fs_exists f path then pret () else pmap_err io (create_dir_all path)) f = (Ok (), ?f1)"
    using place create_dir_all_new[OF place(1)] f1 by (auto simp: pmap_err_def fun_upd_idem)
  then show ?case
    using entries_confined[OF place(1), of es "[]"] Directory sorted_names_distinct[of es]
    by (simp add: list_all_iff)
next
  case (NarEntry nm nd)
  then show ?case
    using NarEntry.IH[of "path_join _ nm"]
    by (auto simp: entry_confined_def place_for_def in_place_join vacant_iff entry_name_plain)
       (metis in_place_join plain_join(2))
qed

section \<open>Fetching one store path\<close>

text \<open>The cache directory is in place, the store path is not there and its temporary directory neither.\<close>

definition fetch_ready :: "'h csi_env \<Rightarrow> string \<Rightarrow> string \<Rightarrow> fs \<Rightarrow> bool" where
  "fetch_ready env base cache_dir f \<longleftrightarrow> plain_path cache_dir \<and> dirs f (components cache_dir) \<and> plain_name base \<and>
     vacant f (components cache_dir @ [base]) \<and> vacant f (components cache_dir @ [tmp_name env base])"

text \<open>What was downloaded and checked before anything is written.\<close>

definition downloaded :: "'h csi_env \<Rightarrow> string \<Rightarrow> nar_info \<Rightarrow> bytes \<Rightarrow> bool" where
  "downloaded env base n decompressed \<longleftrightarrow>
     (\<exists>sp nar_data. parse_basename base = Ok sp \<and>
        op_fetch_narinfo_by_hash (csi_client env) (hash_str sp) = Ok n \<and>
        op_fetch_nar (csi_client env) n = Ok nar_data \<and> sha256_hash (csi_sha256 env) nar_data = file_hash n \<and>
        decompress_nar env n nar_data = Ok decompressed)"

definition parsed :: "'h csi_env \<Rightarrow> bytes \<Rightarrow> (nar_node \<times> nix_hash) result" where
  "parsed env decompressed = nar_parse (csi_sha env) (nar_reader_new (csi_sha env) (csi_eof env) decompressed)"

definition unpack_and_rename :: "string \<Rightarrow> string \<Rightarrow> nar_node \<Rightarrow> (fs, niphas_error, unit) prog" where
  "unpack_and_rename tmp_dir final_dir node =
     pbind (extract_node node tmp_dir) (\<lambda>_.
     pon_err (pmap_err io (patomic (rename tmp_dir final_dir))) (pdrop (patomic (remove_dir_all tmp_dir))))"

lemma digits_plain: "c \<in> set (nat_display n) \<Longrightarrow> c \<noteq> CHR ''/'' \<and> c \<noteq> CHR 0x00"
  using nat_display_digits[of c n] by auto

lemma tmp_name_plain: "plain_name base \<Longrightarrow> plain_name (tmp_name env base)"
  using digits_plain by (auto simp: plain_name_def tmp_name_def)

lemma tmp_name_other: "tmp_name env base \<noteq> base"
proof
  assume "tmp_name env base = base"
  then have "length (tmp_name env base) = length base" by simp
  then show False by (simp add: tmp_name_def)
qed

lemma fetch_places:
  assumes "fetch_ready env base cache_dir f"
  defines "tmp \<equiv> path_join cache_dir (tmp_name env base)" and "fin \<equiv> path_join cache_dir base"
  shows "in_place f tmp" "in_place f fin" "vacant f (components tmp)" "vacant f (components fin)"
    "\<not> prefix (components tmp) (components fin)" "\<not> prefix (components fin) (components tmp)"
  using assms(1) tmp_name_other[of env base] tmp_name_plain[of base env]
  by (auto simp: fetch_ready_def tmp_def fin_def plain_join in_place_join)

text \<open>The run of a fetch once the download is there.\<close>

lemma fetch_after_download:
  assumes ready: "fetch_ready env base cache_dir f" and dl: "downloaded env base n dec"
  defines "tmp \<equiv> path_join cache_dir (tmp_name env base)" and "fin \<equiv> path_join cache_dir base"
  shows "fetch_and_extract env base cache_dir f =
    (case parsed env dec of
       Ok (node, h) \<Rightarrow>
         if h \<noteq> nar_hash n then (Err (HashMismatch (nix_hash_display (nar_hash n)) (nix_hash_display h)), f)
         else unpack_and_rename tmp fin node (f(components tmp \<mapsto> FDir))
     | Err e \<Rightarrow> (Err e, f) | Panic \<Rightarrow> (Panic, f(components tmp \<mapsto> FDir))
     | Diverge \<Rightarrow> (Diverge, f(components tmp \<mapsto> FDir)))"
proof -
  note places = fetch_places[OF ready, folded tmp_def fin_def]
  let ?p = "components tmp" and ?f1 = "f(components tmp \<mapsto> FDir)"
  have free: "f ?p = None" using places(3) by (simp add: vacant_iff)
  then have mk: "create_dir_all tmp f = (Ok (), ?f1)" by (rule create_dir_all_new[OF places(1)])
  have "prune ?p ?f1 = f" using places(3) by (auto simp: fun_eq_iff prune_def vacant_def)
  then have rm: "pdrop (patomic (remove_dir_all tmp)) ?f1 = f"
    using remove_dir_all_dir[OF in_place_update[OF places(1), of FDir]] by (simp add: pdrop_def patomic_def)
  obtain sp nar_data where d: "parse_basename base = Ok sp"
      "op_fetch_narinfo_by_hash (csi_client env) (hash_str sp) = Ok n"
      "op_fetch_nar (csi_client env) n = Ok nar_data" "sha256_hash (csi_sha256 env) nar_data = file_hash n"
      "decompress_nar env n nar_data = Ok dec"
    using dl by (auto simp: downloaded_def)
  show ?thesis
    unfolding fetch_and_extract_def d(1,2,3,4,5) pbind_plift_Ok Let_def
    using mk rm
    by (auto simp: d parsed_def unpack_and_rename_def tmp_def[symmetric] fin_def[symmetric] pmap_err_def
        pbind_def[of "pmap_err io (create_dir_all tmp)"] pbind_def[of "pon_err _ _"] pbind_def[of "Pair _"] pon_err_def plift_def pfail_def
        split: outcome.split)
qed

lemma move_graft:
  assumes "vacant f t" "\<not> prefix t p" "\<not> prefix p t"
  shows "move t p (graft t nd (f(t \<mapsto> x))) = graft p nd f"
proof
  fix q
  consider r where "q = p @ r" | "\<not> prefix p q" "prefix t q" | "\<not> prefix p q" "\<not> prefix t q"
    by (auto simp: prefix_def)
  then show "move t p (graft t nd (f(t \<mapsto> x))) q = graft p nd f q"
    using assms(1) by cases (auto simp: move_def vacant_def)
qed

text \<open>Unpacking into the temporary directory: a directory ends at its final place, everything else
  fails, because the place is taken by the temporary directory itself.\<close>

lemma unpack_directory:
  assumes ready: "fetch_ready env base cache_dir f" and nd: "wf_node nd" "links_ok nd" "is_directory nd"
  defines "tmp \<equiv> path_join cache_dir (tmp_name env base)" and "fin \<equiv> path_join cache_dir base"
  shows "unpack_and_rename tmp fin nd (f(components tmp \<mapsto> FDir)) = (Ok (), graft (components fin) nd f)"
proof -
  note places = fetch_places[OF ready, folded tmp_def fin_def]
  let ?p = "components tmp" and ?f1 = "f(components tmp \<mapsto> FDir)"
  have ip: "in_place ?f1 tmp" by (rule in_place_update[OF places(1)])
  have "place_for nd tmp ?f1"
    using ip nd(3) places(3) by (auto simp: place_for_def vacant_iff empty_dir_def)
  then have ex: "extract_node nd tmp ?f1 = (Ok (), graft ?p nd ?f1)"
    using nd by (intro extract_node_graft)
  have sib: "butlast ?p = components cache_dir" "butlast (components fin) = components cache_dir"
    using ready tmp_name_plain[of base env] by (simp_all add: tmp_def fin_def fetch_ready_def plain_join)
  have "dirs (graft ?p nd ?f1) ?p" using ip nd(3) by (intro dirs_graft) (auto simp: in_place_def)
  then have "dirs (graft ?p nd ?f1) (butlast ?p)" by (rule dirs_prefix) (simp add: prefixeq_butlast)
  then have "in_place (graft ?p nd ?f1) tmp" "in_place (graft ?p nd ?f1) fin"
    using places(1,2) sib by (simp_all add: in_place_def)
  moreover have "graft ?p nd ?f1 ?p = Some FDir" using nd(3) by (cases nd) (simp_all add: is_directory_def)
  moreover have "graft ?p nd ?f1 (components fin) = None" using places(4,5) by (auto simp: vacant_iff)
  ultimately have "rename tmp fin (graft ?p nd ?f1) = Ok (move ?p (components fin) (graft ?p nd ?f1))"
    using places(5) by (intro rename_dir)
  also have "\<dots> = Ok (graft (components fin) nd f)" using places(3,5,6) by (simp add: move_graft)
  finally show ?thesis using ex by (simp add: unpack_and_rename_def pon_err_def pmap_err_def patomic_def)
qed

lemma unpack_leaf:
  assumes ready: "fetch_ready env base cache_dir f" and nd: "\<not> is_directory nd"
  defines "tmp \<equiv> path_join cache_dir (tmp_name env base)"
  shows "\<exists>e. unpack_and_rename tmp fin nd (f(components tmp \<mapsto> FDir)) = (Err e, f(components tmp \<mapsto> FDir))"
proof -
  let ?f1 = "f(components tmp \<mapsto> FDir)"
  have ip: "in_place ?f1 tmp" using fetch_places(1)[OF ready] by (auto simp: tmp_def intro: in_place_update)
  have "\<exists>e. extract_node nd tmp ?f1 = (Err e, ?f1)"
  proof (cases nd)
    case (Regular ex dt)
    have "fs_write tmp dt ?f1 = Err EISDIR" by (rule write_dir[OF ip]) simp
    then show ?thesis by (auto simp: Regular pbind_def pmap_err_def patomic_def)
  next
    case (Symlink t)
    obtain e where "symlink t tmp ?f1 = Err e" using symlink_exists[OF ip, of FDir t] by auto
    then show ?thesis by (auto simp: Symlink pmap_err_def patomic_def)
  qed (use nd in \<open>simp add: is_directory_def\<close>)
  then show ?thesis by (auto simp: unpack_and_rename_def pbind_def)
qed

lemma fetch_needs_download:
  "fetch_and_extract env base cache_dir f = (Ok (), f') \<Longrightarrow> \<exists>n dec. downloaded env base n dec"
  "\<nexists>n dec. downloaded env base n dec \<Longrightarrow> snd (fetch_and_extract env base cache_dir f) = f"
  by (auto simp: fetch_and_extract_def downloaded_def pbind_def plift_def Let_def pfail_def
      split: outcome.splits if_splits)

lemma parsed_wf: "parsed env dec = Ok (nd, h) \<Longrightarrow> wf_node nd"
  unfolding parsed_def default_reader nar_parse_Ok[of 256, simplified] by simp

lemma parsed_settled: "settled (parsed env dec)"
  unfolding parsed_def by (rule nar_parse_settled)

text \<open>A fetch that succeeds leaves exactly the checked tree at the final place.\<close>

lemma fetch_Ok:
  assumes ready: "fetch_ready env base cache_dir f" and run: "fetch_and_extract env base cache_dir f = (Ok (), f')"
  shows "\<exists>n dec nd. downloaded env base n dec \<and> parsed env dec = Ok (nd, nar_hash n) \<and> is_directory nd \<and>
    f' = graft (components cache_dir @ [base]) nd f"
proof -
  obtain n dec where dl: "downloaded env base n dec" using fetch_needs_download(1)[OF run] by blast
  let ?tmp = "path_join cache_dir (tmp_name env base)" and ?fin = "path_join cache_dir base"
  obtain nd where nd: "parsed env dec = Ok (nd, nar_hash n)"
    and up: "unpack_and_rename ?tmp ?fin nd (f(components ?tmp \<mapsto> FDir)) = (Ok (), f')"
    using run fetch_after_download[OF ready dl] by (auto split: outcome.splits if_splits)
  have "is_directory nd" using unpack_leaf[OF ready, of nd ?fin] up by auto
  moreover have "links_ok nd"
    using up by (auto simp: unpack_and_rename_def pbind_eq_Ok dest: extract_Ok_links(1))
  ultimately have "f' = graft (components ?fin) nd f"
    using unpack_directory[OF ready parsed_wf[OF nd]] up by simp
  moreover have "components ?fin = components cache_dir @ [base]"
    using ready by (simp add: fetch_ready_def plain_join)
  ultimately show ?thesis using dl nd \<open>is_directory nd\<close> by auto
qed

text \<open>A fetch that fails leaves everything but the temporary directory as it was.\<close>

lemma unpack_Err:
  assumes ready: "fetch_ready env base cache_dir f" and nd: "wf_node nd"
  defines "tmp \<equiv> path_join cache_dir (tmp_name env base)" and "fin \<equiv> path_join cache_dir base"
  assumes run: "unpack_and_rename tmp fin nd (f(components tmp \<mapsto> FDir)) = (Err e, f')"
  shows "same_outside (components tmp) f f'"
proof -
  let ?f1 = "f(components tmp \<mapsto> FDir)"
  consider "\<not> is_directory nd" | "is_directory nd" "links_ok nd" | "is_directory nd" "\<not> links_ok nd" by blast
  then show ?thesis
  proof cases
    case 1
    then show ?thesis using unpack_leaf[OF ready 1, of fin] run by (auto simp: tmp_def)
  next
    case 2
    then show ?thesis using unpack_directory[OF ready nd 2(2,1)] run by (simp add: tmp_def fin_def)
  next
    case 3
    have "place_for nd tmp ?f1"
      using 3(1) fetch_places(1,3)[OF ready] in_place_update[OF fetch_places(1)[OF ready], of FDir]
      by (auto simp: place_for_def vacant_iff empty_dir_def tmp_def)
    then have "same_outside (components tmp) ?f1 (snd (extract_node nd tmp ?f1))"
      by (rule extract_confined(1)[OF nd])
    moreover have "snd (extract_node nd tmp ?f1) = f'"
      using run 3(2) extract_Ok_links(1)[of nd tmp ?f1]
      by (auto simp: unpack_and_rename_def pbind_def split: prod.splits outcome.splits)
    ultimately show ?thesis using same_outside_trans[of "components tmp" f ?f1 f'] by simp
  qed
qed

lemma fetch_Err:
  assumes ready: "fetch_ready env base cache_dir f" and run: "fetch_and_extract env base cache_dir f = (Err e, f')"
  shows "same_outside (components cache_dir @ [tmp_name env base]) f f'"
proof (cases "\<exists>n dec. downloaded env base n dec")
  case False
  then show ?thesis using fetch_needs_download(2)[of env base cache_dir f] run by simp
next
  case True
  then obtain n dec where dl: "downloaded env base n dec" by blast
  let ?tmp = "path_join cache_dir (tmp_name env base)" and ?fin = "path_join cache_dir base"
  have tmp: "components ?tmp = components cache_dir @ [tmp_name env base]"
    using ready tmp_name_plain[of base env] by (simp add: fetch_ready_def plain_join)
  show ?thesis
  proof (cases "\<exists>nd. parsed env dec = Ok (nd, nar_hash n)")
    case False
    then show ?thesis using run fetch_after_download[OF ready dl] parsed_settled[of env dec]
      by (auto split: outcome.splits if_splits)
  next
    case True
    then obtain nd where nd: "parsed env dec = Ok (nd, nar_hash n)" by blast
    have "unpack_and_rename ?tmp ?fin nd (f(components ?tmp \<mapsto> FDir)) = (Err e, f')"
      using run fetch_after_download[OF ready dl] nd by simp
    then show ?thesis using unpack_Err[OF ready parsed_wf[OF nd]] by (simp add: tmp)
  qed
qed

section \<open>Fetching again\<close>

text \<open>Where an attempt leaves the next one: as \<open>fetch_ready\<close>, but the temporary directory may be there, empty.\<close>

definition left_empty :: "fpath \<Rightarrow> fs \<Rightarrow> bool" where
  "left_empty p f \<longleftrightarrow> empty_dir f p \<and> (f p = None \<or> f p = Some FDir)"

definition retry_ready :: "'h csi_env \<Rightarrow> string \<Rightarrow> string \<Rightarrow> fs \<Rightarrow> bool" where
  "retry_ready env base cache_dir f \<longleftrightarrow> plain_path cache_dir \<and> dirs f (components cache_dir) \<and> plain_name base \<and>
     vacant f (components cache_dir @ [base]) \<and> left_empty (components cache_dir @ [tmp_name env base]) f"

text \<open>The caches serve a checked archive of a directory with a symbolic link that the kernel refuses.\<close>

definition bad_links :: "'h csi_env \<Rightarrow> string \<Rightarrow> bool" where
  "bad_links env base \<longleftrightarrow> (\<exists>n dec nd. downloaded env base n dec \<and> parsed env dec = Ok (nd, nar_hash n) \<and> is_directory nd \<and> \<not> links_ok nd)"

lemma left_empty_vacant: "vacant f p \<Longrightarrow> left_empty p f" "vacant f p \<Longrightarrow> left_empty p (f(p \<mapsto> FDir))"
  by (auto simp: left_empty_def vacant_iff empty_dir_def)

lemma ready_retry: "fetch_ready env base cache_dir f \<Longrightarrow> retry_ready env base cache_dir f"
  by (simp add: fetch_ready_def retry_ready_def left_empty_vacant)

lemma dirs_outside: "same_outside (c @ [nm]) f g \<Longrightarrow> dirs g c \<longleftrightarrow> dirs f c"
  by (rule dirs_cong) (auto simp: same_outside_def prefix_def)

lemma same_outside_prune: "same_outside p f (prune p f)"
  by (simp add: same_outside_def prune_def)

lemma leftover_retry:
  assumes "fetch_ready env base cache_dir f"
  shows "retry_ready env base cache_dir (f(components cache_dir @ [tmp_name env base] \<mapsto> FDir))"
proof -
  let ?p = "components cache_dir @ [tmp_name env base]"
  have "same_outside ?p f (f(?p \<mapsto> FDir))" by (auto simp: same_outside_def)
  from dirs_outside[OF this] have "dirs (f(?p \<mapsto> FDir)) (components cache_dir) \<longleftrightarrow> dirs f (components cache_dir)" .
  moreover have "vacant (f(?p \<mapsto> FDir)) (components cache_dir @ [base])"
    using assms tmp_name_other[of env base] by (auto simp: fetch_ready_def vacant_def prefix_def)
  ultimately show ?thesis using assms left_empty_vacant(2)[of f ?p] by (simp add: fetch_ready_def retry_ready_def)
qed

lemma retry_start:
  assumes "retry_ready env base cache_dir f"
  shows "fetch_ready env base cache_dir (prune (components cache_dir @ [tmp_name env base]) f)"
proof -
  have "dirs (prune (components cache_dir @ [tmp_name env base]) f) (components cache_dir)"
    using assms dirs_outside[OF same_outside_prune] by (simp add: retry_ready_def)
  then show ?thesis using assms by (auto simp: retry_ready_def fetch_ready_def vacant_def prune_def)
qed

text \<open>An attempt that finds the empty directory either ends before it writes anything or runs as if the directory were not there.\<close>

lemma retry_same:
  assumes ready: "retry_ready env base cache_dir f" and dl: "downloaded env base n dec"
  shows "fetch_and_extract env base cache_dir f =
    fetch_and_extract env base cache_dir (prune (components cache_dir @ [tmp_name env base]) f)"
proof -
  let ?tmp = "path_join cache_dir (tmp_name env base)" and ?p = "components cache_dir @ [tmp_name env base]"
  let ?f0 = "prune ?p f"
  have comp: "components ?tmp = ?p" using ready tmp_name_plain[of base env] by (simp add: retry_ready_def plain_join)
  have left: "left_empty ?p f" using ready by (simp add: retry_ready_def)
  show ?thesis
  proof (cases "f ?p")
    case None
    then have "?f0 = f" using left by (auto simp: fun_eq_iff prune_def left_empty_def empty_dir_def strict_prefix_def)
    then show ?thesis by simp
  next
    case (Some x)
    then have dir: "f ?p = Some FDir" using left by (simp add: left_empty_def)
    have ip0: "in_place ?f0 ?tmp" by (rule fetch_places(1)[OF retry_start[OF ready]])
    have f1: "?f0(?p \<mapsto> FDir) = f"
      using left dir by (auto simp: fun_eq_iff prune_def left_empty_def empty_dir_def strict_prefix_def)
    then have ip: "in_place f ?tmp" using in_place_update[OF ip0, of FDir] comp by simp
    have mk: "pmap_err io (create_dir_all ?tmp) f = (Ok (), f)" "pmap_err io (create_dir_all ?tmp) ?f0 = (Ok (), f)"
      using create_dir_all_there[OF ip] create_dir_all_new[OF ip0] comp dir f1 by (simp_all add: pmap_err_def)
    obtain sp nar_data where d: "parse_basename base = Ok sp" "op_fetch_narinfo_by_hash (csi_client env) (hash_str sp) = Ok n"
        "op_fetch_nar (csi_client env) n = Ok nar_data" "sha256_hash (csi_sha256 env) nar_data = file_hash n"
        "decompress_nar env n nar_data = Ok dec"
      using dl by (auto simp: downloaded_def)
    show ?thesis
      unfolding fetch_and_extract_def d(1,2,3) pbind_plift_Ok Let_def d(4,5)
      by (simp add: d pbind_def[of "pmap_err io (create_dir_all ?tmp)"] mk)
  qed
qed

lemma retry_run:
  assumes ready: "retry_ready env base cache_dir f" and run: "fetch_and_extract env base cache_dir f = (r, f')"
  shows "r \<noteq> Ok () \<and> f' = f \<or> fetch_and_extract env base cache_dir (prune (components cache_dir @ [tmp_name env base]) f) = (r, f')"
proof (cases "\<exists>n dec. downloaded env base n dec")
  case True
  then obtain n dec where "downloaded env base n dec" by blast
  then show ?thesis using retry_same[OF ready] run by simp
next
  case False
  then show ?thesis using fetch_needs_download[of env base cache_dir f] run by auto
qed

text \<open>What a failed attempt leaves.\<close>

lemma fetch_left:
  assumes ready: "fetch_ready env base cache_dir f" and run: "fetch_and_extract env base cache_dir f = (r, f')"
    and fails: "r \<noteq> Ok ()" and links: "\<not> bad_links env base"
  shows "same_outside (components cache_dir @ [tmp_name env base]) f f' \<and> left_empty (components cache_dir @ [tmp_name env base]) f'"
proof (cases "\<exists>n dec. downloaded env base n dec")
  case False
  then have "f' = f" using fetch_needs_download(2)[of env base cache_dir f] run by simp
  then show ?thesis using ready by (simp add: fetch_ready_def left_empty_vacant)
next
  case True
  then obtain n dec where dl: "downloaded env base n dec" by blast
  let ?tmp = "path_join cache_dir (tmp_name env base)" and ?fin = "path_join cache_dir base"
  have tmp: "components ?tmp = components cache_dir @ [tmp_name env base]" "vacant f (components ?tmp)"
    using ready tmp_name_plain[of base env] by (simp_all add: fetch_ready_def plain_join)
  have "f' = f \<or> f' = f(components ?tmp \<mapsto> FDir)"
  proof (cases "\<exists>nd. parsed env dec = Ok (nd, nar_hash n)")
    case False
    then show ?thesis using run fetch_after_download[OF ready dl] parsed_settled[of env dec]
      by (auto split: outcome.splits if_splits)
  next
    case True
    then obtain nd where nd: "parsed env dec = Ok (nd, nar_hash n)" by blast
    have up: "unpack_and_rename ?tmp ?fin nd (f(components ?tmp \<mapsto> FDir)) = (r, f')"
      using run fetch_after_download[OF ready dl] nd by simp
    have "\<not> is_directory nd"
    proof
      assume dir: "is_directory nd"
      then have "links_ok nd" using links dl nd by (auto simp: bad_links_def)
      then show False using unpack_directory[OF ready parsed_wf[OF nd] _ dir] up fails by simp
    qed
    then show ?thesis using unpack_leaf[OF ready, of nd ?fin] up by auto
  qed
  then show ?thesis using left_empty_vacant[OF tmp(2)] unfolding tmp(1) by (auto simp: same_outside_def)
qed

section \<open>The whole cache\<close>

text \<open>A cache between calls: its entries are directories, nothing lies below a name that is
  not there, and no temporary directory is left.\<close>

definition cache_inv :: "string \<Rightarrow> fs \<Rightarrow> bool" where
  "cache_inv cache_dir f \<longleftrightarrow> plain_path cache_dir \<and> dirs f (components cache_dir) \<and>
     (\<forall>nm. vacant f (components cache_dir @ [nm]) \<or>
        f (components cache_dir @ [nm]) = Some FDir \<and> \<not> prefix ''.tmp-'' nm)"

definition entry_base :: "string \<Rightarrow> bool" where
  "entry_base base \<longleftrightarrow> plain_name base \<and> \<not> prefix ''.tmp-'' base"

lemma cached_iff:
  assumes "cache_inv cache_dir f" "plain_name base"
  shows "is_cached cache_dir base f \<longleftrightarrow> f (components cache_dir @ [base]) = Some FDir"
proof -
  have "in_place f (path_join cache_dir base)" using assms in_place_join by (simp add: cache_inv_def)
  moreover have "f (components cache_dir @ [base]) = None \<or> f (components cache_dir @ [base]) = Some FDir"
    using assms(1) unfolding cache_inv_def vacant_iff by blast
  ultimately show ?thesis
    using assms exists_in_place[of f "path_join cache_dir base"]
    by (auto simp: is_cached_def plain_join cache_inv_def)
qed

lemma cache_inv_ready:
  assumes "cache_inv cache_dir f" "plain_name base" "\<not> is_cached cache_dir base f"
  shows "fetch_ready env base cache_dir f"
proof -
  have "vacant f (components cache_dir @ [tmp_name env base])"
    using assms(1) unfolding cache_inv_def by (metis prefixI tmp_name_def)
  moreover have "vacant f (components cache_dir @ [base])"
    using assms cached_iff[OF assms(1,2)] by (auto simp: cache_inv_def)
  ultimately show ?thesis using assms by (simp add: fetch_ready_def cache_inv_def)
qed

lemma cache_inv_graft:
  assumes "cache_inv cache_dir f" "entry_base base" "is_directory nd"
  shows "cache_inv cache_dir (graft (components cache_dir @ [base]) nd f)"
proof -
  let ?c = "components cache_dir" and ?g = "graft (components cache_dir @ [base]) nd f"
  have "dirs ?g (?c @ [base])" using assms by (intro dirs_graft) (simp_all add: cache_inv_def)
  then have "dirs ?g ?c" by (simp add: dirs_snoc)
  moreover have "?g (?c @ [base]) = Some FDir" using assms(3) by (cases nd) (simp_all add: is_directory_def)
  moreover have "?g (?c @ nm # q) = f (?c @ nm # q)" if "nm \<noteq> base" for nm q
    using that by (simp add: graft_def)
  ultimately show ?thesis
    using assms(1,2) unfolding cache_inv_def vacant_def prefix_def entry_base_def
    by (metis append.assoc append_Cons append_Nil)
qed

text \<open>One step of the loop.\<close>

lemma ensure_path_Ok:
  assumes "cache_inv cache_dir f" "entry_base (strip_store_dir path)" "ensure_path env cache_dir path f = (Ok (), f')"
  shows "cache_inv cache_dir f' \<and> is_cached cache_dir (strip_store_dir path) f' \<and>
    (\<forall>q. f q \<noteq> None \<longrightarrow> f' q = f q) \<and> same_outside (components cache_dir) f f'"
proof (cases "is_cached cache_dir (strip_store_dir path) f")
  case True
  then show ?thesis using assms by (simp add: ensure_path_def Let_def)
next
  case False
  let ?base = "strip_store_dir path"
  have plain: "plain_name ?base" using assms(2) by (simp add: entry_base_def)
  have ready: "fetch_ready env ?base cache_dir f" using assms(1) plain False by (rule cache_inv_ready)
  have run: "fetch_and_extract env ?base cache_dir f = (Ok (), f')" using assms(3) False by (simp add: ensure_path_def Let_def)
  obtain nd where nd: "is_directory nd" "f' = graft (components cache_dir @ [?base]) nd f"
    using fetch_Ok[OF ready run] by blast
  then have inv: "cache_inv cache_dir f'" using cache_inv_graft assms by blast
  moreover have "is_cached cache_dir ?base f'"
    using nd cached_iff[OF inv plain] by (cases nd) (simp_all add: is_directory_def)
  moreover have "f' q = f q" if "f q \<noteq> None" for q
  proof -
    have "\<not> prefix (components cache_dir @ [?base]) q"
      using that ready by (auto simp: fetch_ready_def vacant_def)
    then show ?thesis by (simp add: nd)
  qed
  moreover have "same_outside (components cache_dir) f f'"
    unfolding nd(2) by (rule same_outside_below[of _ "[?base]"]) simp
  ultimately show ?thesis by blast
qed

lemma still_cached:
  assumes "cache_inv cache_dir f'" "cache_inv cache_dir f" "plain_name base" "\<forall>q. f q \<noteq> None \<longrightarrow> f' q = f q"
    and "is_cached cache_dir base f"
  shows "is_cached cache_dir base f'"
  using assms cached_iff by (metis option.distinct(1))

lemma ensure_loop_Ok:
  "cache_inv cache_dir f \<Longrightarrow> \<forall>path \<in> set closure. entry_base (strip_store_dir path) \<Longrightarrow>
   piter (ensure_path env cache_dir) closure f = (Ok (), f') \<Longrightarrow>
   cache_inv cache_dir f' \<and> (\<forall>path \<in> set closure. is_cached cache_dir (strip_store_dir path) f') \<and>
     (\<forall>q. f q \<noteq> None \<longrightarrow> f' q = f q) \<and> same_outside (components cache_dir) f f'"
proof (induction closure arbitrary: f)
  case (Cons path closure)
  then obtain g where step: "ensure_path env cache_dir path f = (Ok (), g)"
    and rest: "piter (ensure_path env cache_dir) closure g = (Ok (), f')" by (auto simp: pbind_eq_Ok)
  have g: "cache_inv cache_dir g" "is_cached cache_dir (strip_store_dir path) g" "\<forall>q. f q \<noteq> None \<longrightarrow> g q = f q"
      "same_outside (components cache_dir) f g"
    using ensure_path_Ok[OF Cons.prems(1) _ step] Cons.prems(2) by auto
  have f': "cache_inv cache_dir f'" "\<forall>path \<in> set closure. is_cached cache_dir (strip_store_dir path) f'"
      "\<forall>q. g q \<noteq> None \<longrightarrow> f' q = g q" "same_outside (components cache_dir) g f'"
    using Cons.IH[OF g(1) _ rest] Cons.prems(2) by auto
  have "is_cached cache_dir (strip_store_dir path) f'"
    using still_cached[OF f'(1) g(1) _ f'(3) g(2)] Cons.prems(2) by (auto simp: entry_base_def)
  moreover have "\<forall>q. f q \<noteq> None \<longrightarrow> f' q = f q" using g(3) f'(3) by metis
  ultimately show ?case using f' same_outside_trans[OF g(4) f'(4)] by simp
qed simp

text \<open>The same with temporary directories that are left over and empty, and with calls that fail. A directory that was there stays, but for
  such a temporary directory.\<close>

definition cache_ok :: "string \<Rightarrow> fs \<Rightarrow> bool" where
  "cache_ok cache_dir f \<longleftrightarrow> plain_path cache_dir \<and> dirs f (components cache_dir) \<and>
     (\<forall>nm. vacant f (components cache_dir @ [nm]) \<or> f (components cache_dir @ [nm]) = Some FDir \<and>
        (prefix ''.tmp-'' nm \<longrightarrow> empty_dir f (components cache_dir @ [nm])))"

definition temp_place :: "string \<Rightarrow> fpath \<Rightarrow> bool" where
  "temp_place cache_dir q \<longleftrightarrow> (\<exists>nm. prefix ''.tmp-'' nm \<and> q = components cache_dir @ [nm])"

definition kept :: "string \<Rightarrow> fs \<Rightarrow> fs \<Rightarrow> bool" where
  "kept cache_dir f g \<longleftrightarrow> same_outside (components cache_dir) f g \<and> (\<forall>q. f q \<noteq> None \<longrightarrow> g q = f q \<or> temp_place cache_dir q)"

lemma cache_inv_ok: "cache_inv cache_dir f \<Longrightarrow> cache_ok cache_dir f"
  unfolding cache_inv_def cache_ok_def by blast

lemma kept_refl [simp]: "kept cache_dir f f"
  by (simp add: kept_def)

lemma kept_trans: "kept cache_dir f g \<Longrightarrow> kept cache_dir g h \<Longrightarrow> kept cache_dir f h"
  unfolding kept_def using same_outside_trans by metis

lemma temp_is_temp: "temp_place cache_dir (components cache_dir @ [tmp_name env base])"
  by (auto simp: temp_place_def tmp_name_def)

lemma cache_ok_is_cached:
  assumes "cache_ok cache_dir f" "plain_name base"
  shows "is_cached cache_dir base f \<longleftrightarrow> f (components cache_dir @ [base]) = Some FDir"
proof -
  have "in_place f (path_join cache_dir base)" using assms in_place_join by (simp add: cache_ok_def)
  moreover have "f (components cache_dir @ [base]) = None \<or> f (components cache_dir @ [base]) = Some FDir"
    using assms(1) unfolding cache_ok_def vacant_iff by blast
  ultimately show ?thesis
    using assms exists_in_place[of f "path_join cache_dir base"]
    by (auto simp: is_cached_def plain_join cache_ok_def)
qed

lemma cache_ok_retry:
  assumes "cache_ok cache_dir f" "plain_name base" "\<not> is_cached cache_dir base f"
  shows "retry_ready env base cache_dir f"
proof -
  have "prefix ''.tmp-'' (tmp_name env base)" by (simp add: tmp_name_def)
  then have "left_empty (components cache_dir @ [tmp_name env base]) f"
    using assms(1) unfolding cache_ok_def left_empty_def vacant_iff by blast
  moreover have "vacant f (components cache_dir @ [base])"
    using assms cache_ok_is_cached[OF assms(1,2)] unfolding cache_ok_def by blast
  ultimately show ?thesis using assms by (simp add: retry_ready_def cache_ok_def)
qed

text \<open>A change at one entry of the cache.\<close>

lemma cache_ok_at:
  assumes ok: "cache_ok cache_dir f" and same: "same_outside (components cache_dir @ [nm]) f g"
    and at: "vacant g (components cache_dir @ [nm]) \<or>
      g (components cache_dir @ [nm]) = Some FDir \<and> (prefix ''.tmp-'' nm \<longrightarrow> empty_dir g (components cache_dir @ [nm]))"
  shows "cache_ok cache_dir g"
proof -
  let ?c = "components cache_dir"
  have out: "g q = f q" if "\<not> prefix (?c @ [nm]) q" for q using same that by (simp add: same_outside_def)
  have "dirs g ?c \<longleftrightarrow> dirs f ?c" by (rule dirs_outside[OF same])
  moreover have other: "g (?c @ nm' # q) = f (?c @ nm' # q)" if "nm' \<noteq> nm" for nm' q
    using that by (intro out) simp
  have "vacant g (?c @ [nm']) = vacant f (?c @ [nm'])" "g (?c @ [nm']) = f (?c @ [nm'])" "empty_dir g (?c @ [nm']) = empty_dir f (?c @ [nm'])"
    if "nm' \<noteq> nm" for nm'
    using other[OF that] by (auto simp: vacant_def empty_dir_def prefix_def strict_prefix_def)
  ultimately show ?thesis using ok at unfolding cache_ok_def by metis
qed

text \<open>One path of a closure, whatever comes of it. Only an archive with bad links can leave more than an empty directory.\<close>

definition links_makeable :: "'h csi_env \<Rightarrow> bool" where
  "links_makeable env \<longleftrightarrow> (\<forall>base. \<not> bad_links env base)"

lemma fetch_keeps:
  assumes ok: "cache_ok cache_dir f" and base: "entry_base base" and absent: "\<not> is_cached cache_dir base f"
    and run: "fetch_and_extract env base cache_dir f = (r, f')" and links: "r = Ok () \<or> \<not> bad_links env base"
  shows "cache_ok cache_dir f' \<and> kept cache_dir f f'"
proof -
  let ?p = "components cache_dir @ [tmp_name env base]"
  let ?f0 = "prune ?p f"
  have plain: "plain_name base" using base by (simp add: entry_base_def)
  have ready: "retry_ready env base cache_dir f" by (rule cache_ok_retry[OF ok plain absent])
  note start = retry_start[OF ready]
  have f0: "cache_ok cache_dir ?f0"
    by (rule cache_ok_at[OF ok, of "tmp_name env base"]) (auto simp: same_outside_def prune_def vacant_def)
  have k0: "kept cache_dir f ?f0"
    using ready temp_is_temp[of cache_dir env base]
    by (auto simp: kept_def same_outside_def prune_def retry_ready_def left_empty_def empty_dir_def strict_prefix_def dest: append_prefixD)
  from retry_run[OF ready run] show ?thesis
  proof (elim disjE conjE)
    assume run0: "fetch_and_extract env base cache_dir ?f0 = (r, f')"
    show ?thesis
    proof (cases "r = Ok ()")
      case True
      then obtain nd where nd: "is_directory nd" "f' = graft (components cache_dir @ [base]) nd ?f0"
        using fetch_Ok[OF start] run0 by blast
      have "kept cache_dir ?f0 f'"
        using start by (auto simp: nd(2) kept_def graft_def same_outside_def fetch_ready_def vacant_def dest: append_prefixD)
      moreover have "f' (components cache_dir @ [base]) = Some FDir"
        using nd by (cases nd) (simp_all add: is_directory_def)
      then have "cache_ok cache_dir f'"
        using base by (intro cache_ok_at[OF f0, of base]) (auto simp: nd(2) entry_base_def)
      ultimately show ?thesis using kept_trans[OF k0] by blast
    next
      case False
      then have left: "same_outside ?p ?f0 f'" "left_empty ?p f'" using fetch_left[OF start run0] links by blast+
      have "vacant f' ?p \<or> f' ?p = Some FDir \<and> empty_dir f' ?p" using left(2) by (auto simp: left_empty_def vacant_iff)
      then have "cache_ok cache_dir f'" using cache_ok_at[OF f0 left(1)] by blast
      moreover have "kept cache_dir ?f0 f'"
        using left(1) by (auto simp: kept_def same_outside_def prune_def dest: append_prefixD)
      ultimately show ?thesis using kept_trans[OF k0] by blast
    qed
  qed (use ok in simp)
qed

lemma ensure_loop_keeps:
  "cache_ok cache_dir f \<Longrightarrow> \<forall>path \<in> set closure. entry_base (strip_store_dir path) \<Longrightarrow>
   piter (ensure_path env cache_dir) closure f = (r, f') \<Longrightarrow> r = Ok () \<or> links_makeable env \<Longrightarrow>
   cache_ok cache_dir f' \<and> kept cache_dir f f'"
proof (induction closure arbitrary: f)
  case (Cons path closure)
  let ?base = "strip_store_dir path"
  obtain r1 g where step: "ensure_path env cache_dir path f = (r1, g)" by fastforce
  have links: "r1 = Ok () \<or> \<not> bad_links env ?base"
    using Cons.prems(3,4) step by (cases r1) (auto simp: pbind_def links_makeable_def)
  have g: "cache_ok cache_dir g \<and> kept cache_dir f g"
    using step fetch_keeps[OF Cons.prems(1) _ _ _ links] Cons.prems(1,2)
    by (cases "is_cached cache_dir ?base f") (auto simp: ensure_path_def Let_def)
  show ?case
  proof (cases r1)
    case (Ok u)
    then have "piter (ensure_path env cache_dir) closure g = (r, f')" using Cons.prems(3) step by (simp add: pbind_def)
    then show ?thesis using Cons.IH[of g] Cons.prems(2,4) g kept_trans by (metis list.set_intros(2))
  qed (use Cons.prems(3) step g in \<open>auto simp: pbind_def\<close>)
qed simp

text \<open>The removal of temporary directories.\<close>

definition crash_state :: "string \<Rightarrow> fs \<Rightarrow> bool" where
  "crash_state cache_dir f \<longleftrightarrow> plain_path cache_dir \<and> dirs f (components cache_dir) \<and>
     (\<forall>nm. vacant f (components cache_dir @ [nm]) \<or> plain_name nm \<and> f (components cache_dir @ [nm]) = Some FDir)"

lemma remove_one:
  assumes "crash_state cache_dir f" and that: "plain_name nm"
  shows "pdrop (patomic (remove_dir_all (path_join cache_dir nm))) f = prune (components cache_dir @ [nm]) f"
proof -
  let ?p = "components cache_dir @ [nm]"
  have ip: "in_place f (path_join cache_dir nm)"
    using assms that in_place_join by (simp add: crash_state_def)
  have comp: "components (path_join cache_dir nm) = ?p" using assms that by (simp add: crash_state_def plain_join)
  consider "vacant f ?p" | "f ?p = Some FDir" using assms(1) unfolding crash_state_def by blast
  then show ?thesis
  proof cases
    case 1
    then have "prune ?p f = f" by (auto simp: prune_def vacant_def fun_eq_iff)
    then show ?thesis
      using 1 ip comp by (simp add: pdrop_def patomic_def remove_dir_all_def in_place_resolve in_place_at vacant_iff)
  next
    case 2
    then show ?thesis using remove_dir_all_dir[OF ip] comp by (simp add: pdrop_def patomic_def)
  qed
qed

lemma crash_state_prune: "crash_state cache_dir f \<Longrightarrow> crash_state cache_dir (prune (components cache_dir @ [nm]) f)"
proof -
  let ?c = "components cache_dir"
  assume f: "crash_state cache_dir f"
  have "dirs (prune (?c @ [nm]) f) ?c \<longleftrightarrow> dirs f ?c"
    using prefix_length_le[of _ ?c] prefix_length_le[of "?c @ [nm]"] by (intro dirs_cong) (fastforce simp: prune_def)
  moreover have "vacant (prune (?c @ [nm]) f) p" if "vacant f p" for p
    using that by (simp add: vacant_def prune_def)
  moreover have "vacant (prune (?c @ [nm]) f) (?c @ [nm])" by (simp add: vacant_def)
  moreover have "prune (?c @ [nm]) f (?c @ [nm']) = f (?c @ [nm'])" if "nm' \<noteq> nm" for nm' using that by simp
  ultimately show ?thesis using f unfolding crash_state_def by metis
qed

lemma remove_temp_spec:
  "crash_state cache_dir f \<Longrightarrow> \<forall>nm \<in> set nms. plain_name nm \<Longrightarrow>
   remove_temp cache_dir nms f =
     (\<lambda>q. if \<exists>nm \<in> set nms. prefix ''.tmp-'' nm \<and> prefix (components cache_dir @ [nm]) q then None else f q)"
proof (induction nms arbitrary: f)
  case (Cons nm nms)
  show ?case
  proof (cases "prefix ''.tmp-'' nm")
    case True
    let ?g = "prune (components cache_dir @ [nm]) f"
    have "remove_temp cache_dir (nm # nms) f = remove_temp cache_dir nms ?g"
      using remove_one[OF Cons.prems(1), of nm] Cons.prems(2) True by simp
    also have "\<dots> = (\<lambda>q. if \<exists>nm \<in> set nms. prefix ''.tmp-'' nm \<and> prefix (components cache_dir @ [nm]) q then None else ?g q)"
      using Cons.IH[OF crash_state_prune[OF Cons.prems(1)]] Cons.prems(2) by simp
    finally show ?thesis using True by (auto simp: fun_eq_iff prune_def)
  next
    case False
    then show ?thesis using Cons.IH[OF Cons.prems(1)] Cons.prems(2) by auto
  qed
qed simp

lemma cleanup_spec:
  assumes f: "crash_state cache_dir f" and listed: "set nms = {nm. f (components cache_dir @ [nm]) \<noteq> None}"
  shows "cleanup_temp_dirs cache_dir (Some nms) f =
    (\<lambda>q. if \<exists>nm. prefix ''.tmp-'' nm \<and> prefix (components cache_dir @ [nm]) q then None else f q)"
proof -
  have plain: "\<forall>nm \<in> set nms. plain_name nm" using f listed unfolding crash_state_def vacant_iff by (metis (mono_tags) mem_Collect_eq)
  have "f q = None" if "prefix (components cache_dir @ [nm]) q" "nm \<notin> set nms" for nm q
    using that f listed unfolding crash_state_def vacant_def by (metis (mono_tags) mem_Collect_eq option.distinct(1))
  then show ?thesis
    using remove_temp_spec[OF f plain] by (fastforce simp: cleanup_temp_dirs_def fun_eq_iff)
qed

text \<open>Archives of the format are never unpacked.\<close>

lemma standard_archive_fails:
  assumes ready: "fetch_ready env base cache_dir f" and sha: "sha256_streams (csi_sha env) (csi_sha256 env)"
    and nd: "wf_node nd" "dir_depth nd \<le> 256" and dl: "downloaded env base n (nar_encode nd)"
  shows "\<exists>e. fst (fetch_and_extract env base cache_dir f) = Err e"
proof (cases "is_directory nd")
  case True
  then obtain es where es: "nd = Directory es" by (cases nd) (auto simp: is_directory_def)
  have "parsed env (nar_encode nd) = Err (NarParse (''unexpected EOF: '' @ csi_eof env))"
    unfolding parsed_def es by (rule nar_directory_refused) (use nd es in simp_all)
  then show ?thesis using fetch_after_download[OF ready dl] by simp
next
  case False
  have "parsed env (nar_encode nd) = Ok (nd, \<lparr>algo = Sha256, digest = csi_sha256 env (nar_encode nd)\<rparr>)"
    using nar_leaf_parse[OF sha nd(1) False, of "csi_eof env" "[]"] by (simp add: parsed_def)
  moreover obtain e where "unpack_and_rename (path_join cache_dir (tmp_name env base)) (path_join cache_dir base) nd
      (f(components (path_join cache_dir (tmp_name env base)) \<mapsto> FDir)) =
      (Err e, f(components (path_join cache_dir (tmp_name env base)) \<mapsto> FDir))"
    using unpack_leaf[OF ready False] by blast
  ultimately show ?thesis using fetch_after_download[OF ready dl] by simp
qed

section \<open>A sample run\<close>

text \<open>A client that serves one archive for every hash, a hash function that keeps its input, and a
  file system with an empty cache directory.\<close>

definition sample_csi_env :: "bytes \<Rightarrow> bytes csi_env" where
  "sample_csi_env archive =
     \<lparr>csi_client = \<lparr>op_fetch_narinfo_by_hash = (\<lambda>h. Ok (sample_narinfo\<lparr>compression := CompressionNone,
          file_hash := \<lparr>algo = Sha256, digest = archive\<rparr>, nar_hash := \<lparr>algo = Sha256, digest = archive\<rparr>\<rparr>)),
        op_fetch_nar = (\<lambda>n. Ok archive)\<rparr>,
      csi_sha = collect_ops, csi_sha256 = id, csi_decode = (\<lambda>c b. Ok b), csi_eof = ''eof'', csi_pid = 1\<rparr>"

definition sample_fs :: fs where
  "sample_fs = [[''cache''] \<mapsto> FDir]"

lemma sample_basename: "parse_basename (basename sample_store_path) = Ok sample_store_path"
  using sample_path_ok by (rule base.parse_print)

lemma sample_hash: "to_nix_base32 (replicate 20 0) = ''00000000000000000000000000000000''"
  by code_simp

lemma sample_entry_base: "entry_base (basename sample_store_path)"
  by (simp add: entry_base_def plain_name_def basename_def hash_str_def sample_store_path_def sample_hash)

lemma sample_cache_path: "plain_path ''/cache''" "components ''/cache'' = [''cache'']"
  by (simp_all add: plain_path_def absolute_def components_def split_char_def)

lemma sample_cache_inv: "cache_inv ''/cache'' sample_fs"
  by (auto simp: cache_inv_def sample_cache_path dirs_def prefix_Cons at_def sample_fs_def vacant_def)

lemma sample_ready: "fetch_ready (sample_csi_env archive) (basename sample_store_path) ''/cache'' sample_fs"
proof (rule cache_inv_ready[OF sample_cache_inv])
  show plain: "plain_name (basename sample_store_path)" using sample_entry_base by (simp add: entry_base_def)
  show "\<not> is_cached ''/cache'' (basename sample_store_path) sample_fs"
    unfolding cached_iff[OF sample_cache_inv plain] sample_cache_path by (simp add: sample_fs_def)
qed

lemma sample_downloaded:
  "downloaded (sample_csi_env archive) (basename sample_store_path) (sample_narinfo\<lparr>compression := CompressionNone,
     file_hash := \<lparr>algo = Sha256, digest = archive\<rparr>, nar_hash := \<lparr>algo = Sha256, digest = archive\<rparr>\<rparr>) archive"
  by (simp add: downloaded_def sample_basename sample_csi_env_def sha256_hash_def decompress_nar_def)

text \<open>The archive of an empty directory, with the closing token that the reader wants in addition.\<close>

lemma sample_links:
  "parsed (sample_csi_env []) [] = Err (NarParse ''unexpected EOF: eof'')" "links_makeable (sample_csi_env [])"
proof -
  show "parsed (sample_csi_env []) [] = Err (NarParse ''unexpected EOF: eof'')"
    by (simp add: parsed_def sample_csi_env_def nar_parse_def nar_reader_new_def expect_str_def read_str_def
        read_bytes_def read_u64_def read_exact_def)
  then have parsed: "parsed (sample_csi_env []) [] \<noteq> Ok x" for x by simp
  have dec: "dec = []" if "downloaded (sample_csi_env []) base n dec" for base n dec
    using that by (auto simp: downloaded_def sample_csi_env_def decompress_nar_def)
  have "\<not> bad_links (sample_csi_env []) base" for base
    unfolding bad_links_def using dec parsed by blast
  then show "links_makeable (sample_csi_env [])" by (simp add: links_makeable_def)
qed

abbreviation sample_dir_archive :: bytes where
  "sample_dir_archive \<equiv> enc_tokens (root_tokens (Directory []))"

lemma sample_fetch_run:
  "fetch_and_extract (sample_csi_env sample_dir_archive) (basename sample_store_path) ''/cache'' sample_fs =
     (Ok (), graft [''cache'', basename sample_store_path] (Directory []) sample_fs)"
proof -
  let ?env = "sample_csi_env sample_dir_archive" and ?base = "basename sample_store_path"
  have wf: "wf_node (Directory [])" "dir_depth (Directory []) \<le> 256" by simp_all
  obtain h where h: "parsed ?env sample_dir_archive = Ok (Directory [], h)"
    using nar.parse_print[of "Directory []" collect_ops "''eof''"] wf
    by (auto simp: parsed_def sample_csi_env_def nar_tree_def obind_eq_Ok)
  then have "h = \<lparr>algo = Sha256, digest = sample_dir_archive\<rparr>"
    using nar_parse_hashed[OF collect_streams] by (fastforce simp: parsed_def sample_csi_env_def)
  then have "fetch_and_extract ?env ?base ''/cache'' sample_fs =
      unpack_and_rename (path_join ''/cache'' (tmp_name ?env ?base)) (path_join ''/cache'' ?base) (Directory [])
        (sample_fs(components (path_join ''/cache'' (tmp_name ?env ?base)) \<mapsto> FDir))"
    using fetch_after_download[OF sample_ready sample_downloaded, of sample_dir_archive] h by simp
  also have "\<dots> = (Ok (), graft (components (path_join ''/cache'' ?base)) (Directory []) sample_fs)"
    by (rule unpack_directory[OF sample_ready]) (simp_all add: is_directory_def)
  finally show ?thesis
    using sample_entry_base sample_cache_path by (simp add: plain_join entry_base_def)
qed

section \<open>Properties\<close>





text \<open>C18. The cache keeps its promise to the driver: when \<open>ensure_cached\<close> returns, every path of the
  closure is in the cache, whatever was there before still is, unchanged, and the cache is again in a state in which
  the next call can start.\<close>

theorem ensure_cached_complete:
  assumes "cache_inv cache_dir f" and "\<forall>path \<in> set closure. entry_base (strip_store_dir path)"
    and "ensure_cached env cache_dir closure cache_url_arg f = (Ok (), f')"
  shows "cache_inv cache_dir f' \<and> (\<forall>path \<in> set closure. is_cached cache_dir (strip_store_dir path) f') \<and>
    (\<forall>q. f q = None \<or> f' q = f q)"
  using ensure_loop_Ok[OF assms(1,2), of env f'] assms(3) unfolding ensure_cached_def by blast

theorem ensure_cached_complete_witness:
  "\<exists>f'. ensure_cached (sample_csi_env sample_dir_archive) ''/cache'' [basename sample_store_path] None sample_fs = (Ok (), f') \<and>
     is_cached ''/cache'' (strip_store_dir (basename sample_store_path)) f'"
proof -
  let ?f' = "graft [''cache'', basename sample_store_path] (Directory []) sample_fs"
  have strip: "strip_store_dir (basename sample_store_path) = basename sample_store_path"
    by (simp add: strip_store_dir_def strip_prefix_def basename_def hash_str_def sample_store_path_def sample_hash)
  have plain: "plain_name (basename sample_store_path)" using sample_entry_base by (simp add: entry_base_def)
  have "\<not> is_cached ''/cache'' (basename sample_store_path) sample_fs"
    unfolding cached_iff[OF sample_cache_inv plain] sample_cache_path by (simp add: sample_fs_def)
  then have "ensure_path (sample_csi_env sample_dir_archive) ''/cache'' (basename sample_store_path) sample_fs = (Ok (), ?f')"
    using sample_fetch_run by (simp add: ensure_path_def strip Let_def)
  then have run: "ensure_cached (sample_csi_env sample_dir_archive) ''/cache'' [basename sample_store_path] None sample_fs = (Ok (), ?f')"
    by (simp add: ensure_cached_def)
  moreover have "is_cached ''/cache'' (strip_store_dir (basename sample_store_path)) ?f'"
    using ensure_cached_complete[OF sample_cache_inv _ run] sample_entry_base by (simp add: strip)
  ultimately show ?thesis by blast
qed

text \<open>C32. The cache never unpacks an archive of the NAR format: for every well-formed tree within the depth limit,
  downloaded with the right hashes, the fetch fails. The reader refuses the archive of a directory, and a
  file or symbolic link at the root cannot be written over the temporary directory.\<close>

theorem csi_standard_archive_refused:
  assumes "fetch_ready env base cache_dir f" and "sha256_streams (csi_sha env) (csi_sha256 env)"
    and "wf_node nd" and "dir_depth nd \<le> 256" and "downloaded env base n (nar_encode nd)"
  shows "\<exists>e. fst (fetch_and_extract env base cache_dir f) = Err e"
  using assms by (rule standard_archive_fails)

theorem csi_standard_archive_refused_witness:
  "\<exists>e. fst (fetch_and_extract (sample_csi_env (nar_encode (Symlink ''bin/sh''))) (basename sample_store_path)
     ''/cache'' sample_fs) = Err e"
  by (rule csi_standard_archive_refused[OF sample_ready _ sample_symlink(1) _ sample_downloaded])
     (use collect_streams in \<open>simp_all add: sample_csi_env_def\<close>)

text \<open>Recovery from a crash: whatever temporary directories a crash has left, the cleanup at the start
  brings the cache back to the state in which calls can start, and it removes nothing but what is below names
  that start with \<open>.tmp-\<close>.\<close>

theorem cleanup_recovers:
  assumes "crash_state cache_dir f" and "set nms = {nm. f (components cache_dir @ [nm]) \<noteq> None}"
  shows "cache_inv cache_dir (cleanup_temp_dirs cache_dir (Some nms) f) \<and>
    (\<forall>q. (\<exists>nm. prefix ''.tmp-'' nm \<and> prefix (components cache_dir @ [nm]) q) \<or>
       cleanup_temp_dirs cache_dir (Some nms) f q = f q)"
proof -
  let ?c = "components cache_dir"
  let ?g = "\<lambda>q. if \<exists>nm. prefix ''.tmp-'' nm \<and> prefix (?c @ [nm]) q then None else f q"
  have "?g q = f q" if "prefix q ?c" for q
    using prefix_length_le[OF that] prefix_length_le[of "?c @ [_]" q] by fastforce
  then have "dirs ?g ?c" using assms(1) dirs_cong[of ?c ?g f] by (simp add: crash_state_def)
  moreover have "vacant ?g (?c @ [nm]) \<or> ?g (?c @ [nm]) = Some FDir \<and> \<not> prefix ''.tmp-'' nm" for nm
  proof (cases "prefix ''.tmp-'' nm")
    case True
    then show ?thesis by (auto simp: vacant_def)
  next
    case False
    then have "?g (?c @ [nm]) = f (?c @ [nm])" by auto
    moreover have "vacant ?g (?c @ [nm])" if "vacant f (?c @ [nm])" using that by (simp add: vacant_def)
    ultimately show ?thesis using assms(1) False by (metis (no_types, lifting) crash_state_def)
  qed
  ultimately show ?thesis
    unfolding cleanup_spec[OF assms] using assms(1) by (auto simp: cache_inv_def crash_state_def)
qed

theorem cleanup_recovers_witness:
  "cache_inv ''/cache'' (cleanup_temp_dirs ''/cache'' (Some [''.tmp-x'']) (sample_fs([''cache'', ''.tmp-x''] \<mapsto> FDir)))"
proof -
  let ?f = "sample_fs([''cache'', ''.tmp-x''] \<mapsto> FDir)"
  have "crash_state ''/cache'' ?f"
    by (auto simp: crash_state_def sample_cache_path dirs_def prefix_Cons at_def sample_fs_def vacant_def plain_name_def)
  moreover have "set [''.tmp-x''] = {nm. ?f (components ''/cache'' @ [nm]) \<noteq> None}"
    by (auto simp: sample_cache_path sample_fs_def split: if_splits)
  ultimately show ?thesis using cleanup_recovers by blast
qed

end
