(* ===== verification/Csi_Mount.thy ===== *)
theory Csi_Mount
  imports File_System
begin

text \<open>
  Mount operations of the CSI driver (src/crates/niphas-csi/src/mount.rs) and the in-memory ones of its
  tests (src/crates/niphas-csi/src/node.rs).

  The trait \<open>MountOps\<close> is the record \<open>mount_ops\<close>; the locale \<open>mount_contract\<close> states what the
  driver relies on, and is interpreted on both implementations. The real one runs on a host: a file
  system and the mount table of the kernel, which \<open>libc::mount\<close> and \<open>libc::umount2\<close> change and
  \<open>/proc/self/mountinfo\<close> shows, with spaces, tabs, newlines and backslashes in octal. For reasons of
  its own (privileges, security modules) the kernel can refuse to mount: the argument \<open>policy\<close>. An
  \<open>io::Error\<close> is its text.
\<close>

unbundle bit_operations_syntax

section \<open>The interface\<close>

record 's mount_ops =
  is_mountpoint :: "string \<Rightarrow> 's \<Rightarrow> bool"
  setup_target_dir :: "string \<Rightarrow> ('s, string, unit) prog"
  bind_mount_readonly :: "string \<Rightarrow> string \<Rightarrow> ('s, string, unit) prog"
  unmount :: "string \<Rightarrow> ('s, string, unit) prog"
  cleanup_target :: "string \<Rightarrow> ('s, string, unit) prog"

text \<open>What the driver relies on, for the target paths and sources it uses and in good states.\<close>

locale mount_contract =
  fixes ops :: "'s mount_ops"
    and mounts :: "'s \<Rightarrow> string set"
    and good :: "'s \<Rightarrow> bool"
    and is_target :: "string \<Rightarrow> bool"
    and is_source :: "string \<Rightarrow> bool"
  assumes mountpoint_iff: "good s \<Longrightarrow> is_target t \<Longrightarrow> is_mountpoint ops t s \<longleftrightarrow> t \<in> mounts s"
    and setup_keeps: "good s \<Longrightarrow> is_target t \<Longrightarrow> setup_target_dir ops t s = (r, s') \<Longrightarrow>
      good s' \<and> mounts s' = mounts s"
    and bind_effect: "good s \<Longrightarrow> is_target t \<Longrightarrow> is_source src \<Longrightarrow> t \<notin> mounts s \<Longrightarrow>
      bind_mount_readonly ops src t s = (r, s') \<Longrightarrow>
      good s' \<and> mounts s' = (if r = Ok () then insert t (mounts s) else mounts s)"
    and unmount_effect: "good s \<Longrightarrow> is_target t \<Longrightarrow> t \<in> mounts s \<Longrightarrow> unmount ops t s = (r, s') \<Longrightarrow>
      good s' \<and> mounts s' = (if r = Ok () then mounts s - {t} else mounts s)"
    and cleanup_keeps: "good s \<Longrightarrow> is_target t \<Longrightarrow> t \<notin> mounts s \<Longrightarrow> cleanup_target ops t s = (r, s') \<Longrightarrow>
      good s' \<and> mounts s' = mounts s"
    and mount_settled: "settled (fst (setup_target_dir ops t s))" "settled (fst (bind_mount_readonly ops src t s))"
      "settled (fst (unmount ops t s))"

section \<open>The operations of the tests\<close>

record fake_mounts =
  mounted :: "string set"
  setup_fail :: bool
  mount_fail :: bool
  unmount_fail :: bool

definition fake_mounts_new :: fake_mounts where
  "fake_mounts_new = \<lparr>mounted = {}, setup_fail = False, mount_fail = False, unmount_fail = False\<rparr>"

definition fake_with_mounted :: "string \<Rightarrow> fake_mounts" where
  "fake_with_mounted path = \<lparr>mounted = {path}, setup_fail = False, mount_fail = False, unmount_fail = False\<rparr>"

definition fake_mount_ops :: "fake_mounts mount_ops" where
  "fake_mount_ops =
     \<lparr>is_mountpoint = (\<lambda>path s. path \<in> mounted s),
      setup_target_dir = (\<lambda>path s. if setup_fail s then (Err ''fake setup fail'', s) else (Ok (), s)),
      bind_mount_readonly = (\<lambda>source target s.
        if mount_fail s then (Err ''fake mount fail'', s) else (Ok (), s\<lparr>mounted := insert target (mounted s)\<rparr>)),
      unmount = (\<lambda>target s.
        if unmount_fail s then (Err ''fake unmount fail'', s) else (Ok (), s\<lparr>mounted := mounted s - {target}\<rparr>)),
      cleanup_target = (\<lambda>target s. (Ok (), s))\<rparr>"

interpretation fake: mount_contract fake_mount_ops mounted "\<lambda>s. True" "\<lambda>t. True" "\<lambda>src. True"
  by unfold_locales (auto simp: fake_mount_ops_def split: if_splits)

section \<open>The kernel\<close>

definition MS_RDONLY :: u64 where "MS_RDONLY = 1"
definition MS_NOSUID :: u64 where "MS_NOSUID = 2"
definition MS_NODEV :: u64 where "MS_NODEV = 4"
definition MS_REMOUNT :: u64 where "MS_REMOUNT = 32"
definition MS_BIND :: u64 where "MS_BIND = 4096"

definition remount_flags :: u64 where
  "remount_flags = MS_BIND OR MS_REMOUNT OR MS_RDONLY OR MS_NOSUID OR MS_NODEV"

record mount_entry =
  m_target :: fpath
  m_source :: fpath
  m_flags :: u64

record host =
  host_fs :: fs
  mount_table :: "mount_entry list"

text \<open>The text of a path that is resolved.\<close>

definition path_text :: "fpath \<Rightarrow> string" where
  "path_text p = CHR ''/'' # join ''/'' p"

fun octal_escape :: "string \<Rightarrow> string" where
  "octal_escape [] = []"
| "octal_escape (c # s) =
     (if c = CHR '' '' then CHR 0x5C # ''040'' else if c = CHR 0x09 then CHR 0x5C # ''011''
      else if c = CHR 0x0A then CHR 0x5C # ''012'' else if c = CHR 0x5C then CHR 0x5C # ''134'' else [c]) @ octal_escape s"

definition mountinfo_fields :: "mount_entry \<Rightarrow> string list" where
  "mountinfo_fields m =
     [''36'', ''35'', ''98:0'', octal_escape (path_text (m_source m)), octal_escape (path_text (m_target m)),
      ''rw'', ''-'', ''none'', ''none'', ''rw'']"

definition mountinfo :: "host \<Rightarrow> string" where
  "mountinfo h = unlines (map (\<lambda>m. join '' '' (mountinfo_fields m)) (rev (mount_table h)))"

text \<open>A call of \<open>mount\<close> as the kernel sees it, and the refusals of its policy.\<close>

datatype mount_call = Bind fpath fpath | Remount fpath u64

definition fs_dir :: "fs \<Rightarrow> fpath \<Rightarrow> bool" where
  "fs_dir f p \<longleftrightarrow> at f p = Some FDir"

definition found :: "fs \<Rightarrow> string \<Rightarrow> (errno, fpath) outcome" where
  "found f s = obind (resolve f True s) (\<lambda>p. if at f p = None then Err ENOENT else Ok p)"

definition sys_bind :: "(mount_call \<Rightarrow> string option) \<Rightarrow> string \<Rightarrow> string \<Rightarrow> host \<Rightarrow> (string, host) outcome" where
  "sys_bind policy source target h =
     obind (omap_err errno_display (found (host_fs h) source)) (\<lambda>q.
     obind (omap_err errno_display (found (host_fs h) target)) (\<lambda>p.
     if fs_dir (host_fs h) q \<noteq> fs_dir (host_fs h) p then Err (errno_display ENOTDIR)
     else case policy (Bind q p) of
       Some e \<Rightarrow> Err e
     | None \<Rightarrow> Ok (h\<lparr>mount_table := \<lparr>m_target = p, m_source = q, m_flags = 0\<rparr> # mount_table h\<rparr>)))"

fun set_top_flags :: "fpath \<Rightarrow> u64 \<Rightarrow> mount_entry list \<Rightarrow> mount_entry list option" where
  "set_top_flags p fl [] = None"
| "set_top_flags p fl (m # ms) =
     (if m_target m = p then Some (m\<lparr>m_flags := fl AND (MS_RDONLY OR MS_NOSUID OR MS_NODEV)\<rparr> # ms)
      else map_option ((#) m) (set_top_flags p fl ms))"

definition sys_remount :: "(mount_call \<Rightarrow> string option) \<Rightarrow> string \<Rightarrow> u64 \<Rightarrow> host \<Rightarrow> (string, host) outcome" where
  "sys_remount policy target fl h =
     obind (omap_err errno_display (found (host_fs h) target)) (\<lambda>p.
     case set_top_flags p fl (mount_table h) of
       None \<Rightarrow> Err (errno_display EINVAL)
     | Some ms \<Rightarrow> (case policy (Remount p fl) of Some e \<Rightarrow> Err e | None \<Rightarrow> Ok (h\<lparr>mount_table := ms\<rparr>)))"

fun drop_top :: "fpath \<Rightarrow> mount_entry list \<Rightarrow> mount_entry list option" where
  "drop_top p [] = None"
| "drop_top p (m # ms) = (if m_target m = p then Some ms else map_option ((#) m) (drop_top p ms))"

definition sys_umount :: "string \<Rightarrow> host \<Rightarrow> (string, host) outcome" where
  "sys_umount target h =
     obind (omap_err errno_display (found (host_fs h) target)) (\<lambda>p.
     case drop_top p (mount_table h) of
       None \<Rightarrow> Err (errno_display EINVAL)
     | Some ms \<Rightarrow> Ok (h\<lparr>mount_table := ms\<rparr>))"

section \<open>The real operations\<close>

definition canonicalize :: "fs \<Rightarrow> string \<Rightarrow> string option" where
  "canonicalize f s = (case found f s of Ok p \<Rightarrow> Some (path_text p) | _ \<Rightarrow> None)"

definition real_is_mountpoint :: "string \<Rightarrow> host \<Rightarrow> bool" where
  "real_is_mountpoint path h =
     (case canonicalize (host_fs h) path of
        None \<Rightarrow> False
      | Some canonical \<Rightarrow>
          list_ex (\<lambda>line. let fields = split_whitespace line in 5 \<le> length fields \<and> fields ! 4 = canonical)
            (lines (mountinfo h)))"

definition on_fs :: "(fs, errno, unit) prog \<Rightarrow> (host, string, unit) prog" where
  "on_fs m = (\<lambda>h. case m (host_fs h) of (r, f) \<Rightarrow> (omap_err errno_display r, h\<lparr>host_fs := f\<rparr>))"

definition real_setup_target_dir :: "string \<Rightarrow> (host, string, unit) prog" where
  "real_setup_target_dir path =
     (\<lambda>h. if \<not> fs_exists (host_fs h) path then on_fs (create_dir_all path) h else (Ok (), h))"

text \<open>\<open>CString::new\<close>.\<close>

definition c_string :: "string \<Rightarrow> (string, string) outcome" where
  "c_string s =
     (if CHR 0x00 \<in> set s
      then Err (''nul byte found in provided data at position: '' @ nat_display (length (takeWhile (\<lambda>c. c \<noteq> CHR 0x00) s)))
      else Ok s)"

definition real_unmount :: "string \<Rightarrow> (host, string, unit) prog" where
  "real_unmount target = pbind (plift (c_string target)) (\<lambda>c_target. patomic (sys_umount c_target))"

text \<open>After a failed remount the bind mount is taken back; the error is the last one of the system, that
  of the remount unless taking back fails too.\<close>

definition real_bind_mount_readonly ::
  "(mount_call \<Rightarrow> string option) \<Rightarrow> string \<Rightarrow> string \<Rightarrow> (host, string, unit) prog" where
  "real_bind_mount_readonly policy source target =
     pbind (plift (c_string source)) (\<lambda>c_source.
     pbind (plift (c_string target)) (\<lambda>c_target.
     pbind (patomic (sys_bind policy c_source c_target)) (\<lambda>_. \<lambda>h.
       case sys_remount policy c_target remount_flags h of
         Ok h' \<Rightarrow> (Ok (), h')
       | Err e \<Rightarrow> (case real_unmount target h of
                    (Err e', h') \<Rightarrow> (Err e', h')
                  | (_, h') \<Rightarrow> (Err e, h'))
       | Panic \<Rightarrow> (Panic, h) | Diverge \<Rightarrow> (Diverge, h))))"

text \<open>A directory with something mounted on it is busy.\<close>

definition sys_rmdir :: "string \<Rightarrow> host \<Rightarrow> (string, host) outcome" where
  "sys_rmdir s h =
     obind (omap_err errno_display (resolve (host_fs h) False s)) (\<lambda>p.
     if p \<in> m_target ` set (mount_table h) then Err (errno_display EBUSY)
     else obind (omap_err errno_display (remove_dir s (host_fs h))) (\<lambda>f. Ok (h\<lparr>host_fs := f\<rparr>)))"

definition real_cleanup_target :: "string \<Rightarrow> (host, string, unit) prog" where
  "real_cleanup_target target =
     (\<lambda>h. if fs_exists (host_fs h) target then patomic (sys_rmdir target) h else (Ok (), h))"

definition real_mount_ops :: "(mount_call \<Rightarrow> string option) \<Rightarrow> host mount_ops" where
  "real_mount_ops policy =
     \<lparr>is_mountpoint = real_is_mountpoint, setup_target_dir = real_setup_target_dir,
      bind_mount_readonly = real_bind_mount_readonly policy, unmount = real_unmount,
      cleanup_target = real_cleanup_target\<rparr>"

section \<open>The real operations keep the contract\<close>

text \<open>Texts that mountinfo shows as they are: printable, without spaces and backslashes, and the text of
  the path they name.\<close>

definition clean_path :: "string \<Rightarrow> bool" where
  "clean_path s \<longleftrightarrow> plain_path s \<and> s = path_text (components s) \<and> graphic s \<and> CHR 0x5C \<notin> set s"

definition clean_entry :: "mount_entry \<Rightarrow> bool" where
  "clean_entry m \<longleftrightarrow> clean_path (path_text (m_source m)) \<and> clean_path (path_text (m_target m)) \<and>
     components (path_text (m_target m)) = m_target m"

text \<open>\<open>S\<close> is the set of paths that are free of symbolic links: those of the targets and of the sources.\<close>

definition host_good :: "fpath set \<Rightarrow> host \<Rightarrow> bool" where
  "host_good S h \<longleftrightarrow> (\<forall>p \<in> S. no_links (host_fs h) p) \<and> list_all clean_entry (mount_table h) \<and>
     distinct (map m_target (mount_table h)) \<and>
     (\<forall>p \<in> m_target ` set (mount_table h). dirs (host_fs h) (butlast p) \<and> at (host_fs h) p \<noteq> None)"

definition clean_in :: "fpath set \<Rightarrow> string \<Rightarrow> bool" where
  "clean_in S s \<longleftrightarrow> clean_path s \<and> components s \<in> S"

definition host_mounts :: "host \<Rightarrow> string set" where
  "host_mounts h = {t. clean_path t \<and> components t \<in> m_target ` set (mount_table h)}"

lemma clean_eq: "clean_path s \<Longrightarrow> clean_path t \<Longrightarrow> components s = components t \<longleftrightarrow> s = t"
  unfolding clean_path_def by metis

lemma found_settled: "settled (found f s)"
  by (auto simp: found_def resolve_settled)

lemma sys_settled:
  "settled (sys_bind policy source target h)" "settled (sys_remount policy target fl h)"
  "settled (sys_umount target h)" "settled (sys_rmdir target h)"
proof -
  have "settled (remove_dir target (host_fs h))"
    by (auto simp: remove_dir_def resolve_settled split: option.splits fnode.splits)
  then have "settled (obind (omap_err errno_display (remove_dir target (host_fs h))) (\<lambda>f. Ok (h\<lparr>host_fs := f\<rparr>)))"
    by (intro settled_obind) simp_all
  then show "settled (sys_rmdir target h)"
    unfolding sys_rmdir_def by (intro settled_obind) (simp_all add: resolve_settled)
  show "settled (sys_bind policy source target h)"
    unfolding sys_bind_def by (intro settled_obind) (auto simp: found_settled split: option.split)
  show "settled (sys_remount policy target fl h)"
    unfolding sys_remount_def by (intro settled_obind) (auto simp: found_settled split: option.split)
  show "settled (sys_umount target h)"
    unfolding sys_umount_def by (intro settled_obind) (auto simp: found_settled split: option.split)
qed

lemma found_clean:
  assumes "host_good S h" "clean_in S s"
  shows "found (host_fs h) s = Ok q \<longleftrightarrow>
    q = components s \<and> dirs (host_fs h) (butlast (components s)) \<and> at (host_fs h) (components s) \<noteq> None"
proof -
  have *: "plain_path s" "no_links (host_fs h) (components s)"
    using assms by (auto simp: host_good_def clean_in_def clean_path_def)
  have "\<not> is_link (at (host_fs h) (components s))" using *(2) by (simp add: no_links_def)
  then have there: "dirs (host_fs h) (butlast (components s)) \<Longrightarrow> resolve (host_fs h) True s = Ok (components s)"
    using resolve_plain[OF *(1)] by simp
  show ?thesis
  proof
    assume "found (host_fs h) s = Ok q"
    then have "resolve (host_fs h) True s = Ok q" "at (host_fs h) q \<noteq> None"
      by (auto simp: found_def obind_eq_Ok split: if_splits)
    then show "q = components s \<and> dirs (host_fs h) (butlast (components s)) \<and> at (host_fs h) (components s) \<noteq> None"
      using resolve_no_links[OF *, of True q] by simp
  next
    assume "q = components s \<and> dirs (host_fs h) (butlast (components s)) \<and> at (host_fs h) (components s) \<noteq> None"
    then show "found (host_fs h) s = Ok q" using there by (simp add: found_def)
  qed
qed

lemma c_string_clean: "clean_in S s \<Longrightarrow> c_string s = Ok s"
  by (simp add: c_string_def clean_in_def clean_path_def plain_path_def)

lemma octal_escape_clean: "graphic s \<Longrightarrow> CHR 0x5C \<notin> set s \<Longrightarrow> octal_escape s = s"
proof (induction s)
  case (Cons c s)
  then have "33 \<le> (of_char c :: nat)" by (simp add: graphic_def)
  then have "c \<noteq> CHR '' ''" "c \<noteq> CHR 0x09" "c \<noteq> CHR 0x0A" by auto
  moreover have "octal_escape s = s" using Cons by (cases "s = []") (auto simp: graphic_def)
  ultimately show ?case using Cons.prems by auto
qed simp

lemma mountinfo_lines:
  assumes "list_all clean_entry (mount_table h)"
  shows "map split_whitespace (lines (mountinfo h)) = map mountinfo_fields (rev (mount_table h))"
proof -
  have fields: "\<forall>x \<in> set (mountinfo_fields m). graphic x" if "m \<in> set (mount_table h)" for m
    using assms that octal_escape_clean
    by (auto simp: mountinfo_fields_def clean_entry_def clean_path_def list_all_iff) (simp_all add: graphic_def)
  have chars: "CHR 0x0A \<notin> set (join '' '' xs) \<and> (join '' '' xs = [] \<or> last (join '' '' xs) \<noteq> CHR 0x0D)"
    if "\<forall>x \<in> set xs. graphic x" for xs
    using that
  proof (induction "'' ''" xs rule: join.induct)
    case (2 x)
    then have "CHR 0x0A \<notin> set x" "CHR 0x0D \<notin> set x"
      using graphic_not_in[of x "CHR 0x0A"] graphic_not_in[of x "CHR 0x0D"] by simp_all
    then show ?case using last_in_set[of x] by fastforce
  next
    case (3 x y ys)
    then show ?case using graphic_not_in[of x "CHR 0x0A"] by (auto simp: graphic_def)
  qed simp
  have "lines (mountinfo h) = map (\<lambda>m. join '' '' (mountinfo_fields m)) (rev (mount_table h))"
    unfolding mountinfo_def by (rule lines_unlines) (use fields chars in fastforce)
  then show ?thesis using fields by (simp add: split_whitespace_join)
qed

lemma real_mountpoint_iff:
  assumes good: "host_good S h" and t: "clean_in S t"
  shows "real_is_mountpoint t h \<longleftrightarrow> t \<in> host_mounts h"
proof -
  let ?p = "components t"
  have tx: "t = path_text ?p" "clean_path t" using t by (auto simp: clean_in_def clean_path_def)
  have entries: "list_all clean_entry (mount_table h)" using good by (simp add: host_good_def)
  have field: "mountinfo_fields m ! 4 = t \<longleftrightarrow> m_target m = ?p" if "m \<in> set (mount_table h)" for m
  proof -
    have m: "clean_path (path_text (m_target m))" "components (path_text (m_target m)) = m_target m"
      using entries that by (auto simp: clean_entry_def list_all_iff)
    then have "octal_escape (path_text (m_target m)) = path_text (m_target m)"
      by (simp add: octal_escape_clean clean_path_def)
    then show ?thesis using clean_eq[OF m(1) tx(2)] m(2) by (simp add: mountinfo_fields_def)
  qed
  have scan: "list_ex (\<lambda>line. let fields = split_whitespace line in 5 \<le> length fields \<and> fields ! 4 = t) (lines (mountinfo h)) \<longleftrightarrow>
      ?p \<in> m_target ` set (mount_table h)"
  proof -
    have "list_ex (\<lambda>line. let fields = split_whitespace line in 5 \<le> length fields \<and> fields ! 4 = t) (lines (mountinfo h)) \<longleftrightarrow>
        list_ex (\<lambda>fields. 5 \<le> length fields \<and> fields ! 4 = t) (map split_whitespace (lines (mountinfo h)))"
      by (simp add: list_ex_iff Let_def)
    also have "\<dots> \<longleftrightarrow> (\<exists>m \<in> set (mount_table h). mountinfo_fields m ! 4 = t)"
      unfolding mountinfo_lines[OF entries] by (auto simp: list_ex_iff mountinfo_fields_def)
    also have "\<dots> \<longleftrightarrow> (\<exists>m \<in> set (mount_table h). ?p = m_target m)" using field by metis
    finally show ?thesis by (simp add: image_iff)
  qed
  show ?thesis
  proof (cases "found (host_fs h) t")
    case (Ok q)
    then have "q = ?p" using found_clean[OF good t] by blast
    then have "canonicalize (host_fs h) t = Some t"
      using Ok tx(1) by (simp add: canonicalize_def)
    then show ?thesis using scan tx(2) by (simp add: real_is_mountpoint_def host_mounts_def)
  next
    case (Err e)
    then have "?p \<notin> m_target ` set (mount_table h)"
      using found_clean[OF good t] good unfolding host_good_def by (metis outcome.distinct(1))
    then show ?thesis using Err by (simp add: real_is_mountpoint_def host_mounts_def canonicalize_def)
  qed (use found_settled[of "host_fs h" t] in simp_all)
qed

text \<open>The effect of each operation.\<close>

lemma drop_top_distinct:
  "distinct (map m_target ms) \<Longrightarrow> p \<in> m_target ` set ms \<Longrightarrow>
     \<exists>ms'. drop_top p ms = Some ms' \<and> set ms' \<subseteq> set ms \<and> m_target ` set ms' = m_target ` set ms - {p} \<and>
       distinct (map m_target ms')"
proof (induction ms)
  case (Cons m ms)
  show ?case
  proof (cases "m_target m = p")
    case True
    then show ?thesis using Cons.prems by auto
  next
    case False
    then have "p \<in> m_target ` set ms" using Cons.prems(2) by auto
    then obtain ms' where ms': "drop_top p ms = Some ms'" "set ms' \<subseteq> set ms"
        "m_target ` set ms' = m_target ` set ms - {p}" "distinct (map m_target ms')"
      using Cons.IH Cons.prems(1) by auto
    then have "m_target m \<notin> m_target ` set ms'" using Cons.prems(1) by auto
    then show ?thesis using ms' False by auto
  qed
qed simp

lemma host_mounts_canonical:
  "clean_path t \<Longrightarrow> m_target ` set ms' = insert (components t) (m_target ` set (mount_table h)) \<Longrightarrow>
     host_mounts (h\<lparr>mount_table := ms'\<rparr>) = insert t (host_mounts h)"
  "clean_path t \<Longrightarrow> m_target ` set ms' = m_target ` set (mount_table h) - {components t} \<Longrightarrow>
     host_mounts (h\<lparr>mount_table := ms'\<rparr>) = host_mounts h - {t}"
  using clean_eq by (auto simp: host_mounts_def)

lemma host_good_table:
  "host_good S h \<Longrightarrow> list_all clean_entry ms' \<Longrightarrow> distinct (map m_target ms') \<Longrightarrow>
   (\<forall>p \<in> m_target ` set ms'. dirs (host_fs h) (butlast p) \<and> at (host_fs h) p \<noteq> None) \<Longrightarrow>
   host_good S (h\<lparr>mount_table := ms'\<rparr>)"
  by (simp add: host_good_def)

lemma real_unmount_run:
  assumes good: "host_good S h" and t: "clean_in S t" and m: "t \<in> host_mounts h"
  shows "\<exists>ms'. real_unmount t h = (Ok (), h\<lparr>mount_table := ms'\<rparr>) \<and> drop_top (components t) (mount_table h) = Some ms' \<and>
    host_good S (h\<lparr>mount_table := ms'\<rparr>) \<and> host_mounts (h\<lparr>mount_table := ms'\<rparr>) = host_mounts h - {t}"
proof -
  have p: "components t \<in> m_target ` set (mount_table h)" using m by (simp add: host_mounts_def)
  have dist: "distinct (map m_target (mount_table h))" using good by (simp add: host_good_def)
  obtain ms' where ms': "drop_top (components t) (mount_table h) = Some ms'" "set ms' \<subseteq> set (mount_table h)"
      "m_target ` set ms' = m_target ` set (mount_table h) - {components t}" "distinct (map m_target ms')"
    using drop_top_distinct[OF dist p] by blast
  have "found (host_fs h) t = Ok (components t)"
    using found_clean[OF good t] p good unfolding host_good_def by blast
  then have "real_unmount t h = (Ok (), h\<lparr>mount_table := ms'\<rparr>)"
    using ms'(1) by (simp add: real_unmount_def c_string_clean[OF t] sys_umount_def patomic_def)
  moreover have "host_good S (h\<lparr>mount_table := ms'\<rparr>)"
    using good ms'(2,3,4) by (intro host_good_table) (auto simp: host_good_def list_all_iff)
  moreover have "host_mounts (h\<lparr>mount_table := ms'\<rparr>) = host_mounts h - {t}"
    using t ms'(3) by (intro host_mounts_canonical) (simp_all add: clean_in_def)
  ultimately show ?thesis using ms'(1) by blast
qed

definition volume_flags :: u64 where
  "volume_flags = remount_flags AND (MS_RDONLY OR MS_NOSUID OR MS_NODEV)"

lemma real_bind_run:
  assumes good: "host_good S h" and t: "clean_in S t" and src: "clean_in S src" and free: "t \<notin> host_mounts h"
  shows "(\<exists>e. real_bind_mount_readonly policy src t h = (Err e, h)) \<or>
    (let h' = h\<lparr>mount_table := \<lparr>m_target = components t, m_source = components src, m_flags = volume_flags\<rparr> # mount_table h\<rparr>
     in real_bind_mount_readonly policy src t h = (Ok (), h') \<and> host_good S h' \<and> host_mounts h' = insert t (host_mounts h))"
proof (cases "sys_bind policy src t h")
  case (Err e)
  then show ?thesis by (simp add: real_bind_mount_readonly_def c_string_clean[OF t] c_string_clean[OF src] patomic_def)
next
  case (Ok h1)
  let ?p = "components t" and ?q = "components src"
  let ?m = "\<lparr>m_target = ?p, m_source = ?q, m_flags = 0\<rparr>" and ?m' = "\<lparr>m_target = ?p, m_source = ?q, m_flags = volume_flags\<rparr>"
  obtain p q where pq: "found (host_fs h) src = Ok q" "found (host_fs h) t = Ok p"
      "h1 = h\<lparr>mount_table := \<lparr>m_target = p, m_source = q, m_flags = 0\<rparr> # mount_table h\<rparr>"
    using Ok by (auto simp: sys_bind_def obind_eq_Ok omap_err_eq_Ok split: if_splits option.splits)
  have p: "p = ?p" "q = ?q" "dirs (host_fs h) (butlast ?p)" "at (host_fs h) ?p \<noteq> None"
    using pq(1,2) found_clean[OF good] t src by auto
  have h1: "h1 = h\<lparr>mount_table := ?m # mount_table h\<rparr>" using pq(3) p(1,2) by simp
  have new: "?p \<notin> m_target ` set (mount_table h)" using free t by (simp add: host_mounts_def clean_in_def)
  have step: "real_bind_mount_readonly policy src t h =
      (case sys_remount policy t remount_flags h1 of
         Ok h' \<Rightarrow> (Ok (), h')
       | Err e \<Rightarrow> (case real_unmount t h1 of (Err e', h') \<Rightarrow> (Err e', h') | (_, h') \<Rightarrow> (Err e, h'))
       | Panic \<Rightarrow> (Panic, h1) | Diverge \<Rightarrow> (Diverge, h1))"
    using Ok by (simp add: real_bind_mount_readonly_def c_string_clean[OF t] c_string_clean[OF src] patomic_def pbind_def)
  have entry: "clean_entry ?m" "clean_entry ?m'"
    using t src unfolding clean_in_def clean_path_def clean_entry_def by (metis mount_entry.select_convs(1,2))+
  have remount: "sys_remount policy t remount_flags h1 =
      (case policy (Remount ?p remount_flags) of Some e \<Rightarrow> Err e | None \<Rightarrow> Ok (h\<lparr>mount_table := ?m' # mount_table h\<rparr>))"
    using pq(2) p(1) by (simp add: sys_remount_def h1 volume_flags_def split: option.split)
  have un: "real_unmount t h1 = (Ok (), h)"
    using pq(2) p(1) by (simp add: real_unmount_def c_string_clean[OF t] sys_umount_def h1 patomic_def)
  show ?thesis
  proof (cases "policy (Remount ?p remount_flags)")
    case (Some e)
    then show ?thesis using step remount un by simp
  next
    case None
    let ?h' = "h\<lparr>mount_table := ?m' # mount_table h\<rparr>"
    have "host_good S ?h'"
      using good new p entry(2) by (intro host_good_table) (auto simp: host_good_def)
    moreover have "host_mounts ?h' = insert t (host_mounts h)"
      using t by (intro host_mounts_canonical) (simp_all add: clean_in_def)
    ultimately show ?thesis using None step remount by (simp add: Let_def)
  qed
qed (use sys_settled(1)[of policy src t h] in simp_all)

lemma real_setup_run:
  assumes "host_good S h"
  shows "\<exists>r f. real_setup_target_dir t h = (r, h\<lparr>host_fs := f\<rparr>) \<and> settled r \<and> host_good S (h\<lparr>host_fs := f\<rparr>) \<and>
    host_mounts (h\<lparr>host_fs := f\<rparr>) = host_mounts h"
proof (cases "fs_exists (host_fs h) t")
  case True
  then show ?thesis using assms
    by (intro exI[of _ "Ok ()"] exI[of _ "host_fs h"]) (simp add: real_setup_target_dir_def)
next
  case False
  obtain r f where run: "create_dir_all t (host_fs h) = (r, f)" by fastforce
  then have f: "grown (host_fs h) f" "settled r" using create_dir_all_grown[of "host_fs h" t] by simp_all
  have "real_setup_target_dir t h = (omap_err errno_display r, h\<lparr>host_fs := f\<rparr>)"
    using False run by (simp add: real_setup_target_dir_def on_fs_def)
  moreover have "host_good S (h\<lparr>host_fs := f\<rparr>)"
    using assms grown_keeps[OF f(1)] by (simp add: host_good_def)
  moreover have "host_mounts (h\<lparr>host_fs := f\<rparr>) = host_mounts h" by (simp add: host_mounts_def)
  ultimately show ?thesis using f(2) by (meson settled_omap_err)
qed

lemma real_cleanup_run:
  assumes good: "host_good S h" and t: "clean_in S t" and free: "t \<notin> host_mounts h"
  shows "\<exists>r f. real_cleanup_target t h = (r, h\<lparr>host_fs := f\<rparr>) \<and> host_good S (h\<lparr>host_fs := f\<rparr>) \<and>
    host_mounts (h\<lparr>host_fs := f\<rparr>) = host_mounts h"
proof (cases "fs_exists (host_fs h) t \<and> (\<exists>h'. sys_rmdir t h = Ok h')")
  case False
  then have "\<exists>r. real_cleanup_target t h = (r, h)"
    by (auto simp: real_cleanup_target_def patomic_def split: outcome.split)
  then obtain r where "real_cleanup_target t h = (r, h\<lparr>host_fs := host_fs h\<rparr>)" by auto
  then show ?thesis using good by (intro exI[of _ r] exI[of _ "host_fs h"]) simp
next
  case True
  let ?p = "components t"
  obtain h' where run: "sys_rmdir t h = Ok h'" using True by blast
  then obtain f where f: "remove_dir t (host_fs h) = Ok f" "h' = h\<lparr>host_fs := f\<rparr>"
    by (auto simp: sys_rmdir_def obind_eq_Ok omap_err_eq_Ok split: if_splits)
  have plain: "plain_path t" "no_links (host_fs h) ?p"
    using good t by (auto simp: host_good_def clean_in_def clean_path_def)
  obtain q where "resolve (host_fs h) False t = Ok q" "f = prune q (host_fs h)" "empty_dir (host_fs h) q" "q \<noteq> []"
    using f(1) by (auto simp: remove_dir_def obind_eq_Ok split: option.splits) (auto split: fnode.splits if_splits)
  then have pr: "f = prune ?p (host_fs h)" "empty_dir (host_fs h) ?p" "?p \<noteq> []"
    using resolve_no_links[OF plain] by auto
  have "?p \<notin> m_target ` set (mount_table h)" using free t by (simp add: host_mounts_def clean_in_def)
  then have kept: "dirs f (butlast p) \<and> at f p \<noteq> None" if "p \<in> m_target ` set (mount_table h)" for p
    using that good prune_keeps(2,3)[OF pr(2,3), of p] unfolding host_good_def pr(1) by metis
  have "\<forall>p \<in> S. no_links f p"
    using good prune_keeps(1)[OF pr(2,3)] unfolding pr(1) by (simp add: host_good_def)
  then have "host_good S h'" using good kept by (simp add: host_good_def f(2))
  moreover have "real_cleanup_target t h = (Ok (), h')"
    using True run by (simp add: real_cleanup_target_def patomic_def)
  ultimately show ?thesis using f(2) by (auto simp: host_mounts_def)
qed

lemma real_mount_settled:
  "settled (fst (real_unmount t h))" "settled (fst (real_setup_target_dir t h))"
  "settled (fst (real_bind_mount_readonly policy src t h))"
proof -
  have atomic: "settled (f s) \<Longrightarrow> settled (fst (patomic f s))" for f and s :: host
    by (cases "f s") (simp_all add: patomic_def)
  have c: "settled (c_string s)" for s by (simp add: c_string_def)
  show un: "settled (fst (real_unmount t h))" for t h
    using c[of t] atomic[OF sys_settled(3)] by (cases "c_string t") (simp_all add: real_unmount_def)
  show "settled (fst (real_setup_target_dir t h))"
    using create_dir_all_grown[of "host_fs h" t]
    by (auto simp: real_setup_target_dir_def on_fs_def split: prod.split)
  have remount: "settled (fst (case sys_remount policy t remount_flags h of
         Ok h' \<Rightarrow> (Ok (), h')
       | Err e \<Rightarrow> (case real_unmount t h of (Err e', h') \<Rightarrow> (Err e', h') | (_, h') \<Rightarrow> (Err e, h'))
       | Panic \<Rightarrow> (Panic, h) | Diverge \<Rightarrow> (Diverge, h)))" for h
    using sys_settled(2)[of policy t remount_flags h] by (auto split: outcome.splits prod.splits)
  show "settled (fst (real_bind_mount_readonly policy src t h))"
    using c[of src] c[of t] sys_settled(1)[of policy src t h] remount
    by (cases "c_string src"; cases "c_string t"; cases "sys_bind policy src t h")
       (simp_all add: real_bind_mount_readonly_def c_string_def patomic_def pbind_def split: if_splits)
qed

text \<open>Mounting does not change the file system.\<close>

lemma sys_fs:
  "sys_bind policy source target h = Ok h' \<Longrightarrow> host_fs h' = host_fs h"
  "sys_remount policy target fl h = Ok h' \<Longrightarrow> host_fs h' = host_fs h"
  "sys_umount target h = Ok h' \<Longrightarrow> host_fs h' = host_fs h"
  by (auto simp: sys_bind_def sys_remount_def sys_umount_def obind_eq_Ok split: if_splits option.splits)

lemma c_string_cases: "c_string s = Ok s \<or> (\<exists>e. c_string s = Err e)"
  by (simp add: c_string_def)

lemma real_unmount_fs:
  assumes "real_unmount t h = (r, h')"
  shows "host_fs h' = host_fs h"
proof (cases "c_string t = Ok t")
  case True
  show ?thesis
  proof (cases "sys_umount t h")
    case (Ok h1)
    then have "h' = h1" using assms True by (simp add: real_unmount_def patomic_def)
    then show ?thesis using sys_fs(3) Ok by blast
  qed (use assms True in \<open>auto simp: real_unmount_def patomic_def\<close>)
next
  case False
  then obtain e where "c_string t = Err e" using c_string_cases by blast
  then show ?thesis using assms by (simp add: real_unmount_def)
qed

lemma real_bind_fs:
  assumes "real_bind_mount_readonly policy src t h = (r, h')"
  shows "host_fs h' = host_fs h"
proof (cases "\<exists>h1. c_string src = Ok src \<and> c_string t = Ok t \<and> sys_bind policy src t h = Ok h1")
  case True
  then obtain h1 where h1: "c_string src = Ok src" "c_string t = Ok t" "sys_bind policy src t h = Ok h1" by blast
  obtain r2 h2 where un: "real_unmount t h1 = (r2, h2)" by fastforce
  have "host_fs h' = host_fs h1"
  proof (cases "sys_remount policy t remount_flags h1")
    case (Ok h3)
    then have "h' = h3" using assms h1 by (simp add: real_bind_mount_readonly_def patomic_def pbind_def)
    then show ?thesis using sys_fs(2) Ok by blast
  next
    case (Err e)
    then have "h' = h2"
      using assms h1 un by (cases r2) (simp_all add: real_bind_mount_readonly_def patomic_def pbind_def)
    then show ?thesis using real_unmount_fs[OF un] by simp
  qed (use assms h1 in \<open>auto simp: real_bind_mount_readonly_def patomic_def pbind_def\<close>)
  then show ?thesis using sys_fs(1)[OF h1(3)] by simp
next
  case False
  then consider e where "c_string src = Err e" | e where "c_string src = Ok src" "c_string t = Err e"
    | "c_string src = Ok src" "c_string t = Ok t" "\<nexists>h1. sys_bind policy src t h = Ok h1"
    using c_string_cases by metis
  then show ?thesis
  proof cases
    case 3
    then have "h' = h"
      using assms by (cases "sys_bind policy src t h") (simp_all add: real_bind_mount_readonly_def patomic_def pbind_def)
    then show ?thesis by simp
  qed (use assms in \<open>simp_all add: real_bind_mount_readonly_def\<close>)
qed

interpretation real: mount_contract "real_mount_ops policy" host_mounts "host_good S" "clean_in S" "clean_in S"
proof unfold_locales
  fix s s' :: host and t src :: string and r :: "(string, unit) outcome"
  assume good: "host_good S s" and t: "clean_in S t"
  show "is_mountpoint (real_mount_ops policy) t s \<longleftrightarrow> t \<in> host_mounts s"
    using real_mountpoint_iff[OF good t] by (simp add: real_mount_ops_def)
  show "host_good S s' \<and> host_mounts s' = host_mounts s"
    if "setup_target_dir (real_mount_ops policy) t s = (r, s')"
    using that real_setup_run[OF good, of t] by (auto simp: real_mount_ops_def)
  show "host_good S s' \<and> host_mounts s' = (if r = Ok () then insert t (host_mounts s) else host_mounts s)"
    if "clean_in S src" "t \<notin> host_mounts s" "bind_mount_readonly (real_mount_ops policy) src t s = (r, s')"
    using that real_bind_run[OF good t that(1,2), of policy] good by (auto simp: real_mount_ops_def Let_def)
  show "host_good S s' \<and> host_mounts s' = (if r = Ok () then host_mounts s - {t} else host_mounts s)"
    if "t \<in> host_mounts s" "unmount (real_mount_ops policy) t s = (r, s')"
    using that real_unmount_run[OF good t that(1)] by (auto simp: real_mount_ops_def)
  show "host_good S s' \<and> host_mounts s' = host_mounts s"
    if "t \<notin> host_mounts s" "cleanup_target (real_mount_ops policy) t s = (r, s')"
    using that real_cleanup_run[OF good t that(1)] by (auto simp: real_mount_ops_def)
qed (simp_all add: real_mount_ops_def real_mount_settled)

end
