(* ===== verification/Csi_Node.thy ===== *)
theory Csi_Node
  imports Csi_Cache Csi_Mount
begin

text \<open>
  The gRPC services of the CSI driver: the node service (src/crates/niphas-csi/src/node.rs) and the
  identity service (src/crates/niphas-csi/src/identity.rs). The node service is generic over the state
  \<open>'s\<close>, the fetching of a closure and the mount operations, as the code is generic over its cache client and its
  mount operations. The messages of the protocol have the fields that the services read.
\<close>

section \<open>Definitions\<close>

datatype code = InvalidArgument | Unavailable | InternalError | Unimplemented

datatype grpc_status = Status (status_code: code) (status_message: string)

record 's node_service =
  node_id :: string
  svc_cache_dir :: string
  svc_ensure :: "string list \<Rightarrow> string option \<Rightarrow> ('s, niphas_error, unit) prog"
  svc_mount :: "'s mount_ops"

definition node_service_with_deps ::
  "string \<Rightarrow> string \<Rightarrow> (string list \<Rightarrow> string option \<Rightarrow> ('s, niphas_error, unit) prog) \<Rightarrow> 's mount_ops \<Rightarrow> 's node_service" where
  "node_service_with_deps nid cache_dir ensure mount =
     \<lparr>node_id = nid, svc_cache_dir = cache_dir, svc_ensure = ensure, svc_mount = mount\<rparr>"

text \<open>The cache works on the file system of the host.\<close>

definition host_ensure ::
  "'h csi_env \<Rightarrow> string \<Rightarrow> string list \<Rightarrow> string option \<Rightarrow> (host, niphas_error, unit) prog" where
  "host_ensure env cache_dir closure u =
     (\<lambda>h. case ensure_cached env cache_dir closure u (host_fs h) of (r, f) \<Rightarrow> (r, h\<lparr>host_fs := f\<rparr>))"

definition node_service_new ::
  "'h csi_env \<Rightarrow> (mount_call \<Rightarrow> string option) \<Rightarrow> string \<Rightarrow> string \<Rightarrow> host node_service" where
  "node_service_new env policy nid cache_dir =
     node_service_with_deps nid cache_dir (host_ensure env cache_dir) (real_mount_ops policy)"

record publish_request =
  pub_volume_id :: string
  pub_target_path :: string
  volume_context :: "string \<Rightarrow> string option"

record unpublish_request =
  unpub_volume_id :: string
  unpub_target_path :: string

definition closure_list :: "string \<Rightarrow> string list" where
  "closure_list raw = filter (\<lambda>s. s \<noteq> []) (map trim (split_char (CHR '','') raw))"

text \<open>Creating the target and mounting, once the closure is there.\<close>

definition publish_mount :: "'s node_service \<Rightarrow> string \<Rightarrow> string \<Rightarrow> ('s, grpc_status, unit) prog" where
  "publish_mount svc sp target_path =
     pbind (pmap_err (\<lambda>e. Status InternalError (''failed to create target dir: '' @ e))
              (setup_target_dir (svc_mount svc) target_path)) (\<lambda>_.
     pon_err (pmap_err (\<lambda>e. Status InternalError (''bind mount failed: '' @ e))
                (bind_mount_readonly (svc_mount svc) (path_for (svc_cache_dir svc) sp) target_path))
       (pdrop (cleanup_target (svc_mount svc) target_path)))"

definition node_publish_volume :: "'s node_service \<Rightarrow> publish_request \<Rightarrow> ('s, grpc_status, unit) prog" where
  "node_publish_volume svc req = (\<lambda>s.
     let target_path = pub_target_path req; ctx = volume_context req in
     if pub_volume_id req = [] then (Err (Status InvalidArgument ''volume_id is required''), s)
     else if target_path = [] then (Err (Status InvalidArgument ''target_path is required''), s)
     else if is_mountpoint (svc_mount svc) target_path s then (Ok (), s)
     else case ctx ''storePath'' of
       None \<Rightarrow> (Err (Status InvalidArgument ''volumeAttributes.storePath is required''), s)
     | Some sp \<Rightarrow>
       (case ctx ''closurePaths'' of
          None \<Rightarrow> (Err (Status InvalidArgument ''volumeAttributes.closurePaths is required''), s)
        | Some raw \<Rightarrow>
            if closure_list raw = []
            then (Err (Status InvalidArgument ''closurePaths must contain at least one path''), s)
            else pbind (pmap_err (\<lambda>e. Status Unavailable (''failed to fetch closure: '' @ niphas_error_display e))
                          (svc_ensure svc (closure_list raw) (ctx ''binaryCacheUrl''))) (\<lambda>_.
                 publish_mount svc sp target_path) s))"

definition node_unpublish_volume :: "'s node_service \<Rightarrow> unpublish_request \<Rightarrow> ('s, grpc_status, unit) prog" where
  "node_unpublish_volume svc req = (\<lambda>s.
     let target_path = unpub_target_path req; ops = svc_mount svc in
     if unpub_volume_id req = [] then (Err (Status InvalidArgument ''volume_id is required''), s)
     else if target_path = [] then (Err (Status InvalidArgument ''target_path is required''), s)
     else if \<not> is_mountpoint ops target_path s then (Ok (), pdrop (cleanup_target ops target_path) s)
     else pbind (pmap_err (\<lambda>e. Status InternalError (''unmount failed: '' @ e)) (unmount ops target_path)) (\<lambda>_ s.
            (Ok (), pdrop (cleanup_target ops target_path) s)) s)"

record node_info =
  info_node_id :: string
  max_volumes_per_node :: int
  accessible_topology :: "unit option"

definition node_get_capabilities :: "(grpc_status, string list) outcome" where
  "node_get_capabilities = Ok []"

definition node_get_info :: "'s node_service \<Rightarrow> (grpc_status, node_info) outcome" where
  "node_get_info svc = Ok \<lparr>info_node_id = node_id svc, max_volumes_per_node = 0, accessible_topology = None\<rparr>"

definition node_stage_volume :: "(grpc_status, unit) outcome" where
  "node_stage_volume = Err (Status Unimplemented ''NodeStageVolume not supported (ephemeral volumes)'')"

definition node_unstage_volume :: "(grpc_status, unit) outcome" where
  "node_unstage_volume = Err (Status Unimplemented ''NodeUnstageVolume not supported (ephemeral volumes)'')"

definition node_get_volume_stats :: "(grpc_status, unit) outcome" where
  "node_get_volume_stats = Err (Status Unimplemented ''NodeGetVolumeStats not supported'')"

definition node_expand_volume :: "(grpc_status, unit) outcome" where
  "node_expand_volume = Err (Status Unimplemented ''NodeExpandVolume not supported'')"

subsection \<open>The identity service\<close>

record plugin_info =
  plugin_name :: string
  vendor_version :: string

definition get_plugin_info :: "string \<Rightarrow> (grpc_status, plugin_info) outcome" where
  "get_plugin_info cargo_version = Ok \<lparr>plugin_name = ''niphas.io.csi'', vendor_version = cargo_version\<rparr>"

definition get_plugin_capabilities :: "(grpc_status, string list) outcome" where
  "get_plugin_capabilities = Ok []"

definition probe :: "(grpc_status, bool option) outcome" where
  "probe = Ok (Some True)"

text \<open>The ways through the publish handler.\<close>

definition publish_run :: "'s node_service \<Rightarrow> publish_request \<Rightarrow> string \<Rightarrow> string \<Rightarrow> ('s, grpc_status, unit) prog" where
  "publish_run svc req sp raw =
     pbind (pmap_err (\<lambda>e. Status Unavailable (''failed to fetch closure: '' @ niphas_error_display e))
              (svc_ensure svc (closure_list raw) (volume_context req ''binaryCacheUrl'')))
       (\<lambda>_. publish_mount svc sp (pub_target_path req))"

definition bad_attributes :: "publish_request \<Rightarrow> bool" where
  "bad_attributes req \<longleftrightarrow> volume_context req ''storePath'' = None \<or>
     (case volume_context req ''closurePaths'' of None \<Rightarrow> True | Some raw \<Rightarrow> closure_list raw = [])"

lemma publish_refused:
  assumes "pub_volume_id req = [] \<or> pub_target_path req = [] \<or> \<not> is_mountpoint (svc_mount svc) (pub_target_path req) s \<and> bad_attributes req"
  shows "\<exists>m. node_publish_volume svc req s = (Err (Status InvalidArgument m), s)"
  using assms by (auto simp: node_publish_volume_def bad_attributes_def Let_def split: option.split)

lemma publish_cases:
  assumes "node_publish_volume svc req s = (r, s')"
  obtains (refused) m where "r = Err (Status InvalidArgument m)" "s' = s"
  | (there) "pub_volume_id req \<noteq> []" "pub_target_path req \<noteq> []"
      "is_mountpoint (svc_mount svc) (pub_target_path req) s" "r = Ok ()" "s' = s"
  | (run) sp raw where "pub_volume_id req \<noteq> []" "pub_target_path req \<noteq> []"
      "\<not> is_mountpoint (svc_mount svc) (pub_target_path req) s" "volume_context req ''storePath'' = Some sp"
      "volume_context req ''closurePaths'' = Some raw" "closure_list raw \<noteq> []"
      "publish_run svc req sp raw s = (r, s')"
proof -
  consider "pub_volume_id req = [] \<or> pub_target_path req = [] \<or> \<not> is_mountpoint (svc_mount svc) (pub_target_path req) s \<and> bad_attributes req"
    | "pub_volume_id req \<noteq> []" "pub_target_path req \<noteq> []" "is_mountpoint (svc_mount svc) (pub_target_path req) s"
    | "pub_volume_id req \<noteq> []" "pub_target_path req \<noteq> []" "\<not> is_mountpoint (svc_mount svc) (pub_target_path req) s" "\<not> bad_attributes req"
    by blast
  then show ?thesis
  proof cases
    case 1
    then show ?thesis using publish_refused[OF 1] assms refused by auto
  next
    case 2
    then show ?thesis using assms by (intro there) (simp_all add: node_publish_volume_def Let_def)
  next
    case 3
    then obtain sp raw where "volume_context req ''storePath'' = Some sp" "volume_context req ''closurePaths'' = Some raw" "closure_list raw \<noteq> []"
      by (auto simp: bad_attributes_def split: option.splits)
    note ctx = this
    then show ?thesis using run[OF 3(1-3) ctx] assms 3 by (simp add: node_publish_volume_def publish_run_def Let_def)
  qed
qed

section \<open>The driver over any cache and any mount operations\<close>

definition publish_ok ::
  "(string \<Rightarrow> bool) \<Rightarrow> (string \<Rightarrow> bool) \<Rightarrow> (string list \<Rightarrow> bool) \<Rightarrow> string \<Rightarrow> publish_request \<Rightarrow> bool" where
  "publish_ok is_target is_source closure_ok cache_dir req \<longleftrightarrow> is_target (pub_target_path req) \<and>
     (\<forall>raw. volume_context req ''closurePaths'' = Some raw \<longrightarrow> closure_ok (closure_list raw)) \<and>
     (\<forall>sp. volume_context req ''storePath'' = Some sp \<longrightarrow> is_source (path_for cache_dir sp))"

text \<open>What the handlers rely on: the contract of the mount operations, and a cache that does not touch
  the mounts and that keeps the state good when it succeeds, or always when it is steady.\<close>

locale csi_node = mount_contract ops mounts good is_target is_source
  for ops :: "'s mount_ops" and mounts good is_target is_source +
  fixes svc :: "'s node_service"
    and closure_ok :: "string list \<Rightarrow> bool"
    and steady :: bool
  assumes svc_ops: "svc_mount svc = ops"
    and ensure_keeps: "good s \<Longrightarrow> closure_ok paths \<Longrightarrow> svc_ensure svc paths u s = (r, s') \<Longrightarrow>
      mounts s' = mounts s \<and> (r = Ok () \<or> steady \<longrightarrow> good s')"
begin

lemma publish_mount_effect:
  assumes "good s" "is_target t" "is_source (path_for (svc_cache_dir svc) sp)" "t \<notin> mounts s"
    and "publish_mount svc sp t s = (r, s')"
  shows "good s' \<and> mounts s' = (if r = Ok () then insert t (mounts s) else mounts s)"
proof -
  let ?src = "path_for (svc_cache_dir svc) sp"
  obtain r1 s1 where su: "setup_target_dir ops t s = (r1, s1)" by fastforce
  then have s1: "good s1" "mounts s1 = mounts s" "settled r1"
    using setup_keeps[OF assms(1,2)] mount_settled(1)[of t s] by auto
  obtain r2 s2 where bind: "bind_mount_readonly ops ?src t s1 = (r2, s2)" by fastforce
  then have s2: "good s2" "mounts s2 = (if r2 = Ok () then insert t (mounts s) else mounts s)" "settled r2"
    using bind_effect[OF s1(1) assms(2,3)] s1(2) assms(4) mount_settled(2)[of ?src t s1] by auto
  obtain r3 s3 where cleanup: "cleanup_target ops t s2 = (r3, s3)" by fastforce
  have s3: "good s3 \<and> mounts s3 = mounts s2" if "r2 \<noteq> Ok ()"
    using cleanup_keeps[OF s2(1) assms(2) _ cleanup] s2(2) that assms(4) by simp
  show ?thesis
    using assms(5) su bind cleanup s1 s2 s3
    by (cases r1; cases r2)
       (auto simp: publish_mount_def svc_ops pbind_def pmap_err_def pon_err_def pdrop_def)
qed

lemma publish_effect:
  assumes "good s" "publish_ok is_target is_source closure_ok (svc_cache_dir svc) req" "node_publish_volume svc req s = (r, s')"
  shows "mounts s' = (if r = Ok () then insert (pub_target_path req) (mounts s) else mounts s)"
    and "r = Ok () \<or> steady \<Longrightarrow> good s'"
proof -
  let ?t = "pub_target_path req"
  have t: "is_target ?t" using assms(2) by (simp add: publish_ok_def)
  have mp: "is_mountpoint ops ?t s \<longleftrightarrow> ?t \<in> mounts s" using mountpoint_iff[OF assms(1) t] .
  from assms(3) have "mounts s' = (if r = Ok () then insert ?t (mounts s) else mounts s) \<and> (r = Ok () \<or> steady \<longrightarrow> good s')"
  proof (cases rule: publish_cases)
    case (run sp raw)
    obtain r1 s1 where e: "svc_ensure svc (closure_list raw) (volume_context req ''binaryCacheUrl'') s = (r1, s1)"
      by fastforce
    have ok: "closure_ok (closure_list raw)" "is_source (path_for (svc_cache_dir svc) sp)"
      using assms(2) run(4,5) by (simp_all add: publish_ok_def)
    have s1: "mounts s1 = mounts s" "r1 = Ok () \<or> steady \<longrightarrow> good s1" using ensure_keeps[OF assms(1) ok(1) e] by auto
    show ?thesis
    proof (cases r1)
      case (Ok u)
      then have pm: "publish_mount svc sp ?t s1 = (r, s')" using run(7) e by (simp add: publish_run_def pbind_def pmap_err_def)
      have "good s1" "?t \<notin> mounts s1" using s1 Ok run(3) mp by (simp_all add: svc_ops)
      from publish_mount_effect[OF this(1) t ok(2) this(2) pm] show ?thesis unfolding s1(1) by blast
    qed (use run(7) e s1 in \<open>auto simp: publish_run_def pbind_def pmap_err_def\<close>)
  qed (use assms(1) mp in \<open>auto simp: svc_ops\<close>)
  then show "mounts s' = (if r = Ok () then insert ?t (mounts s) else mounts s)" "r = Ok () \<or> steady \<Longrightarrow> good s'" by auto
qed

lemma unpublish_effect:
  assumes "good s" "is_target (unpub_target_path req)" "node_unpublish_volume svc req s = (r, s')"
  shows "good s'" "mounts s' = (if r = Ok () then mounts s - {unpub_target_path req} else mounts s)"
proof -
  let ?t = "unpub_target_path req"
  have mp: "is_mountpoint ops ?t s \<longleftrightarrow> ?t \<in> mounts s" using mountpoint_iff[OF assms(1,2)] .
  obtain r1 s1 where un: "unmount ops ?t s = (r1, s1)" by fastforce
  have s1: "?t \<in> mounts s \<Longrightarrow> good s1 \<and> mounts s1 = (if r1 = Ok () then mounts s - {?t} else mounts s)" "settled r1"
    using unmount_effect[OF assms(1,2) _ un] mount_settled(3)[of ?t s] un by auto
  have clean: "good (snd (cleanup_target ops ?t u)) \<and> mounts (snd (cleanup_target ops ?t u)) = mounts u"
    if "good u" "?t \<notin> mounts u" for u
    using cleanup_keeps[OF that(1) assms(2) that(2)] by (metis prod.collapse)
  note run = assms(3)[unfolded node_unpublish_volume_def svc_ops Let_def]
  have "good s' \<and> mounts s' = (if r = Ok () then mounts s - {?t} else mounts s)"
  proof (cases "unpub_volume_id req = [] \<or> ?t = []")
    case True
    then show ?thesis using run assms(1) by (cases "unpub_volume_id req = []") auto
  next
    case args: False
    show ?thesis
    proof (cases "?t \<in> mounts s")
      case False
      then show ?thesis using run args mp clean[of s] assms(1) by (auto simp: pdrop_def)
    next
      case True
      then have "pbind (pmap_err (\<lambda>e. Status InternalError (''unmount failed: '' @ e)) (unmount ops ?t)) (\<lambda>_ s.
          (Ok (), pdrop (cleanup_target ops ?t) s)) s = (r, s')"
        using run args mp by simp
      then show ?thesis using un s1 True clean[of s1]
        by (cases r1) (auto simp: pbind_def pmap_err_def pdrop_def)
    qed
  qed
  then show "good s'" "mounts s' = (if r = Ok () then mounts s - {?t} else mounts s)" by auto
qed

lemma publish_idempotent:
  assumes "good s" "publish_ok is_target is_source closure_ok (svc_cache_dir svc) req" "node_publish_volume svc req s = (Ok (), s')"
  shows "node_publish_volume svc req s' = (Ok (), s')"
proof -
  have "pub_volume_id req \<noteq> []" "pub_target_path req \<noteq> []"
    using assms(3) by (cases rule: publish_cases; simp)+
  moreover have "is_mountpoint ops (pub_target_path req) s'"
    using publish_effect[OF assms(1-3)] assms(2) mountpoint_iff[of s'] by (simp add: publish_ok_def)
  ultimately show ?thesis by (simp add: node_publish_volume_def svc_ops Let_def)
qed

end

section \<open>The contract for the driver's own parts\<close>

text \<open>In the tests the cache has a file system of its own.\<close>

definition fake_ensure ::
  "'h csi_env \<Rightarrow> string \<Rightarrow> fs \<Rightarrow> string list \<Rightarrow> string option \<Rightarrow> (fake_mounts, niphas_error, unit) prog" where
  "fake_ensure env cache_dir f closure u = plift (fst (ensure_cached env cache_dir closure u f))"

definition make_service :: "'h csi_env \<Rightarrow> fs \<Rightarrow> fake_mounts node_service" where
  "make_service env f =
     node_service_with_deps ''test-node'' ''/tmp/test-cache'' (fake_ensure env ''/tmp/test-cache'' f) fake_mount_ops"

interpretation fake_node: csi_node fake_mount_ops mounted "\<lambda>s. True" "\<lambda>t. True" "\<lambda>src. True"
    "make_service env f" "\<lambda>paths. True" True
  by unfold_locales (auto simp: make_service_def node_service_with_deps_def fake_ensure_def)

text \<open>On a host: targets are below the directory \<open>K\<close> of the kubelet and outside the cache, sources are
  entries of the cache. Temporary directories that are left over are empty and nothing is mounted on them.\<close>

definition driver_paths :: "fpath \<Rightarrow> fpath \<Rightarrow> fpath set" where
  "driver_paths K C = {p. prefix K p \<and> \<not> prefix C p} \<union> {p. \<exists>nm. p = C @ [nm]}"

definition node_good :: "fpath \<Rightarrow> string \<Rightarrow> host \<Rightarrow> bool" where
  "node_good K cache_dir h \<longleftrightarrow>
     host_good (driver_paths K (components cache_dir)) h \<and> cache_ok cache_dir (host_fs h) \<and>
     (\<forall>t \<in> host_mounts h. \<not> temp_place cache_dir (components t))"

definition is_volume_target :: "fpath \<Rightarrow> string \<Rightarrow> string \<Rightarrow> bool" where
  "is_volume_target K cache_dir t \<longleftrightarrow> clean_path t \<and> prefix K (components t) \<and> \<not> prefix (components cache_dir) (components t) \<and>
     \<not> prefix (components t) (components cache_dir)"

definition is_volume_source :: "string \<Rightarrow> string \<Rightarrow> bool" where
  "is_volume_source cache_dir src \<longleftrightarrow> clean_path src \<and> (\<exists>nm. components src = components cache_dir @ [nm])"

lemma volume_paths:
  "is_volume_target K cache_dir t \<Longrightarrow> clean_in (driver_paths K (components cache_dir)) t"
  "is_volume_source cache_dir s \<Longrightarrow> clean_in (driver_paths K (components cache_dir)) s"
  by (auto simp: is_volume_target_def is_volume_source_def clean_in_def driver_paths_def)

text \<open>A mount is neither at a temporary directory nor below one.\<close>

lemma target_not_temp:
  assumes good: "node_good K cache_dir h" and p: "p \<in> m_target ` set (mount_table h)"
  shows "\<not> temp_place cache_dir p" "prefix q (butlast p) \<Longrightarrow> \<not> temp_place cache_dir q"
proof -
  let ?f = "host_fs h"
  have host: "host_good (driver_paths K (components cache_dir)) h" and ok: "cache_ok cache_dir ?f"
    and temp: "\<And>t. t \<in> host_mounts h \<Longrightarrow> \<not> temp_place cache_dir (components t)"
    using good by (simp_all add: node_good_def)
  have clean: "components (path_text p) = p" "clean_path (path_text p)"
    using host p by (auto simp: host_good_def list_all_iff clean_entry_def)
  then have "path_text p \<in> host_mounts h" using p by (simp add: host_mounts_def)
  then show "\<not> temp_place cache_dir p" using temp clean(1) by metis
  have there: "at ?f p \<noteq> None" using host p unfolding host_good_def by blast
  show "\<not> temp_place cache_dir q" if q: "prefix q (butlast p)"
  proof
    assume "temp_place cache_dir q"
    then obtain nm where nm: "prefix ''.tmp-'' nm" "q = components cache_dir @ [nm]" by (auto simp: temp_place_def)
    have "p \<noteq> []" using q nm(2) by auto
    then have "strict_prefix q p"
      using q by (metis append_butlast_last_id prefix_order.le_less_trans strict_prefixI')
    moreover have "vacant ?f q \<or> empty_dir ?f q" using ok nm unfolding cache_ok_def by blast
    ultimately have "?f p = None" by (auto simp: vacant_def empty_dir_def strict_prefix_def)
    then show False using there \<open>p \<noteq> []\<close> by (simp add: at_def)
  qed
qed

text \<open>When the table of mounts is on the host as it was, what the cache keeps is enough.\<close>

lemma host_good_kept:
  assumes good: "node_good K cache_dir h" and f: "cache_ok cache_dir f" "kept cache_dir (host_fs h) f"
  shows "host_good (driver_paths K (components cache_dir)) (h\<lparr>host_fs := f\<rparr>)"
proof -
  let ?C = "components cache_dir" and ?f = "host_fs h"
  have host: "host_good (driver_paths K ?C) h" using good by (simp add: node_good_def)
  have links: "no_links f p" if p: "p \<in> driver_paths K ?C" for p
  proof (cases "prefix ?C p")
    case True
    then obtain nm where nm: "p = ?C @ [nm]" using p by (auto simp: driver_paths_def)
    have "dirs f ?C" "vacant f p \<or> f p = Some FDir" using f(1) unfolding nm cache_ok_def by blast+
    then show ?thesis by (auto simp: nm no_links_def dirs_def vacant_iff)
  next
    case False
    then have "\<not> prefix ?C q" if "prefix q p" for q using that by (meson prefix_order.trans)
    then have "at f q = at ?f q" if "prefix q p" for q
      using f(2) that by (simp add: at_def kept_def same_outside_def)
    then show ?thesis using host p by (simp add: host_good_def no_links_def)
  qed
  have same: "at f q = at ?f q" if "at ?f q \<noteq> None" "\<not> temp_place cache_dir q" for q
    using f(2) that by (cases "q = []") (auto simp: at_def kept_def)
  have "dirs f (butlast p) \<and> at f p \<noteq> None" if p: "p \<in> m_target ` set (mount_table h)" for p
  proof -
    note temp = target_not_temp[OF good p]
    have there: "dirs ?f (butlast p)" "at ?f p \<noteq> None" using host p unfolding host_good_def by blast+
    then have "dirs f (butlast p)" using same temp(2) unfolding dirs_def by (metis option.distinct(1))
    then show ?thesis using same temp(1) there(2) by metis
  qed
  then show ?thesis using host links by (simp add: host_good_def)
qed

lemma host_ensure_keeps:
  assumes good: "node_good K cache_dir h" and closure: "\<forall>path \<in> set paths. entry_base (strip_store_dir path)"
    and run: "host_ensure env cache_dir paths u h = (r, h')"
  shows "host_mounts h' = host_mounts h \<and> (r = Ok () \<or> links_makeable env \<longrightarrow> node_good K cache_dir h')"
proof -
  obtain f where f: "ensure_cached env cache_dir paths u (host_fs h) = (r, f)" "h' = h\<lparr>host_fs := f\<rparr>"
    using run by (auto simp: host_ensure_def split: prod.splits)
  have mounts: "host_mounts h' = host_mounts h" using f(2) by (simp add: host_mounts_def)
  have ok: "cache_ok cache_dir (host_fs h)" using good by (simp add: node_good_def)
  have "node_good K cache_dir h'" if "r = Ok () \<or> links_makeable env"
  proof -
    have new: "cache_ok cache_dir f" "kept cache_dir (host_fs h) f"
      using ensure_loop_keeps[OF ok closure _ that] f(1) unfolding ensure_cached_def by blast+
    from host_good_kept[OF good new] new(1) show ?thesis
      using good mounts unfolding f(2) by (simp add: node_good_def)
  qed
  then show ?thesis using mounts by blast
qed

lemma cache_ok_same:
  assumes "cache_ok cache_dir f" "\<And>q. q \<noteq> [] \<Longrightarrow> prefix (components cache_dir) q \<or> prefix q (components cache_dir) \<Longrightarrow> g q = f q"
  shows "cache_ok cache_dir g"
proof -
  let ?C = "components cache_dir"
  have "dirs g ?C \<longleftrightarrow> dirs f ?C" using assms(2) by (simp add: dirs_def at_def)
  moreover have eq: "g (?C @ nm # q) = f (?C @ nm # q)" for nm q using assms(2) by simp
  have "g (?C @ [nm]) = f (?C @ [nm])" "vacant g (?C @ [nm]) = vacant f (?C @ [nm])" "empty_dir g (?C @ [nm]) = empty_dir f (?C @ [nm])" for nm
    using eq by (auto simp: vacant_def empty_dir_def prefix_def strict_prefix_def)
  ultimately show ?thesis using assms(1) by (simp add: cache_ok_def)
qed

lemma setup_keeps_cache:
  assumes good: "node_good K cache_dir h" and t: "is_volume_target K cache_dir t"
    and run: "real_setup_target_dir t h = (r, h')"
  shows "cache_ok cache_dir (host_fs h')"
proof (cases "fs_exists (host_fs h) t")
  case True
  then show ?thesis using run good by (simp add: real_setup_target_dir_def node_good_def)
next
  case False
  let ?C = "components cache_dir" and ?f = "host_fs h" and ?g = "snd (create_dir_all t (host_fs h))"
  have h': "host_fs h' = ?g" using run False by (auto simp: real_setup_target_dir_def on_fs_def split: prod.splits)
  have inv: "cache_ok cache_dir ?f" using good by (simp add: node_good_def)
  have plain: "plain_path t" "no_links ?f (components t)"
    using good volume_paths(1)[OF t] by (auto simp: node_good_def host_good_def clean_in_def clean_path_def)
  have "?g q = ?f q" if q: "q \<noteq> []" "prefix ?C q \<or> prefix q ?C" for q
  proof (cases "prefix q (components t)")
    case False
    then show ?thesis by (rule create_dir_all_where[OF plain])
  next
    case True
    then have "prefix q ?C" using q(2) t prefix_order.trans by (auto simp: is_volume_target_def)
    then have "?f q = Some FDir" using inv q(1) by (auto simp: cache_ok_def dirs_def at_def)
    moreover have "grown ?f ?g" using create_dir_all_grown by blast
    ultimately show ?thesis unfolding grown_def by (metis option.distinct(1))
  qed
  then show ?thesis unfolding h' by (rule cache_ok_same[OF inv])
qed

lemma cleanup_keeps_cache:
  assumes good: "node_good K cache_dir h" and t: "is_volume_target K cache_dir t"
    and run: "real_cleanup_target t h = (r, h')"
  shows "cache_ok cache_dir (host_fs h')"
proof (cases "host_fs h' = host_fs h")
  case True
  then show ?thesis using good by (simp add: node_good_def)
next
  case False
  let ?C = "components cache_dir" and ?p = "components t"
  have plain: "plain_path t" "no_links (host_fs h) ?p"
    using good volume_paths(1)[OF t] by (auto simp: node_good_def host_good_def clean_in_def clean_path_def)
  have "sys_rmdir t h = Ok h'"
    using run False by (auto simp: real_cleanup_target_def patomic_def split: if_splits outcome.splits)
  then have "remove_dir t (host_fs h) = Ok (host_fs h')"
    by (auto simp: sys_rmdir_def obind_eq_Ok omap_err_eq_Ok split: if_splits)
  then obtain q where "resolve (host_fs h) False t = Ok q" "host_fs h' = prune q (host_fs h)"
    by (auto simp: remove_dir_def obind_eq_Ok split: option.splits) (auto split: fnode.splits if_splits)
  then have h': "host_fs h' = prune ?p (host_fs h)" using resolve_no_links[OF plain] by blast
  have "prune ?p (host_fs h) q = host_fs h q" if "prefix ?C q \<or> prefix q ?C" for q
  proof -
    have "\<not> prefix ?p q"
      using that t prefix_order.trans[of ?p q ?C] prefix_same_cases[of ?p q ?C] unfolding is_volume_target_def by blast
    then show ?thesis by simp
  qed
  moreover have "cache_ok cache_dir (host_fs h)" using good by (simp add: node_good_def)
  ultimately show ?thesis unfolding h' using cache_ok_same[of cache_dir "host_fs h" "prune ?p (host_fs h)"] by blast
qed

abbreviation plain_closure :: "string list \<Rightarrow> bool" where
  "plain_closure paths \<equiv> \<forall>path \<in> set paths. entry_base (strip_store_dir path)"

interpretation host_mount: mount_contract "real_mount_ops policy" host_mounts "node_good K cache_dir"
    "is_volume_target K cache_dir" "is_volume_source cache_dir"
proof unfold_locales
  let ?S = "driver_paths K (components cache_dir)"
  fix s s' :: host and t src :: string and r :: "(string, unit) outcome"
  assume good: "node_good K cache_dir s" and t: "is_volume_target K cache_dir t"
  have host: "host_good ?S s" "cache_ok cache_dir (host_fs s)"
    and temp: "\<And>u. u \<in> host_mounts s \<Longrightarrow> \<not> temp_place cache_dir (components u)"
    using good by (simp_all add: node_good_def)
  have "\<not> temp_place cache_dir (components t)" using t by (auto simp: is_volume_target_def temp_place_def)
  with temp have temps: "\<not> temp_place cache_dir (components u)" if "u \<in> insert t (host_mounts s)" for u using that by blast
  note tgt = volume_paths(1)[OF t]
  show "is_mountpoint (real_mount_ops policy) t s \<longleftrightarrow> t \<in> host_mounts s"
    by (rule real.mountpoint_iff[OF host(1) tgt])
  show "node_good K cache_dir s' \<and> host_mounts s' = host_mounts s"
    if "setup_target_dir (real_mount_ops policy) t s = (r, s')"
    using real.setup_keeps[OF host(1) tgt that] setup_keeps_cache[OF good t, of r s'] that temp
    by (simp add: node_good_def real_mount_ops_def)
  show "node_good K cache_dir s' \<and> host_mounts s' = (if r = Ok () then insert t (host_mounts s) else host_mounts s)"
    if "is_volume_source cache_dir src" "t \<notin> host_mounts s" "bind_mount_readonly (real_mount_ops policy) src t s = (r, s')"
  proof -
    have "host_fs s' = host_fs s"
      using that(3) by (intro real_bind_fs[of policy src t s r]) (simp add: real_mount_ops_def)
    then show ?thesis
      using real.bind_effect[OF host(1) tgt volume_paths(2)[OF that(1)] that(2,3)] host(2) temps
      by (simp add: node_good_def)
  qed
  show "node_good K cache_dir s' \<and> host_mounts s' = (if r = Ok () then host_mounts s - {t} else host_mounts s)"
    if "t \<in> host_mounts s" "unmount (real_mount_ops policy) t s = (r, s')"
  proof -
    have "host_fs s' = host_fs s"
      using that(2) by (intro real_unmount_fs[of t s r]) (simp add: real_mount_ops_def)
    then show ?thesis using real.unmount_effect[OF host(1) tgt that] host(2) temp by (simp add: node_good_def)
  qed
  show "node_good K cache_dir s' \<and> host_mounts s' = host_mounts s"
    if "t \<notin> host_mounts s" "cleanup_target (real_mount_ops policy) t s = (r, s')"
    using real.cleanup_keeps[OF host(1) tgt that] cleanup_keeps_cache[OF good t, of r s'] that(2) temp
    by (simp add: node_good_def real_mount_ops_def)
qed (simp_all add: real_mount_ops_def real_mount_settled)

interpretation host_node: csi_node "real_mount_ops policy" host_mounts "node_good K cache_dir"
    "is_volume_target K cache_dir" "is_volume_source cache_dir" "node_service_new env policy nid cache_dir" plain_closure
    "links_makeable env"
proof unfold_locales
  show "svc_mount (node_service_new env policy nid cache_dir) = real_mount_ops policy"
    by (simp add: node_service_new_def node_service_with_deps_def)
  fix s s' :: host and paths :: "string list" and u :: "string option" and r :: "(niphas_error, unit) outcome"
  assume "node_good K cache_dir s" "plain_closure paths"
    "svc_ensure (node_service_new env policy nid cache_dir) paths u s = (r, s')"
  then show "host_mounts s' = host_mounts s \<and> (r = Ok () \<or> links_makeable env \<longrightarrow> node_good K cache_dir s')"
    using host_ensure_keeps[of K cache_dir s paths env u r s']
    by (simp add: node_service_new_def node_service_with_deps_def)
qed

section \<open>The volumes of a node as a set\<close>

text \<open>The abstract driver: its state is the set of mounted targets, and an answer tells what a call did to it.\<close>

datatype node_call = Publish publish_request | Unpublish unpublish_request

fun spec_step :: "node_call \<Rightarrow> (grpc_status, unit) outcome \<Rightarrow> string set \<Rightarrow> string set" where
  "spec_step (Publish req) r M = (if r = Ok () then insert (pub_target_path req) M else M)"
| "spec_step (Unpublish req) r M = (if r = Ok () then M - {unpub_target_path req} else M)"

fun node_step :: "'s node_service \<Rightarrow> node_call \<Rightarrow> ('s, grpc_status, unit) prog" where
  "node_step svc (Publish req) = node_publish_volume svc req"
| "node_step svc (Unpublish req) = node_unpublish_volume svc req"

fun node_run :: "'s node_service \<Rightarrow> node_call list \<Rightarrow> 's \<Rightarrow> (grpc_status, unit) outcome list \<times> 's" where
  "node_run svc [] s = ([], s)"
| "node_run svc (c # cs) s =
     (case node_step svc c s of (r, s1) \<Rightarrow> case node_run svc cs s1 of (rs, s2) \<Rightarrow> (r # rs, s2))"

text \<open>Calls as the kubelet makes them for store paths: targets below its directory, names of cache entries.\<close>

fun call_ok :: "fpath \<Rightarrow> string \<Rightarrow> node_call \<Rightarrow> bool" where
  "call_ok K cache_dir (Publish req) \<longleftrightarrow>
     publish_ok (is_volume_target K cache_dir) (is_volume_source cache_dir) plain_closure cache_dir req"
| "call_ok K cache_dir (Unpublish req) \<longleftrightarrow> is_volume_target K cache_dir (unpub_target_path req)"

lemma svc_dir [simp]: "svc_cache_dir (node_service_new env policy nid cache_dir) = cache_dir"
    "svc_mount (node_service_new env policy nid cache_dir) = real_mount_ops policy"
    "svc_ensure (node_service_new env policy nid cache_dir) = host_ensure env cache_dir"
  by (simp_all add: node_service_new_def node_service_with_deps_def)

lemma node_step_refines:
  assumes "node_good K cache_dir h" "call_ok K cache_dir c"
    and "node_step (node_service_new env policy nid cache_dir) c h = (r, h')"
  shows "host_mounts h' = spec_step c r (host_mounts h)" "r = Ok () \<or> links_makeable env \<Longrightarrow> node_good K cache_dir h'"
proof -
  have "host_mounts h' = spec_step c r (host_mounts h) \<and> (r = Ok () \<or> links_makeable env \<longrightarrow> node_good K cache_dir h')"
  proof (cases c)
    case (Publish req)
    then show ?thesis
      using host_node.publish_effect[OF assms(1), of env policy nid req r h'] assms(2,3) by simp
  next
    case (Unpublish req)
    then show ?thesis
      using host_node.unpublish_effect[OF assms(1), of req env policy nid r h'] assms(2,3) by simp
  qed
  then show "host_mounts h' = spec_step c r (host_mounts h)" "r = Ok () \<or> links_makeable env \<Longrightarrow> node_good K cache_dir h'" by auto
qed

lemma node_run_length: "node_run svc cs s = (rs, s') \<Longrightarrow> length rs = length cs"
  by (induction cs arbitrary: s rs) (auto split: prod.splits)

lemma node_run_refines:
  "node_good K cache_dir h \<Longrightarrow> list_all (call_ok K cache_dir) cs \<Longrightarrow>
   node_run (node_service_new env policy nid cache_dir) cs h = (rs, h') \<Longrightarrow>
   links_makeable env \<or> list_all (\<lambda>r. r = Ok ()) (butlast rs) \<Longrightarrow>
   host_mounts h' = fold (\<lambda>(c, r). spec_step c r) (zip cs rs) (host_mounts h)"
proof (induction cs arbitrary: h rs)
  case (Cons c cs)
  let ?svc = "node_service_new env policy nid cache_dir"
  obtain r h1 where step: "node_step ?svc c h = (r, h1)" by fastforce
  obtain rs1 h2 where rest: "node_run ?svc cs h1 = (rs1, h2)" by fastforce
  have rs: "rs = r # rs1" "h' = h2" using Cons.prems(3) step rest by auto
  have h1: "host_mounts h1 = spec_step c r (host_mounts h)" "r = Ok () \<or> links_makeable env \<Longrightarrow> node_good K cache_dir h1"
    using node_step_refines[OF Cons.prems(1) _ step] Cons.prems(2) by auto
  show ?case
  proof (cases cs)
    case Nil
    then show ?thesis using rest rs h1(1) by simp
  next
    case (Cons c2 cs2)
    then have "rs1 \<noteq> []" using node_run_length[OF rest] by auto
    then have "r = Ok () \<or> links_makeable env" "links_makeable env \<or> list_all (\<lambda>r. r = Ok ()) (butlast rs1)"
      using Cons.prems(4) rs by auto
    then have "host_mounts h' = fold (\<lambda>(c, r). spec_step c r) (zip cs rs1) (host_mounts h1)"
      using Cons.IH[OF h1(2) _ rest[folded rs(2)]] Cons.prems(2) by simp
    then show ?thesis using rs h1(1) by simp
  qed
qed simp

text \<open>What a volume is mounted from and how.\<close>

lemma host_ensure_table: "host_ensure env cache_dir paths u h = (r, h') \<Longrightarrow> mount_table h' = mount_table h"
  by (auto simp: host_ensure_def split: prod.splits)

lemma real_setup_table: "real_setup_target_dir t h = (r, h') \<Longrightarrow> mount_table h' = mount_table h"
  by (auto simp: real_setup_target_dir_def on_fs_def split: if_splits prod.splits)

lemma publish_mount_table:
  assumes good: "host_good S h" and t: "clean_in S t" and src: "clean_in S (path_for cache_dir sp)"
    and free: "t \<notin> host_mounts h"
    and run: "publish_mount (node_service_new env policy nid cache_dir) sp t h = (Ok (), h')"
  shows "mount_table h' =
    \<lparr>m_target = components t, m_source = components (path_for cache_dir sp), m_flags = volume_flags\<rparr> # mount_table h"
proof -
  obtain h1 where h1: "real_setup_target_dir t h = (Ok (), h1)"
      "real_bind_mount_readonly policy (path_for cache_dir sp) t h1 = (Ok (), h')"
    using run by (auto simp: publish_mount_def real_mount_ops_def pbind_eq_Ok pmap_err_eq_Ok pon_err_eq_Ok)
  have "host_good S h1" "t \<notin> host_mounts h1"
    using real.setup_keeps[OF good t, of policy "Ok ()" h1] h1(1) free by (simp_all add: real_mount_ops_def)
  from real_bind_run[OF this(1) t src this(2), of policy] h1(2) real_setup_table[OF h1(1)]
  show ?thesis by (auto simp: Let_def)
qed

lemma publish_readonly_table:
  assumes good: "node_good K cache_dir h" and req: "call_ok K cache_dir (Publish req)"
    and free: "pub_target_path req \<notin> host_mounts h"
    and run: "node_publish_volume (node_service_new env policy nid cache_dir) req h = (Ok (), h')"
  shows "\<exists>sp. volume_context req ''storePath'' = Some sp \<and> mount_table h' =
    \<lparr>m_target = components (pub_target_path req), m_source = components (path_for cache_dir sp),
     m_flags = volume_flags\<rparr> # mount_table h"
proof -
  let ?t = "pub_target_path req"
  have t: "is_volume_target K cache_dir ?t" using req by (simp add: publish_ok_def)
  have "\<not> is_mountpoint (real_mount_ops policy) ?t h" using host_mount.mountpoint_iff[OF good t] free by simp
  with run obtain sp raw where sp: "volume_context req ''storePath'' = Some sp"
      and raw: "volume_context req ''closurePaths'' = Some raw"
      and pr: "publish_run (node_service_new env policy nid cache_dir) req sp raw h = (Ok (), h')"
    by (cases rule: publish_cases) simp_all
  obtain h1 where h1: "host_ensure env cache_dir (closure_list raw) (volume_context req ''binaryCacheUrl'') h = (Ok (), h1)"
      "publish_mount (node_service_new env policy nid cache_dir) sp ?t h1 = (Ok (), h')"
    using pr by (auto simp: publish_run_def pbind_eq_Ok pmap_err_eq_Ok)
  have h1': "node_good K cache_dir h1" "host_mounts h1 = host_mounts h"
    using host_ensure_keeps[OF good _ h1(1)] req raw by (simp_all add: publish_ok_def)
  have "clean_in (driver_paths K (components cache_dir)) (path_for cache_dir sp)"
    using req sp volume_paths(2) by (simp add: publish_ok_def)
  then show ?thesis
    using publish_mount_table[OF _ volume_paths(1)[OF t] _ _ h1(2)] h1' free sp host_ensure_table[OF h1(1)]
    by (simp add: node_good_def)
qed

lemma volume_flags_bits:
  "volume_flags AND MS_RDONLY = MS_RDONLY" "volume_flags AND MS_NOSUID = MS_NOSUID" "volume_flags AND MS_NODEV = MS_NODEV"
  by (simp_all add: volume_flags_def remount_flags_def MS_BIND_def MS_REMOUNT_def MS_RDONLY_def MS_NOSUID_def MS_NODEV_def)

text \<open>A closure that the cache always has: its own directory.\<close>

lemma dot_cached:
  assumes "cache_inv cache_dir f"
  shows "ensure_cached env cache_dir [''.''] u f = (Ok (), f)"
proof -
  have c: "plain_path cache_dir" "dirs f (components cache_dir)" using assms by (simp_all add: cache_inv_def)
  have dot: "components ''.'' = []" "\<not> absolute ''.''" "strip_store_dir ''.'' = ''.''"
    by (simp_all add: components_def split_char_def absolute_def strip_store_dir_def strip_prefix_def)
  let ?p = "path_join cache_dir ''.''"
  have "components ?p = components cache_dir" by (simp add: components_join dot)
  moreover have "CHR 0x00 \<notin> set ?p" "?p \<noteq> []"
    using c(1) by (auto simp: path_join_def plain_path_def absolute_def)
  ultimately have "resolve f True ?p = Ok (components cache_dir)"
    using walk_dirs[of "components cache_dir" f "[]" True 40 "[]"] c by (simp add: resolve_def plain_path_def)
  then have "is_cached cache_dir ''.'' f"
    using dirs_at[OF c(2)] by (simp add: is_cached_def fs_exists_def)
  then show ?thesis by (simp add: ensure_cached_def ensure_path_def dot Let_def)
qed

text \<open>Publishing succeeds when target and source are directories and the kernel agrees.\<close>

lemma publish_mount_succeeds:
  assumes good: "host_good S h" and t: "clean_in S t" and src: "clean_in S (path_for cache_dir sp)"
    and dirs: "dirs (host_fs h) (components t)" "dirs (host_fs h) (components (path_for cache_dir sp))"
    and policy: "\<forall>c. policy c = None"
  shows "publish_mount (node_service_new env policy nid cache_dir) sp t h =
    (Ok (), h\<lparr>mount_table := \<lparr>m_target = components t, m_source = components (path_for cache_dir sp),
       m_flags = volume_flags\<rparr> # mount_table h\<rparr>)"
proof -
  let ?src = "path_for cache_dir sp"
  have f: "found (host_fs h) t = Ok (components t)" "found (host_fs h) ?src = Ok (components ?src)"
    using found_clean[OF good t] found_clean[OF good src] dirs dirs_at dirs_prefix[OF _ prefixeq_butlast] by auto
  have "fs_exists (host_fs h) t"
    using f(1) by (auto simp: found_def fs_exists_def obind_eq_Ok split: if_splits)
  then have su: "real_setup_target_dir t h = (Ok (), h)" by (simp add: real_setup_target_dir_def)
  have "fs_dir (host_fs h) (components t)" "fs_dir (host_fs h) (components ?src)"
    using dirs by (simp_all add: fs_dir_def dirs_at)
  then have "real_bind_mount_readonly policy ?src t h =
      (Ok (), h\<lparr>mount_table := \<lparr>m_target = components t, m_source = components ?src, m_flags = volume_flags\<rparr> # mount_table h\<rparr>)"
    using f policy
    by (simp add: real_bind_mount_readonly_def c_string_clean[OF t] c_string_clean[OF src] sys_bind_def sys_remount_def
        patomic_def pbind_def volume_flags_def)
  then show ?thesis using su by (simp add: publish_mount_def real_mount_ops_def pmap_err_def pon_err_def)
qed

text \<open>A path that survives a comma-separated list.\<close>

definition csv_safe :: "string \<Rightarrow> bool" where
  "csv_safe p \<longleftrightarrow> p \<noteq> [] \<and> graphic p \<and> CHR '','' \<notin> set p"

lemma csv_roundtrip: "ps \<noteq> [] \<Longrightarrow> list_all csv_safe ps \<Longrightarrow> closure_list (join '','' ps) = ps"
  using split_join_char[of ps "CHR '',''"]
  by (simp add: closure_list_def list_all_iff csv_safe_def trim_graphic map_idI filter_id_conv cong: map_cong)

section \<open>A sample host\<close>

text \<open>A host with the cache directory, a system directory and the directory of one pod volume.\<close>

definition sample_host :: host where
  "sample_host = \<lparr>host_fs = [[''cache''] \<mapsto> FDir, [''etc''] \<mapsto> FDir, [''pods''] \<mapsto> FDir, [''pods'', ''v''] \<mapsto> FDir],
     mount_table = []\<rparr>"

definition sample_publish :: "string \<Rightarrow> string \<Rightarrow> publish_request" where
  "sample_publish sp closure = \<lparr>pub_volume_id = ''csi-1'', pub_target_path = ''/pods/v'',
     volume_context = [''storePath'' \<mapsto> sp, ''closurePaths'' \<mapsto> closure]\<rparr>"

lemma sample_components: "components ''/pods/v'' = [''pods'', ''v'']" "components ''/etc'' = [''etc'']"
    "components ''/cache'' = [''cache'']"
  by (simp_all add: components_def split_char_def)

lemma sample_clean: "clean_path ''/pods/v''" "clean_path ''/etc''"
  by (simp_all add: clean_path_def plain_path_def absolute_def sample_components path_text_def graphic_def)

lemma sample_dirs: "dirs (host_fs sample_host) [''pods'', ''v'']" "dirs (host_fs sample_host) [''etc'']"
    "dirs (host_fs sample_host) [''cache'']"
  by (auto simp: dirs_def prefix_Cons at_def sample_host_def)

lemma sample_host_cache: "cache_inv ''/cache'' (host_fs sample_host)"
  using sample_dirs(3) by (auto simp: cache_inv_def plain_path_def absolute_def sample_components vacant_def prefix_Cons
      sample_host_def)

lemma sample_no_links: "no_links (host_fs sample_host) p"
  by (auto simp: no_links_def at_def sample_host_def is_link_def)

lemma sample_host_good: "host_good S sample_host" "node_good [''pods''] ''/cache'' sample_host"
proof -
  show "host_good S sample_host" for S using sample_no_links by (simp add: host_good_def) (simp add: sample_host_def)
  then show "node_good [''pods''] ''/cache'' sample_host"
    using cache_inv_ok[OF sample_host_cache] by (simp add: node_good_def host_mounts_def) (simp add: sample_host_def)
qed

lemma sample_host_mounts: "host_mounts sample_host = {}"
  by (simp add: host_mounts_def sample_host_def)

lemma sample_target: "is_volume_target [''pods''] ''/cache'' ''/pods/v''"
  using sample_clean by (simp add: is_volume_target_def sample_components)

text \<open>The same host with one store path in its cache, and a driver on it that publishes it.\<close>

definition ready_host :: host where
  "ready_host = sample_host\<lparr>host_fs := (host_fs sample_host)([''cache'', ''e''] \<mapsto> FDir)\<rparr>"

abbreviation sample_node :: "host node_service" where
  "sample_node \<equiv> node_service_new (sample_csi_env []) (\<lambda>c. None) ''n'' ''/cache''"

lemma ready_source:
  "path_for ''/cache'' ''e'' = ''/cache/e''" "components ''/cache/e'' = [''cache'', ''e'']" "clean_path ''/cache/e''"
  by (simp_all add: path_for_def strip_store_dir_def strip_prefix_def path_join_def absolute_def clean_path_def
      plain_path_def components_def split_char_def path_text_def graphic_def)

lemma ready_base: "entry_base ''e''" "strip_store_dir ''e'' = ''e''" "closure_list ''e'' = [''e'']"
  by (simp_all add: entry_base_def plain_name_def strip_store_dir_def strip_prefix_def closure_list_def split_char_def
      trim_def is_whitespace_def in_range_def)

lemma ready_inv: "cache_inv ''/cache'' (host_fs ready_host)"
  by (auto simp: cache_inv_def plain_path_def absolute_def sample_components vacant_def prefix_Cons sample_host_def
      ready_host_def dirs_def at_def)

lemma ready_good: "node_good [''pods''] ''/cache'' ready_host"
proof -
  have "no_links (host_fs ready_host) p" for p
    by (auto simp: no_links_def at_def sample_host_def ready_host_def is_link_def)
  then show ?thesis
    using cache_inv_ok[OF ready_inv] by (simp add: node_good_def host_good_def host_mounts_def) (simp add: ready_host_def sample_host_def)
qed

lemma ready_call: "call_ok [''pods''] ''/cache'' (Publish (sample_publish ''e'' ''e''))"
  using sample_target ready_source ready_base
  by (auto simp: publish_ok_def sample_publish_def is_volume_source_def sample_components)

lemma ready_free: "pub_target_path (sample_publish ''e'' ''e'') \<notin> host_mounts ready_host"
  by (simp add: host_mounts_def sample_host_def ready_host_def)

lemma ready_published: "\<exists>h'. node_publish_volume sample_node (sample_publish ''e'' ''e'') ready_host = (Ok (), h')"
proof -
  have "is_cached ''/cache'' ''e'' (host_fs ready_host)"
    using cached_iff[OF ready_inv, of "''e''"] ready_base(1) by (simp add: sample_components entry_base_def ready_host_def)
  then have ensure: "host_ensure (sample_csi_env []) ''/cache'' [''e''] None ready_host = (Ok (), ready_host)"
    by (simp add: host_ensure_def ensure_cached_def ensure_path_def ready_base Let_def)
  have "dirs (host_fs ready_host) [''pods'', ''v'']" "dirs (host_fs ready_host) [''cache'', ''e'']"
    by (auto simp: dirs_def prefix_Cons at_def sample_host_def ready_host_def)
  then have "\<exists>h'. publish_mount sample_node ''e'' ''/pods/v'' ready_host = (Ok (), h')"
    using publish_mount_succeeds[of "driver_paths [''pods''] [''cache'']" ready_host "''/pods/v''" "''/cache''" "''e''" "\<lambda>c. None"]
      ready_good volume_paths(1)[OF sample_target] ready_source sample_components
    by (auto simp: node_good_def clean_in_def driver_paths_def)
  moreover have "\<not> is_mountpoint (real_mount_ops (\<lambda>c. None)) ''/pods/v'' ready_host"
    using host_mount.mountpoint_iff[OF ready_good sample_target, of "\<lambda>c. None"] ready_free by (simp add: sample_publish_def)
  ultimately show ?thesis
    using ensure ready_base(3) by (auto simp: node_publish_volume_def sample_publish_def pbind_def pmap_err_def)
qed

text \<open>A closure that cannot be fetched: the archive that the caches serve is empty.\<close>

lemma ready_fetched:
  "closure_list (basename sample_store_path) = [basename sample_store_path]"
  "strip_store_dir (basename sample_store_path) = basename sample_store_path"
proof -
  have "csv_safe (basename sample_store_path)"
    by (simp add: csv_safe_def graphic_def basename_def hash_str_def sample_store_path_def sample_hash)
  then show "closure_list (basename sample_store_path) = [basename sample_store_path]"
    using csv_roundtrip[of "[basename sample_store_path]"] by simp
  show "strip_store_dir (basename sample_store_path) = basename sample_store_path"
    by (simp add: strip_store_dir_def strip_prefix_def basename_def hash_str_def sample_store_path_def sample_hash)
qed

lemma ready_call_fetch: "call_ok [''pods''] ''/cache'' (Publish (sample_publish ''e'' (basename sample_store_path)))"
  using sample_target ready_source ready_fetched sample_entry_base
  by (auto simp: publish_ok_def sample_publish_def is_volume_source_def sample_components)

lemma ready_refused:
  "\<exists>e. node_publish_volume sample_node (sample_publish ''e'' (basename sample_store_path)) ready_host = (Err e, ready_host)"
proof -
  let ?b = "basename sample_store_path" and ?env = "sample_csi_env []" and ?f = "host_fs ready_host"
  have plain: "plain_name ?b" using sample_entry_base by (simp add: entry_base_def)
  have "?b \<noteq> ''e''" by (simp add: basename_def hash_str_def sample_store_path_def sample_hash)
  then have absent: "\<not> is_cached ''/cache'' ?b ?f"
    unfolding cached_iff[OF ready_inv plain] by (simp add: sample_components ready_host_def sample_host_def)
  have "fetch_and_extract ?env ?b ''/cache'' ?f = (Err (NarParse ''unexpected EOF: eof''), ?f)"
    using fetch_after_download[OF cache_inv_ready[OF ready_inv plain absent] sample_downloaded] sample_links(1) by simp
  then have "host_ensure ?env ''/cache'' [?b] None ready_host = (Err (NarParse ''unexpected EOF: eof''), ready_host)"
    using absent by (simp add: host_ensure_def ensure_cached_def ensure_path_def ready_fetched Let_def pbind_def)
  moreover have "\<not> is_mountpoint (real_mount_ops (\<lambda>c. None)) ''/pods/v'' ready_host"
    using host_mount.mountpoint_iff[OF ready_good sample_target, of "\<lambda>c. None"] ready_free by (simp add: sample_publish_def)
  ultimately show ?thesis
    using ready_fetched(1) by (simp add: node_publish_volume_def sample_publish_def pbind_def pmap_err_def)
qed

section \<open>Properties\<close>

text \<open>C10. The driver refines its specification: over every sequence of publish and unpublish calls, the set of mounted targets of the host is
  what the abstract driver computes from the answers: a successful publish adds its target, a successful unpublish removes it, and a call that
  fails, at whatever step, changes nothing. The calls may go on after calls that failed, as the kubelet retries them, unless the caches serve
  a checked archive of a directory with a link that the kernel refuses; with such archives the statement is for the calls up to
  and with the first that fails.\<close>

theorem volumes_refine:
  assumes "node_good K cache_dir h" and "list_all (call_ok K cache_dir) cs"
    and "node_run (node_service_new env policy nid cache_dir) cs h = (rs, h')"
    and "links_makeable env \<or> list_all (\<lambda>r. r = Ok ()) (butlast rs)"
  shows "host_mounts h' = fold (\<lambda>(c, r). spec_step c r) (zip cs rs) (host_mounts h)"
  using assms by (rule node_run_refines)

text \<open>A publish that fails because a path of its closure cannot be fetched, an unpublish without a volume id, and the retry of the publish with the
  closure that is there.\<close>

theorem volumes_refine_witness:
  "\<exists>e1 e2 h'. node_run sample_node
      [Publish (sample_publish ''e'' (basename sample_store_path)),
       Unpublish \<lparr>unpub_volume_id = [], unpub_target_path = ''/pods/v''\<rparr>,
       Publish (sample_publish ''e'' ''e'')] ready_host = ([Err e1, Err e2, Ok ()], h') \<and>
    host_mounts h' = {''/pods/v''}"
proof -
  let ?cs = "[Publish (sample_publish ''e'' (basename sample_store_path)),
    Unpublish \<lparr>unpub_volume_id = [], unpub_target_path = ''/pods/v''\<rparr>, Publish (sample_publish ''e'' ''e'')]"
  obtain e1 where e1: "node_publish_volume sample_node (sample_publish ''e'' (basename sample_store_path)) ready_host = (Err e1, ready_host)"
    using ready_refused by blast
  obtain e2 where e2: "node_unpublish_volume sample_node \<lparr>unpub_volume_id = [], unpub_target_path = ''/pods/v''\<rparr> ready_host = (Err e2, ready_host)"
    by (simp add: node_unpublish_volume_def)
  obtain h' where h': "node_publish_volume sample_node (sample_publish ''e'' ''e'') ready_host = (Ok (), h')"
    using ready_published by blast
  have run: "node_run sample_node ?cs ready_host = ([Err e1, Err e2, Ok ()], h')" using e1 e2 h' by simp
  have "host_mounts h' = fold (\<lambda>(c, r). spec_step c r) (zip ?cs [Err e1, Err e2, Ok ()]) (host_mounts ready_host)"
    using ready_call ready_call_fetch sample_target sample_links(2) by (intro volumes_refine[OF ready_good _ run]) simp_all
  also have "\<dots> = {''/pods/v''}" by (simp add: sample_publish_def host_mounts_def ready_host_def sample_host_def)
  finally show ?thesis using run by blast
qed

text \<open>C2. A published volume is what was asked for and cannot be written: the mount that a successful publish
  adds has the requested target, comes from the place of the requested store path in the cache, and has the
  flags read-only, no-suid and no-dev; no other mount changes.\<close>

theorem published_readonly:
  assumes "node_good K cache_dir h" and "call_ok K cache_dir (Publish req)" and "pub_target_path req \<notin> host_mounts h"
    and "node_publish_volume (node_service_new env policy nid cache_dir) req h = (Ok (), h')"
  shows "\<exists>sp m. volume_context req ''storePath'' = Some sp \<and> mount_table h' = m # mount_table h \<and>
    m_target m = components (pub_target_path req) \<and> m_source m = components (path_for cache_dir sp) \<and>
    m_flags m AND MS_RDONLY = MS_RDONLY \<and> m_flags m AND MS_NOSUID = MS_NOSUID \<and> m_flags m AND MS_NODEV = MS_NODEV"
  using publish_readonly_table[OF assms] volume_flags_bits by force

theorem published_readonly_witness:
  "\<exists>h' m. node_publish_volume sample_node (sample_publish ''e'' ''e'') ready_host = (Ok (), h') \<and>
     mount_table h' = [m] \<and> m_source m = [''cache'', ''e''] \<and> m_flags m AND MS_RDONLY = MS_RDONLY"
proof -
  obtain h' where run: "node_publish_volume sample_node (sample_publish ''e'' ''e'') ready_host = (Ok (), h')"
    using ready_published by blast
  then show ?thesis
    using published_readonly[OF ready_good ready_call ready_free run] ready_source
    by (auto simp: sample_publish_def ready_host_def sample_host_def)
qed

text \<open>Publishing is idempotent: the same request again, after it has succeeded, succeeds and changes nothing.\<close>

theorem publish_idempotent_host:
  assumes "node_good K cache_dir h" and "call_ok K cache_dir (Publish req)"
    and "node_publish_volume (node_service_new env policy nid cache_dir) req h = (Ok (), h')"
  shows "node_publish_volume (node_service_new env policy nid cache_dir) req h' = (Ok (), h')"
  using host_node.publish_idempotent[OF assms(1) _ assms(3)] assms(2) by simp

theorem publish_idempotent_witness:
  "\<exists>h'. node_publish_volume sample_node (sample_publish ''e'' ''e'') ready_host = (Ok (), h') \<and>
     node_publish_volume sample_node (sample_publish ''e'' ''e'') h' = (Ok (), h')"
proof -
  obtain h' where run: "node_publish_volume sample_node (sample_publish ''e'' ''e'') ready_host = (Ok (), h')"
    using ready_published by blast
  then show ?thesis using publish_idempotent_host[OF ready_good ready_call run] by blast
qed

text \<open>C33. The driver mounts any directory of the host: a volume whose store path is an absolute path outside
  \<open>/nix/store\<close> and whose closure is a single dot is published from that path, without any
  download or check. Volume attributes come from whoever writes the pod.\<close>

theorem host_directory_published:
  assumes "host_good S h" and "cache_inv cache_dir (host_fs h)" and "clean_in S (pub_target_path req)" and "clean_in S p"
    and "pub_target_path req \<notin> host_mounts h" and "pub_volume_id req \<noteq> []"
    and "dirs (host_fs h) (components (pub_target_path req))" and "dirs (host_fs h) (components p)"
    and "strip_prefix ''/nix/store/'' p = None" and "volume_context req ''storePath'' = Some p"
    and "volume_context req ''closurePaths'' = Some ''.''" and "\<forall>c. policy c = None"
  shows "\<exists>h'. node_publish_volume (node_service_new env policy nid cache_dir) req h = (Ok (), h') \<and>
    mount_table h' = \<lparr>m_target = components (pub_target_path req), m_source = components p, m_flags = volume_flags\<rparr> # mount_table h"
proof -
  let ?t = "pub_target_path req"
  have p: "path_for cache_dir p = p"
    using assms(4,9) by (simp add: path_for_def strip_store_dir_def path_join_def clean_in_def clean_path_def plain_path_def)
  have "closure_list ''.'' = [''.'']"
    by (simp add: closure_list_def split_char_def trim_def is_whitespace_def in_range_def)
  moreover have "host_ensure env cache_dir [''.''] u h = (Ok (), h)" for u
    using dot_cached[OF assms(2), of env u] by (simp add: host_ensure_def)
  moreover have "\<not> is_mountpoint (real_mount_ops policy) ?t h"
    using real.mountpoint_iff[OF assms(1,3)] assms(5) by simp
  moreover have "?t \<noteq> []" using assms(3) by (auto simp: clean_in_def clean_path_def path_text_def)
  ultimately show ?thesis
    using publish_mount_succeeds[OF assms(1,3), of cache_dir p policy env nid] assms(4,6-12) p
    by (simp add: node_publish_volume_def pbind_def pmap_err_def)
qed

theorem host_directory_published_witness:
  "\<exists>h'. node_publish_volume sample_node (sample_publish ''/etc'' ''.'') sample_host = (Ok (), h') \<and>
     mount_table h' = [\<lparr>m_target = [''pods'', ''v''], m_source = [''etc''], m_flags = volume_flags\<rparr>]"
proof -
  have "strip_prefix ''/nix/store/'' ''/etc'' = None" by (simp add: strip_prefix_def)
  then show ?thesis
    using host_directory_published[OF sample_host_good(1)[of UNIV] sample_host_cache, of "sample_publish ''/etc'' ''.''" "''/etc''"
        "\<lambda>c. None" "sample_csi_env []" "''n''"]
      sample_clean sample_dirs sample_host_mounts
    by (simp add: sample_publish_def clean_in_def sample_components) (simp add: sample_host_def)
qed

end
