(* ===== verification/Crd.thy ===== *)
theory Crd
  imports Eval_Request "HOL-Library.AList"
begin

text \<open>
  JSON values as the program builds them (crate serde_json), and the custom resource NiphasWorkload
  (src/crates/niphas-core/src/crd.rs). Fields whose type is of the Kubernetes API (crate k8s-openapi) hold
  the JSON form of their value, which is all the program uses of them. Text in a Rust string is
  the list of its bytes, integers are unbounded where the program only compares and prints them.
\<close>

section \<open>JSON\<close>

datatype json = JNull | JBool bool | JInt int | JStr string | JArr "json list" | JObj "(string \<times> json) list"

definition jget :: "json \<Rightarrow> string \<Rightarrow> json option" where
  "jget j k = (case j of JObj fs \<Rightarrow> map_of fs k | _ \<Rightarrow> None)"

fun jpath :: "json \<Rightarrow> string list \<Rightarrow> json option" where
  "jpath j [] = Some j"
| "jpath j (k # ks) = (case jget j k of None \<Rightarrow> None | Some j' \<Rightarrow> jpath j' ks)"

text \<open>\<open>Map::insert\<close>.\<close>

fun jinsert :: "string \<Rightarrow> json \<Rightarrow> json \<Rightarrow> json" where
  "jinsert k v (JObj fs) = JObj (AList.update k v fs)"
| "jinsert k v j = j"

definition jinsert_opt :: "string \<Rightarrow> json option \<Rightarrow> json \<Rightarrow> json" where
  "jinsert_opt k v j = (case v of None \<Rightarrow> j | Some x \<Rightarrow> jinsert k x j)"

abbreviation jstrs :: "string list \<Rightarrow> json" where
  "jstrs ss \<equiv> JArr (map JStr ss)"

text \<open>The JSON merge patch of RFC 7386, which the API server applies for \<open>Patch::Merge\<close>.\<close>

fun merge_patch :: "json \<Rightarrow> json \<Rightarrow> json" and merge_fields :: "(string \<times> json) list \<Rightarrow> (string \<times> json) list \<Rightarrow> (string \<times> json) list" where
  "merge_patch old (JObj fs) =
     JObj (merge_fields (case old of JObj xs \<Rightarrow> xs | _ \<Rightarrow> []) fs)"
| "merge_patch old patch = patch"
| "merge_fields old [] = old"
| "merge_fields old ((k, v) # fs) =
     merge_fields (if v = JNull then AList.delete k old
                   else AList.update k (merge_patch (case map_of old k of Some x \<Rightarrow> x | None \<Rightarrow> JNull) v) old) fs"

lemma jget_JObj [simp]: "jget (JObj fs) k = map_of fs k"
  by (simp add: jget_def)

text \<open>Objects, and what is in them after an insertion.\<close>

definition is_obj :: "json \<Rightarrow> bool" where
  "is_obj j \<longleftrightarrow> (case j of JObj _ \<Rightarrow> True | _ \<Rightarrow> False)"

lemma is_obj_simps [simp]:
  "is_obj (JObj fs)"
  "is_obj (jinsert k v j) \<longleftrightarrow> is_obj j"
  "is_obj (jinsert_opt k x j) \<longleftrightarrow> is_obj j"
  by (cases j; cases x; simp add: is_obj_def jinsert_opt_def)+

lemma jget_jinsert [simp]: "is_obj j \<Longrightarrow> jget (jinsert k v j) k' = (if k = k' then Some v else jget j k')"
  by (cases j) (simp_all add: is_obj_def update_conv')

lemma jget_jinsert_opt [simp]:
  "is_obj j \<Longrightarrow> jget (jinsert_opt k x j) k' = (if k = k' \<and> x \<noteq> None then x else jget j k')"
  by (cases x) (simp_all add: jinsert_opt_def)

declare jinsert.simps [simp del]

lemma jget_None: "\<not> is_obj j \<Longrightarrow> jget j k = None"
  by (cases j) (simp_all add: is_obj_def jget_def)

lemma merge_fields_get:
  "distinct (map fst fs) \<Longrightarrow> map_of (merge_fields old fs) k =
     (case map_of fs k of
        None \<Rightarrow> map_of old k
      | Some v \<Rightarrow> if v = JNull then None else Some (merge_patch (case map_of old k of Some x \<Rightarrow> x | None \<Rightarrow> JNull) v))"
proof (induction fs arbitrary: old)
  case (Cons f fs)
  obtain k' v where f: "f = (k', v)" by fastforce
  have "map_of fs k = None" if "k = k'" using Cons.prems f that by (simp add: map_of_eq_None_iff)
  then show ?case
    using Cons.IH Cons.prems f by (auto simp: update_conv' delete_conv' split: option.splits)
qed simp

text \<open>The fields of an object after a merge patch.\<close>

lemma jget_merge:
  "distinct (map fst fs) \<Longrightarrow> jget (merge_patch j (JObj fs)) k =
     (case map_of fs k of
        None \<Rightarrow> jget j k
      | Some v \<Rightarrow> if v = JNull then None else Some (merge_patch (case jget j k of Some x \<Rightarrow> x | None \<Rightarrow> JNull) v))"
  by (cases j) (simp_all add: merge_fields_get jget_def split: option.splits)

lemma merge_is_obj [simp]: "is_obj (merge_patch j (JObj fs))"
  by simp

declare merge_patch.simps(1) [simp del]

section \<open>The custom resource\<close>

record niphas_service_port =
  sp_name :: "string option"
  sp_port :: int
  sp_target_port :: "string option"
  sp_protocol :: "string option"

record niphas_service_spec =
  svc_type :: "string option"
  svc_ports :: "niphas_service_port list"

record niphas_ingress_path =
  ip_path :: string
  ip_path_type :: "string option"
  ip_port :: string

record niphas_ingress_host =
  ih_host :: string
  ih_paths :: "niphas_ingress_path list"

record niphas_ingress_tls =
  tls_secret_name :: string
  tls_hosts :: "string list"

record niphas_ingress_spec =
  ing_enabled :: bool
  ing_class_name :: "string option"
  ing_hosts :: "niphas_ingress_host list option"
  ing_tls :: "niphas_ingress_tls list option"

record niphas_workload_spec =
  ws_flake_ref :: string
  ws_attribute :: string
  ws_revision :: "string option"
  ws_replicas :: "int option"
  ws_binary_cache :: "string option"
  ws_command :: "string list option"
  ws_args :: "string list option"
  ws_env :: "json option"
  ws_ports :: "json option"
  ws_resources :: "json option"
  ws_liveness_probe :: "json option"
  ws_readiness_probe :: "json option"
  ws_startup_probe :: "json option"
  ws_node_selector :: "(string \<times> string) list option"
  ws_tolerations :: "json list option"
  ws_affinity :: "json option"
  ws_service :: "niphas_service_spec option"
  ws_ingress :: "niphas_ingress_spec option"
  ws_extra_volumes :: "json list option"
  ws_extra_volume_mounts :: "json list option"
  ws_architectures :: "string list option"

datatype workload_phase = Pending | Evaluating | Provisioning | Running | Failed

fun phase_str :: "workload_phase \<Rightarrow> string" where
  "phase_str Pending = ''Pending''"
| "phase_str Evaluating = ''Evaluating''"
| "phase_str Provisioning = ''Provisioning''"
| "phase_str Running = ''Running''"
| "phase_str Failed = ''Failed''"

datatype condition_status = CondTrue | CondFalse | CondUnknown

fun condition_status_str :: "condition_status \<Rightarrow> string" where
  "condition_status_str CondTrue = ''True''"
| "condition_status_str CondFalse = ''False''"
| "condition_status_str CondUnknown = ''Unknown''"

record niphas_condition =
  cond_type :: string
  cond_status :: condition_status
  cond_reason :: string
  cond_message :: string
  cond_last_transition_time :: string
  cond_observed_generation :: "int option"

record arch_status =
  arch :: string
  arch_store_path :: string
  arch_resolved_command :: "string option"
  arch_closure_paths :: "string list option"
  arch_ready_replicas :: "int option"

record niphas_workload_status =
  st_observed_generation :: "int option"
  st_phase :: workload_phase
  st_store_path :: "string option"
  st_resolved_command :: "string option"
  st_closure_paths :: "string list option"
  st_last_eval :: "string option"
  st_ready_replicas :: "int option"
  st_conditions :: "niphas_condition list option"
  st_architectures :: "arch_status list option"

definition default_status :: niphas_workload_status where
  "default_status = \<lparr>st_observed_generation = None, st_phase = Pending, st_store_path = None,
     st_resolved_command = None, st_closure_paths = None, st_last_eval = None, st_ready_replicas = None,
     st_conditions = None, st_architectures = None\<rparr>"

subsection \<open>Reading the status\<close>

text \<open>
  The derived \<open>Deserialize\<close>: a field that is missing or null is \<open>None\<close>, a value of another type or out of
  the range of its integer type refuses the whole status. The derived code would also read the fields from an array, by position; the schema of
  the resource admits only objects, and the model refuses arrays.
\<close>

fun str_value :: "json \<Rightarrow> string option" where
  "str_value (JStr s) = Some s"
| "str_value _ = None"

definition int_value :: "nat \<Rightarrow> json \<Rightarrow> int option" where
  "int_value w j = (case j of JInt i \<Rightarrow> if - (2 ^ (w - 1)) \<le> i \<and> i < 2 ^ (w - 1) then Some i else None | _ \<Rightarrow> None)"

fun collect :: "'a option list \<Rightarrow> 'a list option" where
  "collect [] = Some []"
| "collect (x # xs) = (case x of None \<Rightarrow> None | Some y \<Rightarrow> map_option ((#) y) (collect xs))"

definition list_value :: "(json \<Rightarrow> 'a option) \<Rightarrow> json \<Rightarrow> 'a list option" where
  "list_value f j = (case j of JArr js \<Rightarrow> collect (map f js) | _ \<Rightarrow> None)"

definition field_opt :: "(json \<Rightarrow> 'a option) \<Rightarrow> string \<Rightarrow> json \<Rightarrow> 'a option option" where
  "field_opt f k j = (case jget j k of None \<Rightarrow> Some None | Some JNull \<Rightarrow> Some None | Some v \<Rightarrow> map_option Some (f v))"

definition field_req :: "(json \<Rightarrow> 'a option) \<Rightarrow> string \<Rightarrow> json \<Rightarrow> 'a option" where
  "field_req f k j = Option.bind (jget j k) f"

definition phase_value :: "json \<Rightarrow> workload_phase option" where
  "phase_value j = find (\<lambda>p. j = JStr (phase_str p)) [Pending, Evaluating, Provisioning, Running, Failed]"

definition condition_status_value :: "json \<Rightarrow> condition_status option" where
  "condition_status_value j = find (\<lambda>c. j = JStr (condition_status_str c)) [CondTrue, CondFalse, CondUnknown]"

definition condition_value :: "json \<Rightarrow> niphas_condition option" where
  "condition_value j =
     Option.bind (field_req str_value ''type'' j) (\<lambda>ty.
     Option.bind (field_req condition_status_value ''status'' j) (\<lambda>cs.
     Option.bind (field_req str_value ''reason'' j) (\<lambda>re.
     Option.bind (field_req str_value ''message'' j) (\<lambda>ms.
     Option.bind (field_req str_value ''lastTransitionTime'' j) (\<lambda>lt.
     Option.bind (field_opt (int_value 64) ''observedGeneration'' j) (\<lambda>og.
     Some \<lparr>cond_type = ty, cond_status = cs, cond_reason = re, cond_message = ms,
           cond_last_transition_time = lt, cond_observed_generation = og\<rparr>))))))"

definition arch_status_value :: "json \<Rightarrow> arch_status option" where
  "arch_status_value j =
     Option.bind (field_req str_value ''arch'' j) (\<lambda>ar.
     Option.bind (field_req str_value ''storePath'' j) (\<lambda>sp.
     Option.bind (field_opt str_value ''resolvedCommand'' j) (\<lambda>rc.
     Option.bind (field_opt (list_value str_value) ''closurePaths'' j) (\<lambda>cp.
     Option.bind (field_opt (int_value 32) ''readyReplicas'' j) (\<lambda>rr.
     Some \<lparr>arch = ar, arch_store_path = sp, arch_resolved_command = rc,
           arch_closure_paths = cp, arch_ready_replicas = rr\<rparr>)))))"

definition status_value :: "json \<Rightarrow> niphas_workload_status option" where
  "status_value j = (if \<not> is_obj j then None else
     Option.bind (field_opt (int_value 64) ''observedGeneration'' j) (\<lambda>og.
     Option.bind (case jget j ''phase'' of None \<Rightarrow> Some Pending | Some v \<Rightarrow> phase_value v) (\<lambda>ph.
     Option.bind (field_opt str_value ''storePath'' j) (\<lambda>sp.
     Option.bind (field_opt str_value ''resolvedCommand'' j) (\<lambda>rc.
     Option.bind (field_opt (list_value str_value) ''closurePaths'' j) (\<lambda>cp.
     Option.bind (field_opt str_value ''lastEval'' j) (\<lambda>le.
     Option.bind (field_opt (int_value 32) ''readyReplicas'' j) (\<lambda>rr.
     Option.bind (field_opt (list_value condition_value) ''conditions'' j) (\<lambda>cs.
     Option.bind (field_opt (list_value arch_status_value) ''architectures'' j) (\<lambda>as.
     Some \<lparr>st_observed_generation = og, st_phase = ph, st_store_path = sp, st_resolved_command = rc,
           st_closure_paths = cp, st_last_eval = le, st_ready_replicas = rr, st_conditions = cs,
           st_architectures = as\<rparr>))))))))))"

subsection \<open>Workloads\<close>

record object_meta =
  meta_name :: "string option"
  generate_name :: "string option"
  meta_namespace :: "string option"
  meta_uid :: "string option"
  generation :: "int option"
  deletion_timestamp :: "string option"
  finalizers :: "string list option"

record niphas_workload =
  metadata :: object_meta
  spec :: niphas_workload_spec
  status_of :: "niphas_workload_status option"

definition the_or :: "'a \<Rightarrow> 'a option \<Rightarrow> 'a" where
  "the_or d x = (case x of Some y \<Rightarrow> y | None \<Rightarrow> d)"

lemma the_or_simps [simp]: "the_or d None = d" "the_or d (Some x) = x"
  by (simp_all add: the_or_def)

text \<open>\<open>ResourceExt::name_any\<close> of the crate kube.\<close>

definition name_any :: "niphas_workload \<Rightarrow> string" where
  "name_any w = (case meta_name (metadata w) of Some n \<Rightarrow> n | None \<Rightarrow> the_or [] (generate_name (metadata w)))"

definition namespace_of :: "niphas_workload \<Rightarrow> string" where
  "namespace_of w = the_or [] (meta_namespace (metadata w))"

end
