(* ===== verification/Resources.thy ===== *)
theory Resources
  imports Crd Effects
begin

text \<open>
  The child resources of a workload (src/crates/niphas-operator/src/resources.rs): the manifests of the
  Deployment, Service, Ingress and PodDisruptionBudget as JSON, and the order in which they are applied. The
  API client (crate kube) is the argument \<open>apply\<close>, a program on the state of the cluster from the kind,
  the namespace, the name and the manifest.
\<close>

section \<open>Definitions\<close>

definition FIELD_MANAGER :: string where
  "FIELD_MANAGER = ''niphas-operator''"

definition RUNNER_IMAGE :: string where
  "RUNNER_IMAGE = ''ghcr.io/fullzer4/niphas-runner:latest''"

definition owner_reference :: "niphas_workload \<Rightarrow> json" where
  "owner_reference w = JObj
     [(''apiVersion'', JStr ''niphas.io/v1alpha1''),
      (''kind'', JStr ''NiphasWorkload''),
      (''name'', JStr (name_any w)),
      (''uid'', JStr (the_or [] (meta_uid (metadata w)))),
      (''controller'', JBool True),
      (''blockOwnerDeletion'', JBool True)]"

definition workload_labels :: "string \<Rightarrow> json" where
  "workload_labels nm = JObj
     [(''niphas.io/workload'', JStr nm), (''niphas.io/managed-by'', JStr ''niphas-operator'')]"

definition workload_selector :: "string \<Rightarrow> json" where
  "workload_selector nm = JObj [(''niphas.io/workload'', JStr nm)]"

definition child_metadata :: "niphas_workload \<Rightarrow> string \<Rightarrow> string \<Rightarrow> string \<Rightarrow> json" where
  "child_metadata w child_name nm ns = JObj
     [(''name'', JStr child_name), (''namespace'', JStr ns),
      (''ownerReferences'', JArr [owner_reference w]), (''labels'', workload_labels nm)]"

definition node_selector :: "niphas_workload_spec \<Rightarrow> json" where
  "node_selector sp =
     foldl (\<lambda>j (k, v). jinsert k (JStr v) j) (JObj [(''niphas.io/store'', JStr ''true'')])
       (the_or [] (ws_node_selector sp))"

definition default_toleration :: "string \<Rightarrow> json" where
  "default_toleration key = JObj
     [(''key'', JStr key), (''operator'', JStr ''Exists''), (''effect'', JStr ''NoExecute''),
      (''tolerationSeconds'', JInt 30)]"

definition tolerations :: "niphas_workload_spec \<Rightarrow> json list" where
  "tolerations sp =
     [default_toleration ''node.kubernetes.io/not-ready'', default_toleration ''node.kubernetes.io/unreachable''] @
     the_or [] (ws_tolerations sp)"

definition nix_store_mount :: json where
  "nix_store_mount = JObj
     [(''name'', JStr ''nix-store''), (''mountPath'', JStr ''/nix/store''), (''readOnly'', JBool True)]"

definition container :: "niphas_workload_spec \<Rightarrow> eval_response \<Rightarrow> json" where
  "container sp er =
     (let command = (case ws_command sp of Some cmd \<Rightarrow> jstrs cmd | None \<Rightarrow> JArr [JStr (resolved_command er)]);
          c0 = JObj [(''name'', JStr ''app''), (''image'', JStr RUNNER_IMAGE), (''command'', command),
                     (''volumeMounts'', JArr [nix_store_mount])];
          c1 = jinsert_opt ''args'' (map_option jstrs (ws_args sp)) c0;
          c2 = jinsert_opt ''env'' (ws_env sp) c1;
          c3 = jinsert_opt ''ports'' (ws_ports sp) c2;
          c4 = jinsert_opt ''resources'' (ws_resources sp) c3;
          c5 = jinsert_opt ''livenessProbe'' (ws_liveness_probe sp) c4;
          c6 = jinsert_opt ''readinessProbe'' (ws_readiness_probe sp) c5;
          c7 = jinsert_opt ''startupProbe'' (ws_startup_probe sp) c6
      in case ws_extra_volume_mounts sp of
           None \<Rightarrow> c7
         | Some ms \<Rightarrow> jinsert ''volumeMounts'' (JArr (nix_store_mount # ms)) c7)"

definition csi_attributes :: "eval_response \<Rightarrow> json" where
  "csi_attributes er = JObj [(''closurePaths'', JStr (join '','' (closure_paths er)))]"

definition volumes :: "niphas_workload_spec \<Rightarrow> eval_response \<Rightarrow> json list" where
  "volumes sp er =
     JObj [(''name'', JStr ''nix-store''),
           (''csi'', JObj [(''driver'', JStr ''niphas.io.csi''), (''volumeAttributes'', csi_attributes er)])] #
     the_or [] (ws_extra_volumes sp)"

definition spread_constraint :: "string \<Rightarrow> string \<Rightarrow> string \<Rightarrow> json" where
  "spread_constraint nm key unsatisfiable = JObj
     [(''maxSkew'', JInt 1), (''topologyKey'', JStr key), (''whenUnsatisfiable'', JStr unsatisfiable),
      (''labelSelector'', JObj [(''matchLabels'', workload_selector nm)])]"

definition pod_spec :: "niphas_workload_spec \<Rightarrow> eval_response \<Rightarrow> string \<Rightarrow> json" where
  "pod_spec sp er nm =
     (let p0 = JObj [(''nodeSelector'', node_selector sp), (''tolerations'', JArr (tolerations sp)),
                     (''containers'', JArr [container sp er]), (''volumes'', JArr (volumes sp er))];
          p1 = (if the_or 1 (ws_replicas sp) \<ge> 2
                then jinsert ''topologySpreadConstraints''
                       (JArr [spread_constraint nm ''kubernetes.io/hostname'' ''DoNotSchedule'',
                              spread_constraint nm ''topology.kubernetes.io/zone'' ''ScheduleAnyway'']) p0
                else p0)
      in jinsert_opt ''affinity'' (ws_affinity sp) p1)"

definition build_deployment :: "niphas_workload \<Rightarrow> eval_response \<Rightarrow> string \<Rightarrow> string \<Rightarrow> json" where
  "build_deployment w er nm ns = JObj
     [(''apiVersion'', JStr ''apps/v1''), (''kind'', JStr ''Deployment''),
      (''metadata'', child_metadata w nm nm ns),
      (''spec'', JObj
         [(''replicas'', JInt (the_or 1 (ws_replicas (spec w)))),
          (''selector'', JObj [(''matchLabels'', workload_selector nm)]),
          (''template'', JObj
             [(''metadata'', JObj [(''labels'', workload_labels nm)]),
              (''spec'', pod_spec (spec w) er nm)])])]"

text \<open>\<open>parse::<i32>\<close>, with the text itself when it is not a number.\<close>

definition service_port :: "niphas_service_port \<Rightarrow> json" where
  "service_port p =
     (let o0 = JObj [(''port'', JInt (sp_port p)), (''protocol'', JStr (the_or ''TCP'' (sp_protocol p)))];
          o1 = jinsert_opt ''name'' (map_option JStr (sp_name p)) o0
      in case sp_target_port p of
           None \<Rightarrow> o1
         | Some tp \<Rightarrow> jinsert ''targetPort'' (case parse_i32 tp of Ok num \<Rightarrow> JInt num | _ \<Rightarrow> JStr tp) o1)"

definition build_service :: "niphas_workload \<Rightarrow> string \<Rightarrow> string \<Rightarrow> ('e, json) outcome" where
  "build_service w nm ns =
     (case ws_service (spec w) of
        None \<Rightarrow> Panic
      | Some svc \<Rightarrow> Ok (JObj
          [(''apiVersion'', JStr ''v1''), (''kind'', JStr ''Service''),
           (''metadata'', child_metadata w nm nm ns),
           (''spec'', JObj
              [(''type'', JStr (the_or ''ClusterIP'' (svc_type svc))),
               (''selector'', workload_selector nm),
               (''ports'', JArr (map service_port (svc_ports svc)))])]))"

definition ingress_path :: "string \<Rightarrow> niphas_ingress_path \<Rightarrow> json" where
  "ingress_path nm p = JObj
     [(''path'', JStr (ip_path p)), (''pathType'', JStr (the_or ''Prefix'' (ip_path_type p))),
      (''backend'', JObj [(''service'', JObj
         [(''name'', JStr nm),
          (''port'', case parse_i32 (ip_port p) of
             Ok num \<Rightarrow> JObj [(''number'', JInt num)] | _ \<Rightarrow> JObj [(''name'', JStr (ip_port p))])])])]"

definition ingress_rule :: "string \<Rightarrow> niphas_ingress_host \<Rightarrow> json" where
  "ingress_rule nm h = JObj
     [(''host'', JStr (ih_host h)),
      (''http'', JObj [(''paths'', JArr (map (ingress_path nm) (ih_paths h)))])]"

definition build_ingress :: "niphas_workload \<Rightarrow> string \<Rightarrow> string \<Rightarrow> ('e, json) outcome" where
  "build_ingress w nm ns =
     (case ws_ingress (spec w) of
        None \<Rightarrow> Panic
      | Some ing \<Rightarrow>
          let s0 = jinsert_opt ''ingressClassName'' (map_option JStr (ing_class_name ing)) (JObj []);
              s1 = jinsert_opt ''rules'' (map_option (\<lambda>hs. JArr (map (ingress_rule nm) hs)) (ing_hosts ing)) s0;
              s2 = jinsert_opt ''tls'' (map_option (\<lambda>ts. JArr (map (\<lambda>t. JObj
                     [(''hosts'', jstrs (tls_hosts t)), (''secretName'', JStr (tls_secret_name t))]) ts)) (ing_tls ing)) s1
          in Ok (JObj
            [(''apiVersion'', JStr ''networking.k8s.io/v1''), (''kind'', JStr ''Ingress''),
             (''metadata'', child_metadata w nm nm ns), (''spec'', s2)]))"

definition build_pdb :: "niphas_workload \<Rightarrow> string \<Rightarrow> string \<Rightarrow> json" where
  "build_pdb w nm ns = JObj
     [(''apiVersion'', JStr ''policy/v1''), (''kind'', JStr ''PodDisruptionBudget''),
      (''metadata'', child_metadata w (nm @ ''-pdb'') nm ns),
      (''spec'', JObj
         [(''maxUnavailable'', JInt 1),
          (''selector'', JObj [(''matchLabels'', workload_selector nm)]),
          (''unhealthyPodEvictionPolicy'', JStr ''AlwaysAllow'')])]"

text \<open>A server-side apply of one resource.\<close>

record child =
  child_kind :: string
  child_ns :: string
  child_name :: string
  manifest :: json

definition apply_child_resources ::
  "(child \<Rightarrow> ('s, 'e, unit) prog) \<Rightarrow> niphas_workload \<Rightarrow> eval_response \<Rightarrow> ('s, 'e, unit) prog" where
  "apply_child_resources apply_resource w er =
     (let nm = name_any w; ns = namespace_of w; resource = (\<lambda>k n m. \<lparr>child_kind = k, child_ns = ns, child_name = n, manifest = m\<rparr>) in
      pbind (apply_resource (resource ''Deployment'' nm (build_deployment w er nm ns))) (\<lambda>_.
      pbind (if ws_service (spec w) \<noteq> None
             then pbind (plift (build_service w nm ns)) (\<lambda>m. apply_resource (resource ''Service'' nm m))
             else pret ()) (\<lambda>_.
      pbind (case ws_ingress (spec w) of
               Some ing \<Rightarrow> if ing_enabled ing
                 then pbind (plift (build_ingress w nm ns)) (\<lambda>m. apply_resource (resource ''Ingress'' nm m))
                 else pret ()
             | None \<Rightarrow> pret ()) (\<lambda>_.
      if the_or 1 (ws_replicas (spec w)) \<ge> 2
      then apply_resource (resource ''PodDisruptionBudget'' (nm @ ''-pdb'') (build_pdb w nm ns))
      else pret ()))))"

section \<open>The specification\<close>

text \<open>The resources of a workload, in the order they are applied.\<close>

definition wants_ingress :: "niphas_workload_spec \<Rightarrow> bool" where
  "wants_ingress sp \<longleftrightarrow> (case ws_ingress sp of Some ing \<Rightarrow> ing_enabled ing | None \<Rightarrow> False)"

definition the_manifest :: "(unit, json) outcome \<Rightarrow> json" where
  "the_manifest r = (case r of Ok m \<Rightarrow> m | _ \<Rightarrow> JNull)"

definition children :: "niphas_workload \<Rightarrow> eval_response \<Rightarrow> child list" where
  "children w er =
     (let nm = name_any w; ns = namespace_of w in
      [\<lparr>child_kind = ''Deployment'', child_ns = ns, child_name = nm, manifest = build_deployment w er nm ns\<rparr>] @
      (if ws_service (spec w) \<noteq> None
       then [\<lparr>child_kind = ''Service'', child_ns = ns, child_name = nm, manifest = the_manifest (build_service w nm ns)\<rparr>] else []) @
      (if wants_ingress (spec w)
       then [\<lparr>child_kind = ''Ingress'', child_ns = ns, child_name = nm, manifest = the_manifest (build_ingress w nm ns)\<rparr>] else []) @
      (if the_or 1 (ws_replicas (spec w)) \<ge> 2
       then [\<lparr>child_kind = ''PodDisruptionBudget'', child_ns = ns, child_name = nm @ ''-pdb'', manifest = build_pdb w nm ns\<rparr>] else []))"

text \<open>A selector of labels: every label it names has its value.\<close>

definition selects :: "json \<Rightarrow> json \<Rightarrow> bool" where
  "selects sel labels \<longleftrightarrow> (case sel of JObj ls \<Rightarrow> list_all (\<lambda>(k, v). jget labels k = Some v) ls | _ \<Rightarrow> False)"

text \<open>A reference that makes a workload the owner of an object, as the garbage collection of the cluster needs it: the version, kind and
  name of the workload and its uid, which is not empty. The flags let no other controller adopt the object and make a
  foreground deletion wait for it.\<close>

definition names_owner :: "niphas_workload \<Rightarrow> json \<Rightarrow> bool" where
  "names_owner w ref \<longleftrightarrow>
     jget ref ''apiVersion'' = Some (JStr ''niphas.io/v1alpha1'') \<and> jget ref ''kind'' = Some (JStr ''NiphasWorkload'') \<and>
     jget ref ''name'' = Some (JStr (name_any w)) \<and>
     (\<exists>u. meta_uid (metadata w) = Some u \<and> u \<noteq> [] \<and> jget ref ''uid'' = Some (JStr u)) \<and>
     jget ref ''controller'' = Some (JBool True) \<and> jget ref ''blockOwnerDeletion'' = Some (JBool True)"

definition owned_by :: "niphas_workload \<Rightarrow> child \<Rightarrow> bool" where
  "owned_by w c \<longleftrightarrow>
     (\<exists>ref. jpath (manifest c) [''metadata'', ''ownerReferences''] = Some (JArr [ref]) \<and> names_owner w ref)"

text \<open>A child is where it is applied: its manifest has the kind, the name and the namespace of the call, and the label of the workload.\<close>

definition in_its_place :: "niphas_workload \<Rightarrow> child \<Rightarrow> bool" where
  "in_its_place w c \<longleftrightarrow>
     child_ns c = namespace_of w \<and>
     jpath (manifest c) [''kind''] = Some (JStr (child_kind c)) \<and>
     jpath (manifest c) [''metadata'', ''name''] = Some (JStr (child_name c)) \<and>
     jpath (manifest c) [''metadata'', ''namespace''] = Some (JStr (child_ns c)) \<and>
     jpath (manifest c) [''metadata'', ''labels'', ''niphas.io/workload''] = Some (JStr (name_any w))"

text \<open>The kinds and names that a specification asks for.\<close>

definition wanted :: "niphas_workload \<Rightarrow> (string \<times> string) set" where
  "wanted w = {(''Deployment'', name_any w)} \<union>
     (if ws_service (spec w) = None then {} else {(''Service'', name_any w)}) \<union>
     (case ws_ingress (spec w) of Some ing \<Rightarrow> if ing_enabled ing then {(''Ingress'', name_any w)} else {} | None \<Rightarrow> {}) \<union>
     (if the_or 1 (ws_replicas (spec w)) \<ge> 2 then {(''PodDisruptionBudget'', name_any w @ ''-pdb'')} else {})"

text \<open>The labels that the pods of a manifest carry, and the selector of pods that a manifest has.\<close>

definition pod_labels :: "json \<Rightarrow> json option" where
  "pod_labels j = jpath j [''spec'', ''template'', ''metadata'', ''labels'']"

definition pod_selector :: "child \<Rightarrow> json option" where
  "pod_selector c =
     (if child_kind c = ''Service'' then jpath (manifest c) [''spec'', ''selector'']
      else jpath (manifest c) [''spec'', ''selector'', ''matchLabels''])"

section \<open>Lemmas\<close>

lemma pbind_pret_right [simp]: "pbind m pret = m"
  by (auto simp: pbind_def fun_eq_iff split: prod.splits outcome.splits)

lemma pbind_Ok_right [simp]: "pbind m (\<lambda>_. Pair (Ok ())) = m"
  by (auto simp: pbind_def fun_eq_iff split: prod.splits outcome.splits)

lemma build_service_run:
  "ws_service (spec w) = Some svc \<Longrightarrow>
     pbind (plift (build_service w nm ns)) f = f (the_manifest (build_service w nm ns))"
  by (simp add: build_service_def the_manifest_def)

lemma build_ingress_run:
  "ws_ingress (spec w) = Some ing \<Longrightarrow>
     pbind (plift (build_ingress w nm ns)) f = f (the_manifest (build_ingress w nm ns))"
  by (simp add: build_ingress_def the_manifest_def Let_def)

lemma apply_children:
  "apply_child_resources apply_resource w er = piter apply_resource (children w er)"
  by (cases "ws_ingress (spec w)"; cases "ws_service (spec w)")
     (simp_all add: apply_child_resources_def children_def Let_def wants_ingress_def build_service_run build_ingress_run)

lemma pod_spec_fields:
  "jget (pod_spec sp er nm) ''nodeSelector'' = Some (node_selector sp)"
  "jget (pod_spec sp er nm) ''tolerations'' = Some (JArr (tolerations sp))"
  "jget (pod_spec sp er nm) ''containers'' = Some (JArr [container sp er])"
  "jget (pod_spec sp er nm) ''volumes'' = Some (JArr (volumes sp er))"
  "jget (pod_spec sp er nm) ''affinity'' = ws_affinity sp"
  "jget (pod_spec sp er nm) ''topologySpreadConstraints'' =
     (if the_or 1 (ws_replicas sp) \<ge> 2
      then Some (JArr [spread_constraint nm ''kubernetes.io/hostname'' ''DoNotSchedule'',
                       spread_constraint nm ''topology.kubernetes.io/zone'' ''ScheduleAnyway'']) else None)"
  by (simp_all add: pod_spec_def Let_def)

lemma node_selector_fold:
  "foldl (\<lambda>j (k, v). jinsert k (JStr v) j) (JObj fs) kvs =
   JObj (foldl (\<lambda>fs (k, v). AList.update k (JStr v) fs) fs kvs)"
  by (induction kvs arbitrary: fs) (auto simp: jinsert.simps)

lemma update_fold:
  "map_of (foldl (\<lambda>fs (k, v). AList.update k (JStr v) fs) fs kvs) k =
   (case map_of (rev kvs) k of Some v \<Rightarrow> Some (JStr v) | None \<Rightarrow> map_of fs k)"
  by (induction kvs rule: rev_induct) (auto simp: update_conv')

lemma node_selector_get:
  "jget (node_selector sp) k =
     (case map_of (rev (the_or [] (ws_node_selector sp))) k of
        Some v \<Rightarrow> Some (JStr v)
      | None \<Rightarrow> if k = ''niphas.io/store'' then Some (JStr ''true'') else None)"
  by (simp add: node_selector_def node_selector_fold update_fold split: option.splits)

lemma container_fields:
  "jget (container sp er) ''image'' = Some (JStr RUNNER_IMAGE)"
  "jget (container sp er) ''command'' =
     Some (case ws_command sp of Some cmd \<Rightarrow> jstrs cmd | None \<Rightarrow> JArr [JStr (resolved_command er)])"
  "jget (container sp er) ''volumeMounts'' = Some (JArr (nix_store_mount # the_or [] (ws_extra_volume_mounts sp)))"
  "jget (container sp er) ''args'' = map_option jstrs (ws_args sp)"
  "jget (container sp er) ''env'' = ws_env sp"
  "jget (container sp er) ''ports'' = ws_ports sp"
  "jget (container sp er) ''resources'' = ws_resources sp"
  "jget (container sp er) ''livenessProbe'' = ws_liveness_probe sp"
  "jget (container sp er) ''readinessProbe'' = ws_readiness_probe sp"
  "jget (container sp er) ''startupProbe'' = ws_startup_probe sp"
  by (simp_all add: container_def Let_def split: option.splits)

lemma manifest_of_service:
  "ws_service (spec w) = Some svc \<Longrightarrow> the_manifest (build_service w nm ns) = JObj
     [(''apiVersion'', JStr ''v1''), (''kind'', JStr ''Service''), (''metadata'', child_metadata w nm nm ns),
      (''spec'', JObj [(''type'', JStr (the_or ''ClusterIP'' (svc_type svc))), (''selector'', workload_selector nm),
                       (''ports'', JArr (map service_port (svc_ports svc)))])]"
  by (simp add: build_service_def the_manifest_def)

lemma manifest_of_ingress:
  "wants_ingress (spec w) \<Longrightarrow> \<exists>body. the_manifest (build_ingress w nm ns) = JObj
     [(''apiVersion'', JStr ''networking.k8s.io/v1''), (''kind'', JStr ''Ingress''),
      (''metadata'', child_metadata w nm nm ns), (''spec'', body)]"
  by (auto simp: build_ingress_def the_manifest_def wants_ingress_def Let_def split: option.splits)

lemma child_metadata_fields:
  "jget (child_metadata w cn nm ns) ''name'' = Some (JStr cn)"
  "jget (child_metadata w cn nm ns) ''namespace'' = Some (JStr ns)"
  "jget (child_metadata w cn nm ns) ''ownerReferences'' = Some (JArr [owner_reference w])"
  "jget (child_metadata w cn nm ns) ''labels'' = Some (workload_labels nm)"
  by (simp_all add: child_metadata_def)

lemma selects_own [simp]: "selects (workload_selector nm) (workload_labels nm)"
  by (simp add: selects_def workload_selector_def workload_labels_def)

lemma children_cases:
  "c \<in> set (children w er) \<longleftrightarrow>
     c = \<lparr>child_kind = ''Deployment'', child_ns = namespace_of w, child_name = name_any w,
          manifest = build_deployment w er (name_any w) (namespace_of w)\<rparr> \<or>
     ws_service (spec w) \<noteq> None \<and>
     c = \<lparr>child_kind = ''Service'', child_ns = namespace_of w, child_name = name_any w,
          manifest = the_manifest (build_service w (name_any w) (namespace_of w))\<rparr> \<or>
     wants_ingress (spec w) \<and>
     c = \<lparr>child_kind = ''Ingress'', child_ns = namespace_of w, child_name = name_any w,
          manifest = the_manifest (build_ingress w (name_any w) (namespace_of w))\<rparr> \<or>
     the_or 1 (ws_replicas (spec w)) \<ge> 2 \<and>
     c = \<lparr>child_kind = ''PodDisruptionBudget'', child_ns = namespace_of w, child_name = name_any w @ ''-pdb'',
          manifest = build_pdb w (name_any w) (namespace_of w)\<rparr>"
  by (cases "ws_service (spec w) = None"; cases "wants_ingress (spec w)"; cases "the_or 1 (ws_replicas (spec w)) \<ge> 2")
     (simp_all only: children_def Let_def set_append set_simps Un_iff insert_iff empty_iff if_True if_False simp_thms)

lemma owner_reference_names:
  "names_owner w (owner_reference w) \<longleftrightarrow> meta_uid (metadata w) \<noteq> None \<and> meta_uid (metadata w) \<noteq> Some []"
  by (auto simp: names_owner_def owner_reference_def)

lemma child_manifest:
  assumes "c \<in> set (children w er)"
  shows "child_ns c = namespace_of w" "jget (manifest c) ''kind'' = Some (JStr (child_kind c))"
    "jget (manifest c) ''metadata'' = Some (child_metadata w (child_name c) (name_any w) (namespace_of w))"
proof (atomize (full))
  show "child_ns c = namespace_of w \<and> jget (manifest c) ''kind'' = Some (JStr (child_kind c)) \<and>
    jget (manifest c) ''metadata'' = Some (child_metadata w (child_name c) (name_any w) (namespace_of w))"
    using assms unfolding children_cases
  proof (elim disjE conjE)
    assume i: "wants_ingress (spec w)" "c = \<lparr>child_kind = ''Ingress'', child_ns = namespace_of w, child_name = name_any w,
          manifest = the_manifest (build_ingress w (name_any w) (namespace_of w))\<rparr>"
    then show ?thesis using manifest_of_ingress[of w "name_any w" "namespace_of w"] by auto
  qed (auto simp: build_deployment_def build_pdb_def manifest_of_service)
qed

lemma child_owned:
  assumes "c \<in> set (children w er)"
  shows "in_its_place w c" "owned_by w c \<longleftrightarrow> meta_uid (metadata w) \<noteq> None \<and> meta_uid (metadata w) \<noteq> Some []"
  using child_manifest[OF assms]
  by (simp_all add: in_its_place_def owned_by_def child_metadata_fields owner_reference_names) (simp add: workload_labels_def)

lemma children_wanted: "(\<lambda>c. (child_kind c, child_name c)) ` set (children w er) = wanted w"
  by (cases "ws_ingress (spec w)") (auto simp: children_def wanted_def wants_ingress_def Let_def)

lemma children_distinct: "distinct (map (\<lambda>c. (child_kind c, child_name c)) (children w er))"
  by (simp add: children_def Let_def)

lemma child_selector:
  assumes "c \<in> set (children w er)" "child_kind c \<noteq> ''Ingress''"
  shows "pod_selector c = Some (workload_selector (name_any w))"
  using assms unfolding children_cases
  by (auto simp: pod_selector_def build_deployment_def build_pdb_def manifest_of_service)

section \<open>Properties\<close>

text \<open>Each child that selects pods (the Deployment, the Service and the PodDisruptionBudget) has a selector that the labels
  of the pods of the Deployment satisfy and that names the workload.\<close>

theorem selectors_match_pods:
  "\<exists>ls. pod_labels (build_deployment w er (name_any w) (namespace_of w)) = Some ls \<and>
     list_all (\<lambda>c. child_kind c = ''Ingress'' \<or>
       pod_selector c = Some (workload_selector (name_any w)) \<and> selects (workload_selector (name_any w)) ls)
     (children w er)"
  using child_selector[of _ w er] by (auto simp: pod_labels_def build_deployment_def list_all_iff)

text \<open>The pods of the Deployment: the one container runs the runner image with the command of the specification or
  else the resolved command of the evaluation, the store is mounted first and read-only at /nix/store from a CSI volume
  that names the closure, the pods are spread over hosts exactly from two replicas on, and the node selector asks for a
  node with the store unless the user's own selector has that key.\<close>

theorem deployment_pods:
  "\<exists>pod c. jpath (build_deployment w er nm ns) [''spec'', ''template'', ''spec''] = Some pod \<and>
     jpath (build_deployment w er nm ns) [''spec'', ''replicas''] = Some (JInt (the_or 1 (ws_replicas (spec w)))) \<and>
     jget pod ''containers'' = Some (JArr [c]) \<and>
     jget c ''image'' = Some (JStr RUNNER_IMAGE) \<and>
     jget c ''command'' = Some (jstrs (case ws_command (spec w) of Some cmd \<Rightarrow> cmd | None \<Rightarrow> [resolved_command er])) \<and>
     jget c ''volumeMounts'' = Some (JArr (nix_store_mount # the_or [] (ws_extra_volume_mounts (spec w)))) \<and>
     jget nix_store_mount ''mountPath'' = Some (JStr ''/nix/store'') \<and> jget nix_store_mount ''readOnly'' = Some (JBool True) \<and>
     (\<exists>v vs. jget pod ''volumes'' = Some (JArr (v # vs)) \<and> jget v ''name'' = jget nix_store_mount ''name'' \<and>
        jpath v [''csi'', ''volumeAttributes'', ''closurePaths''] = Some (JStr (join '','' (closure_paths er)))) \<and>
     (jget pod ''topologySpreadConstraints'' = None \<longleftrightarrow> the_or 1 (ws_replicas (spec w)) < 2) \<and>
     jpath pod [''nodeSelector'', ''niphas.io/store''] =
       Some (JStr (the_or ''true'' (map_of (rev (the_or [] (ws_node_selector (spec w)))) ''niphas.io/store'')))"
proof -
  let ?pod = "pod_spec (spec w) er nm" and ?c = "container (spec w) er"
  let ?v = "hd (volumes (spec w) er)"
  have v: "volumes (spec w) er = ?v # the_or [] (ws_extra_volumes (spec w))" "jget ?v ''name'' = jget nix_store_mount ''name''"
    "jpath ?v [''csi'', ''volumeAttributes'', ''closurePaths''] = Some (JStr (join '','' (closure_paths er)))"
    "jget nix_store_mount ''mountPath'' = Some (JStr ''/nix/store'')" "jget nix_store_mount ''readOnly'' = Some (JBool True)"
    by (simp_all add: volumes_def csi_attributes_def nix_store_mount_def)
  have dep: "jpath (build_deployment w er nm ns) [''spec'', ''template'', ''spec''] = Some ?pod"
    "jpath (build_deployment w er nm ns) [''spec'', ''replicas''] = Some (JInt (the_or 1 (ws_replicas (spec w))))"
    by (simp_all add: build_deployment_def)
  have sel: "jpath ?pod [''nodeSelector'', ''niphas.io/store''] =
       Some (JStr (the_or ''true'' (map_of (rev (the_or [] (ws_node_selector (spec w)))) ''niphas.io/store'')))"
    by (auto simp: pod_spec_fields node_selector_get split: option.splits)
  have cmd: "jget ?c ''command'' = Some (jstrs (case ws_command (spec w) of Some cmd \<Rightarrow> cmd | None \<Rightarrow> [resolved_command er]))"
    by (simp add: container_fields split: option.splits)
  show ?thesis
    using dep sel cmd v pod_spec_fields(3,4,6)[of "spec w" er nm] container_fields(1,3)[of "spec w" er]
    by (intro exI[of _ ?pod] exI[of _ ?c]) (auto simp del: jpath.simps)
qed

end
