(* ===== verification/Reconciler.thy ===== *)
theory Reconciler
  imports Resources Store_Path Config
begin

text \<open>
  The operator (src/crates/niphas-operator): the reconciliation of one workload (reconciler.rs), the call of the evaluation
  service (eval.rs), the errors (error.rs) and the probes (health.rs). The clients of the cluster and of the evaluation service are
  arguments, programs on a state \<open>'s\<close> of the world; the model keeps beside it the log of the calls made so far and of
  their answers, so that properties can speak of what the operator asks for, whatever the cluster answers. An error of the
  client library is its text.
\<close>

section \<open>Definitions\<close>

subsection \<open>error.rs\<close>

datatype operator_error =
    OpKube string
  | OpEvalWebhook string
  | OpEvalTimeout u64
  | OpEvalFailed string string
  | OpSerialization string

fun operator_error_display :: "operator_error \<Rightarrow> string" where
  "operator_error_display (OpKube e) = ''kubernetes api error: '' @ e"
| "operator_error_display (OpEvalWebhook e) = ''eval webhook error: '' @ e"
| "operator_error_display (OpEvalTimeout secs) = ''eval timeout after '' @ u64_display secs @ ''s''"
| "operator_error_display (OpEvalFailed code msg) = ''eval failed: '' @ code @ '': '' @ msg"
| "operator_error_display (OpSerialization e) = ''serialization error: '' @ e"

fun is_transient :: "operator_error \<Rightarrow> bool" where
  "is_transient (OpKube _) = True"
| "is_transient (OpEvalWebhook _) = True"
| "is_transient (OpEvalTimeout _) = True"
| "is_transient _ = False"

subsection \<open>The clients\<close>

datatype event_type = NormalEvent | WarningEvent

record object_reference =
  or_api_version :: string
  or_kind :: string
  or_name :: "string option"
  or_namespace :: "string option"
  or_uid :: "string option"

record event =
  ev_type :: event_type
  ev_reason :: string
  ev_note :: string
  ev_action :: string

datatype call =
    PatchWorkload string string json
  | PatchStatus string string json
  | ApplyChild child
  | GetDeployment string string
  | PublishEvent event object_reference

text \<open>
  \<open>ask\<close> is the API server, which answers a call with a value (for \<open>GetDeployment\<close> the ready replicas of the
  status: \<open>None\<close> when there is no Deployment, \<open>Some None\<close> when the status does not say). \<open>post\<close> is the request to the
  evaluation service: it ran into the timeout, could not be sent, or was answered with a status code and a body, of
  which reading may fail. The two decoders are serde_json's.
\<close>

datatype http_reply = ReplyTimeout | ReplyFailed string | Reply nat "(string, string) outcome"

record 's operator_context =
  ask :: "call \<Rightarrow> ('s, string, int option option) prog"
  post :: "string \<Rightarrow> eval_request \<Rightarrow> u64 \<Rightarrow> 's \<Rightarrow> http_reply \<times> 's"
  decode_response :: "string \<Rightarrow> (string, eval_response) outcome"
  decode_error :: "string \<Rightarrow> (string \<times> string) option"
  status_text :: "nat \<Rightarrow> string"
  clock :: "'s \<Rightarrow> string"
  op_config :: niphas_config

datatype entry =
    Asked call "(string, int option option) outcome"
  | Posted string eval_request u64 http_reply

type_synonym 's op_state = "'s \<times> entry list"

definition send :: "'s operator_context \<Rightarrow> call \<Rightarrow> ('s op_state, operator_error, int option option) prog" where
  "send ctx c = (\<lambda>(s, entries). case ask ctx c s of (r, t) \<Rightarrow> (omap_err OpKube r, t, entries @ [Asked c r]))"

definition send_unit :: "'s operator_context \<Rightarrow> call \<Rightarrow> ('s op_state, operator_error, unit) prog" where
  "send_unit ctx c = pbind (send ctx c) (\<lambda>_. pret ())"

definition iso_now :: "'s operator_context \<Rightarrow> ('s op_state, operator_error, string) prog" where
  "iso_now ctx = (\<lambda>(s, entries). (Ok (clock ctx s), s, entries))"

subsection \<open>eval.rs\<close>

definition from_status :: "niphas_workload_status \<Rightarrow> eval_response option" where
  "from_status st =
     (case st_store_path st of
        None \<Rightarrow> None
      | Some sp \<Rightarrow> Some
          \<lparr>resp_store_path = sp,
           resp_name = (case store_path_parse sp of Ok p \<Rightarrow> name p | _ \<Rightarrow> ''unknown''),
           main_program = map_option (\<lambda>cmd. last (split_char (CHR ''/'') cmd)) (st_resolved_command st),
           closure_paths = the_or [] (st_closure_paths st)\<rparr>)"

definition webhook_request :: "niphas_workload \<Rightarrow> eval_request" where
  "webhook_request w = \<lparr>flake_ref = ws_flake_ref (spec w), attribute = ws_attribute (spec w),
     revision = ws_revision (spec w), binary_cache = ws_binary_cache (spec w)\<rparr>"

definition webhook_url :: "'s operator_context \<Rightarrow> string" where
  "webhook_url ctx = trim_end_matches (CHR ''/'') (eval_webhook_url (op_config ctx)) @ ''/evaluate''"

definition webhook_result :: "'s operator_context \<Rightarrow> http_reply \<Rightarrow> (operator_error, eval_response) outcome" where
  "webhook_result ctx reply =
     (case reply of
        ReplyTimeout \<Rightarrow> Err (OpEvalTimeout (eval_timeout (op_config ctx)))
      | ReplyFailed e \<Rightarrow> Err (OpEvalWebhook (''request failed: '' @ e))
      | Reply code body \<Rightarrow>
          if 200 \<le> code \<and> code < 300
          then omap_err (\<lambda>e. OpEvalWebhook (''invalid response body: '' @ e)) (obind body (decode_response ctx))
          else let txt = (case body of Ok b \<Rightarrow> b | _ \<Rightarrow> []) in
               (case decode_error ctx txt of
                  Some (ec, msg) \<Rightarrow> Err (OpEvalFailed ec msg)
                | None \<Rightarrow> Err (OpEvalWebhook (''HTTP '' @ status_text ctx code @ '': '' @ txt))))"

definition call_eval_webhook ::
  "'s operator_context \<Rightarrow> niphas_workload \<Rightarrow> ('s op_state, operator_error, eval_response) prog" where
  "call_eval_webhook ctx w = (\<lambda>(s, entries).
     let url = webhook_url ctx; req = webhook_request w; timeout = eval_timeout (op_config ctx) in
     case post ctx url req timeout s of (reply, t) \<Rightarrow>
       (webhook_result ctx reply, t, entries @ [Posted url req timeout reply]))"

subsection \<open>reconciler.rs\<close>

definition FINALIZER :: string where
  "FINALIZER = ''niphas.io/workload-cleanup''"

datatype action = Requeue nat | AwaitChange

definition error_policy :: "operator_error \<Rightarrow> action" where
  "error_policy e = (if is_transient e then Requeue 10 else Requeue 60)"

definition needs_eval :: "niphas_workload \<Rightarrow> int \<Rightarrow> int \<Rightarrow> bool" where
  "needs_eval w observed gen \<longleftrightarrow>
     (if observed < gen then True else Option.bind (status_of w) st_store_path = None)"

definition finalizers_patch :: "json \<Rightarrow> json" where
  "finalizers_patch v = JObj [(''metadata'', JObj [(''finalizers'', v)])]"

definition add_finalizer :: "'s operator_context \<Rightarrow> niphas_workload \<Rightarrow> string \<Rightarrow> ('s op_state, operator_error, unit) prog" where
  "add_finalizer ctx w ns =
     (let fs = the_or [] (finalizers (metadata w));
          fs' = (if list_ex (\<lambda>f. f = FINALIZER) fs then fs else fs @ [FINALIZER])
      in send_unit ctx (PatchWorkload ns (name_any w) (finalizers_patch (jstrs fs'))))"

definition remove_finalizer :: "'s operator_context \<Rightarrow> niphas_workload \<Rightarrow> string \<Rightarrow> ('s op_state, operator_error, unit) prog" where
  "remove_finalizer ctx w ns =
     (let fs = filter (\<lambda>f. f \<noteq> FINALIZER) (the_or [] (finalizers (metadata w)));
          patch = (if fs = [] then finalizers_patch JNull else finalizers_patch (jstrs fs))
      in send_unit ctx (PatchWorkload ns (name_any w) patch))"

text \<open>A failure to publish is logged and dropped.\<close>

definition publish_event ::
  "'s operator_context \<Rightarrow> niphas_workload \<Rightarrow> event_type \<Rightarrow> string \<Rightarrow> string \<Rightarrow> ('s op_state, operator_error, unit) prog" where
  "publish_event ctx w ty reason note = (\<lambda>s.
     let obj_ref = \<lparr>or_api_version = ''niphas.io/v1alpha1'', or_kind = ''NiphasWorkload'',
                    or_name = meta_name (metadata w), or_namespace = meta_namespace (metadata w),
                    or_uid = meta_uid (metadata w)\<rparr>;
         event = \<lparr>ev_type = ty, ev_reason = reason, ev_note = note, ev_action = reason\<rparr> in
     case send ctx (PublishEvent event obj_ref) s of
       (Panic, t) \<Rightarrow> (Panic, t) | (Diverge, t) \<Rightarrow> (Diverge, t) | (_, t) \<Rightarrow> (Ok (), t))"

definition handle_deletion ::
  "'s operator_context \<Rightarrow> niphas_workload \<Rightarrow> string \<Rightarrow> string \<Rightarrow> ('s op_state, operator_error, action) prog" where
  "handle_deletion ctx w nm ns =
     pbind (publish_event ctx w NormalEvent ''Deleting'' (''Cleaning up workload '' @ nm)) (\<lambda>_.
     pbind (remove_finalizer ctx w ns) (\<lambda>_.
     pret AwaitChange))"

definition status_patch :: "(string \<times> json) list \<Rightarrow> json" where
  "status_patch fs = JObj [(''status'', JObj fs)]"

definition set_phase ::
  "'s operator_context \<Rightarrow> niphas_workload \<Rightarrow> string \<Rightarrow> workload_phase \<Rightarrow> ('s op_state, operator_error, unit) prog" where
  "set_phase ctx w ns phase =
     send_unit ctx (PatchStatus ns (name_any w) (status_patch [(''phase'', JStr (phase_str phase))]))"

definition condition_json :: "string \<Rightarrow> condition_status \<Rightarrow> string \<Rightarrow> string \<Rightarrow> string \<Rightarrow> int \<Rightarrow> json" where
  "condition_json ty cs reason msg now gen = JObj
     [(''type'', JStr ty), (''status'', JStr (condition_status_str cs)), (''reason'', JStr reason),
      (''message'', JStr msg), (''lastTransitionTime'', JStr now), (''observedGeneration'', JInt gen)]"

definition set_failed ::
  "'s operator_context \<Rightarrow> niphas_workload \<Rightarrow> string \<Rightarrow> string \<Rightarrow> string \<Rightarrow> int \<Rightarrow> ('s op_state, operator_error, unit) prog" where
  "set_failed ctx w ns reason msg gen =
     pbind (iso_now ctx) (\<lambda>now.
     send_unit ctx (PatchStatus ns (name_any w) (status_patch
       [(''phase'', JStr (phase_str Failed)), (''observedGeneration'', JInt gen),
        (''conditions'', JArr [condition_json ''Evaluated'' CondFalse reason msg now gen])])))"

definition status_conditions :: "workload_phase \<Rightarrow> eval_response \<Rightarrow> int \<Rightarrow> int \<Rightarrow> int \<Rightarrow> string \<Rightarrow> json list" where
  "status_conditions phase er ready desired gen now =
     (let progressing_status = (if phase = Provisioning then CondTrue else CondFalse);
          progressing_reason = (if phase = Running then ''NewReplicaSetAvailable'' else ''ReplicaSetUpdated'')
      in [condition_json ''Evaluated'' CondTrue ''EvalSucceeded'' (''Resolved '' @ resp_store_path er) now gen,
          condition_json ''Progressing'' progressing_status progressing_reason
            (int_display ready @ '' of '' @ int_display desired @ '' replicas ready'') now gen] @
         (if phase = Running
          then [condition_json ''Available'' CondTrue ''ReplicasReady''
                  (''All '' @ int_display ready @ '' replicas are ready'') now gen] else []))"

definition update_status ::
  "'s operator_context \<Rightarrow> niphas_workload \<Rightarrow> string \<Rightarrow> workload_phase \<Rightarrow> eval_response \<Rightarrow> int \<Rightarrow> int \<Rightarrow>
   ('s op_state, operator_error, unit) prog" where
  "update_status ctx w ns phase er ready gen =
     pbind (iso_now ctx) (\<lambda>now.
     send_unit ctx (PatchStatus ns (name_any w) (status_patch
       [(''phase'', JStr (phase_str phase)), (''observedGeneration'', JInt gen),
        (''storePath'', JStr (resp_store_path er)), (''resolvedCommand'', JStr (resolved_command er)),
        (''closurePaths'', jstrs (closure_paths er)), (''readyReplicas'', JInt ready),
        (''conditions'', JArr (status_conditions phase er ready (the_or 1 (ws_replicas (spec w))) gen now))])))"

definition count_ready_replicas ::
  "'s operator_context \<Rightarrow> niphas_workload \<Rightarrow> string \<Rightarrow> ('s op_state, operator_error, int) prog" where
  "count_ready_replicas ctx w ns =
     pbind (send ctx (GetDeployment ns (name_any w))) (\<lambda>deploy.
     case deploy of Some ready \<Rightarrow> pret (the_or 0 ready) | None \<Rightarrow> pret 0)"

text \<open>The event for an error of the evaluation.\<close>

fun failure_event :: "operator_error \<Rightarrow> string \<times> string" where
  "failure_event (OpEvalTimeout secs) = (''EvalTimeout'', ''Evaluation timed out after '' @ u64_display secs @ ''s'')"
| "failure_event (OpEvalFailed code msg) = (code, msg)"
| "failure_event e = (''EvalFailed'', operator_error_display e)"

text \<open>A program whose error is a value of the caller: \<open>match ... { Ok(x) => ..., Err(e) => ... }\<close>.\<close>

definition pmatch :: "('s, 'e, 'a) prog \<Rightarrow> ('a \<Rightarrow> ('s, 'e, 'b) prog) \<Rightarrow> ('e \<Rightarrow> ('s, 'e, 'b) prog) \<Rightarrow> ('s, 'e, 'b) prog" where
  "pmatch m f g = (\<lambda>s. case m s of
     (Ok x, t) \<Rightarrow> f x t | (Err e, t) \<Rightarrow> g e t | (Panic, t) \<Rightarrow> (Panic, t) | (Diverge, t) \<Rightarrow> (Diverge, t))"

text \<open>The evaluation: its result, or the action with which \<open>reconcile\<close> returns early.\<close>

definition evaluate_now ::
  "'s operator_context \<Rightarrow> niphas_workload \<Rightarrow> string \<Rightarrow> int \<Rightarrow> ('s op_state, operator_error, action + eval_response) prog" where
  "evaluate_now ctx w ns gen =
     pbind (set_phase ctx w ns Evaluating) (\<lambda>_.
     pbind (publish_event ctx w NormalEvent ''EvalStarted'' ''Starting flake evaluation'') (\<lambda>_.
     pmatch (call_eval_webhook ctx w)
       (\<lambda>res. pbind (publish_event ctx w NormalEvent ''EvalSucceeded'' (''Resolved store path: '' @ resp_store_path res)) (\<lambda>_.
              pret (Inr res)))
       (\<lambda>e. case failure_event e of (reason, msg) \<Rightarrow>
            pbind (publish_event ctx w WarningEvent reason msg) (\<lambda>_.
            pbind (set_failed ctx w ns reason msg gen) (\<lambda>_.
            pret (Inl (Requeue 30)))))))"

definition evaluate_cached ::
  "'s operator_context \<Rightarrow> niphas_workload \<Rightarrow> string \<Rightarrow> int \<Rightarrow> ('s op_state, operator_error, action + eval_response) prog" where
  "evaluate_cached ctx w ns gen =
     (case from_status (the_or default_status (status_of w)) of
        Some cached \<Rightarrow> pret (Inr cached)
      | None \<Rightarrow>
          pbind (set_phase ctx w ns Evaluating) (\<lambda>_.
          pmatch (call_eval_webhook ctx w)
            (\<lambda>res. pret (Inr res))
            (\<lambda>e. pbind (set_failed ctx w ns ''EvalFailed'' (operator_error_display e) gen) (\<lambda>_.
                 pret (Inl (Requeue 30))))))"

text \<open>What follows the evaluation.\<close>

definition report ::
  "'s operator_context \<Rightarrow> niphas_workload \<Rightarrow> string \<Rightarrow> int \<Rightarrow> eval_response \<Rightarrow> ('s op_state, operator_error, action) prog" where
  "report ctx w ns gen er =
     pbind (publish_event ctx w NormalEvent ''Provisioned'' ''Child resources applied'') (\<lambda>_.
     pbind (count_ready_replicas ctx w ns) (\<lambda>ready.
     let desired = the_or 1 (ws_replicas (spec w));
         phase = (if ready \<ge> desired then Running else Provisioning) in
     pbind (if phase = Running then publish_event ctx w NormalEvent ''Available'' ''All replicas ready'' else pret ()) (\<lambda>_.
     pbind (update_status ctx w ns phase er ready gen) (\<lambda>_.
     pret (Requeue (if ready < desired then 5 else 300))))))"

definition provision ::
  "'s operator_context \<Rightarrow> niphas_workload \<Rightarrow> string \<Rightarrow> int \<Rightarrow> eval_response \<Rightarrow> ('s op_state, operator_error, action) prog" where
  "provision ctx w ns gen er =
     pbind (set_phase ctx w ns Provisioning) (\<lambda>_.
     pmatch (apply_child_resources (\<lambda>c. send_unit ctx (ApplyChild c)) w er)
       (\<lambda>_. report ctx w ns gen er)
       (\<lambda>e. pbind (set_failed ctx w ns ''ProvisionFailed'' (operator_error_display e) gen) (\<lambda>_.
            pret (Requeue 10))))"

definition has_finalizer :: "niphas_workload \<Rightarrow> bool" where
  "has_finalizer w \<longleftrightarrow> (case finalizers (metadata w) of Some fs \<Rightarrow> list_ex (\<lambda>s. s = FINALIZER) fs | None \<Rightarrow> False)"

definition observed_generation :: "niphas_workload \<Rightarrow> int" where
  "observed_generation w = the_or 0 (Option.bind (status_of w) st_observed_generation)"

definition reconcile :: "'s operator_context \<Rightarrow> niphas_workload \<Rightarrow> ('s op_state, operator_error, action) prog" where
  "reconcile ctx w =
     (let nm = name_any w; ns = namespace_of w; gen = the_or 0 (generation (metadata w)) in
      if deletion_timestamp (metadata w) \<noteq> None then handle_deletion ctx w nm ns
      else if \<not> has_finalizer w then pbind (add_finalizer ctx w ns) (\<lambda>_. pret (Requeue 0))
      else
        let observed = observed_generation w in
        if observed \<ge> gen \<and> map_option st_phase (status_of w) = Some Running then pret (Requeue 300)
        else
          pbind (if needs_eval w observed gen then evaluate_now ctx w ns gen else evaluate_cached ctx w ns gen) (\<lambda>r.
          case r of Inl act \<Rightarrow> pret act | Inr er \<Rightarrow> provision ctx w ns gen er))"

subsection \<open>health.rs\<close>

definition op_healthz :: nat where
  "op_healthz = 200"

definition op_readyz :: "bool \<Rightarrow> nat" where
  "op_readyz ready = (if ready then 200 else 503)"

end
