(* ===== verification/Reconciler_Logs.thy ===== *)
theory Reconciler_Logs
  imports Reconciler
begin

text \<open>
  What one reconciliation asks of the cluster and of the evaluation service, whatever they answer. A small logic
  relates the entries that a program appends to its log to its outcome; the rules for the combinators carry the
  facts of the parts (publish_event, set_phase, ...) to \<open>reconcile\<close>.
\<close>

section \<open>A logic of logs\<close>

text \<open>
  \<open>traced P m\<close>: whatever the state of the world and the log before, \<open>m\<close> appends entries to the log that
  are in the relation \<open>P\<close> to its outcome.
\<close>

definition traced :: "(entry list \<Rightarrow> ('e, 'a) outcome \<Rightarrow> bool) \<Rightarrow> ('s op_state, 'e, 'a) prog \<Rightarrow> bool" where
  "traced P m \<longleftrightarrow> (\<forall>s es r s' es'. m (s, es) = (r, s', es') \<longrightarrow> (\<exists>new. es' = es @ new \<and> P new r))"

lemma tracedI: "(\<And>s es r s' es'. m (s, es) = (r, s', es') \<Longrightarrow> \<exists>new. es' = es @ new \<and> P new r) \<Longrightarrow> traced P m"
  by (auto simp: traced_def)

lemma tracedD: "traced P m \<Longrightarrow> m (s, es) = (r, s', es') \<Longrightarrow> \<exists>new. es' = es @ new \<and> P new r"
  by (auto simp: traced_def)

lemma traced_mono: "traced P m \<Longrightarrow> (\<And>new r. P new r \<Longrightarrow> Q new r) \<Longrightarrow> traced Q m"
  unfolding traced_def by blast

text \<open>The rules are exact: the relation of the whole is built from the relations of the parts.\<close>

definition seq_trace ::
  "(entry list \<Rightarrow> ('e, 'a) outcome \<Rightarrow> bool) \<Rightarrow> ('a \<Rightarrow> entry list \<Rightarrow> ('e, 'b) outcome \<Rightarrow> bool) \<Rightarrow>
   ('e \<Rightarrow> entry list \<Rightarrow> ('e, 'b) outcome \<Rightarrow> bool) \<Rightarrow> entry list \<Rightarrow> ('e, 'b) outcome \<Rightarrow> bool" where
  "seq_trace P Q H new r \<longleftrightarrow>
     (\<exists>a b x. new = a @ b \<and> P a (Ok x) \<and> Q x b r) \<or> (\<exists>a b e. new = a @ b \<and> P a (Err e) \<and> H e b r) \<or>
     P new Panic \<and> r = Panic \<or> P new Diverge \<and> r = Diverge"

lemma traced_pmatch:
  assumes "traced P m" "\<And>x. traced (Q x) (f x)" "\<And>e. traced (H e) (g e)"
  shows "traced (seq_trace P Q H) (pmatch m f g)"
proof (rule tracedI)
  fix s es r s' es'
  assume run: "pmatch m f g (s, es) = (r, s', es')"
  obtain r1 t es1 where m: "m (s, es) = (r1, t, es1)" by (metis prod_cases3)
  obtain a where a: "es1 = es @ a" "P a r1" using tracedD[OF assms(1) m] by blast
  show "\<exists>new. es' = es @ new \<and> seq_trace P Q H new r"
  proof (cases r1)
    case (Ok x)
    then have "f x (t, es1) = (r, s', es')" using run m by (simp add: pmatch_def)
    from tracedD[OF assms(2) this] show ?thesis using a Ok by (fastforce simp: seq_trace_def)
  next
    case (Err e)
    then have "g e (t, es1) = (r, s', es')" using run m by (simp add: pmatch_def)
    from tracedD[OF assms(3) this] show ?thesis using a Err by (fastforce simp: seq_trace_def)
  qed (use run m a in \<open>auto simp: pmatch_def seq_trace_def\<close>)
qed

definition fail_trace :: "'e \<Rightarrow> entry list \<Rightarrow> ('e, 'b) outcome \<Rightarrow> bool" where
  "fail_trace e new r \<longleftrightarrow> new = [] \<and> r = Err e"

definition ret_trace :: "'a \<Rightarrow> entry list \<Rightarrow> ('e, 'a) outcome \<Rightarrow> bool" where
  "ret_trace x new r \<longleftrightarrow> new = [] \<and> r = Ok x"

lemma pbind_pmatch: "pbind m f = pmatch m f pfail"
  by (auto simp: pbind_def pmatch_def fun_eq_iff split: prod.splits outcome.splits)

lemma traced_pret: "traced (ret_trace x) (pret x)"
  by (rule tracedI) (simp add: ret_trace_def)

lemma traced_pfail: "traced (fail_trace e) (pfail e)"
  by (rule tracedI) (simp add: fail_trace_def)

lemma traced_pbind:
  "traced P m \<Longrightarrow> (\<And>x. traced (Q x) (f x)) \<Longrightarrow> traced (seq_trace P Q fail_trace) (pbind m f)"
  unfolding pbind_pmatch by (rule traced_pmatch[OF _ _ traced_pfail])

definition send_trace :: "call \<Rightarrow> entry list \<Rightarrow> (operator_error, int option option) outcome \<Rightarrow> bool" where
  "send_trace c new r \<longleftrightarrow> (\<exists>a. new = [Asked c a] \<and> r = omap_err OpKube a)"

lemma traced_send: "traced (send_trace c) (send ctx c)"
  by (rule tracedI) (auto simp: send_def send_trace_def split: prod.splits)

lemma traced_iso_now: "traced (\<lambda>new r. new = [] \<and> (\<exists>now. r = Ok now)) (iso_now ctx)"
  by (rule tracedI) (auto simp: iso_now_def)

text \<open>A reply that the evaluation service can give.\<close>

definition replies :: "'s operator_context \<Rightarrow> string \<Rightarrow> eval_request \<Rightarrow> u64 \<Rightarrow> http_reply \<Rightarrow> bool" where
  "replies ctx url req t reply \<longleftrightarrow> (\<exists>s s'. post ctx url req t s = (reply, s'))"

lemma traced_webhook:
  "traced (\<lambda>new r. \<exists>reply. new = [Posted (webhook_url ctx) (webhook_request w) (eval_timeout (op_config ctx)) reply] \<and>
     replies ctx (webhook_url ctx) (webhook_request w) (eval_timeout (op_config ctx)) reply \<and>
     r = webhook_result ctx reply) (call_eval_webhook ctx w)"
  by (rule tracedI) (auto simp: call_eval_webhook_def replies_def Let_def split: prod.splits)

subsection \<open>Entries\<close>

text \<open>Every entry satisfies \<open>E\<close>; and when every call was answered, the outcome satisfies \<open>R\<close>.\<close>

definition answered :: "'s operator_context \<Rightarrow> entry \<Rightarrow> bool" where
  "answered ctx en = (case en of Asked c a \<Rightarrow> settled a | Posted url req t reply \<Rightarrow> settled (webhook_result ctx reply))"

definition logs ::
  "'s operator_context \<Rightarrow> (entry \<Rightarrow> bool) \<Rightarrow> (('e, 'a) outcome \<Rightarrow> bool) \<Rightarrow> ('s op_state, 'e, 'a) prog \<Rightarrow> bool" where
  "logs ctx E R m \<longleftrightarrow> traced (\<lambda>new r. list_all E new \<and> (list_all (answered ctx) new \<longrightarrow> R r)) m"

lemma logs_mono: "logs ctx E R m \<Longrightarrow> (\<And>r. R r \<Longrightarrow> R' r) \<Longrightarrow> logs ctx E R' m"
  unfolding logs_def by (erule traced_mono) blast

lemma logs_pret: "R (Ok x) \<Longrightarrow> logs ctx E R (pret x)"
  unfolding logs_def by (rule traced_mono[OF traced_pret]) (simp add: ret_trace_def)

lemma logs_pfail: "R (Err e) \<Longrightarrow> logs ctx E R (pfail e)"
  unfolding logs_def by (rule traced_mono[OF traced_pfail]) (simp add: fail_trace_def)

lemma logs_pmatch:
  assumes "logs ctx E P m" "\<And>x. P (Ok x) \<Longrightarrow> logs ctx E R (f x)" "\<And>e. P (Err e) \<Longrightarrow> logs ctx E R (g e)"
    "\<And>x. logs ctx E (\<lambda>_. True) (f x)" "\<And>e. logs ctx E (\<lambda>_. True) (g e)"
    "\<not> P Panic" "\<not> P Diverge"
  shows "logs ctx E R (pmatch m f g)"
proof -
  let ?L = "\<lambda>R new r. list_all E new \<and> (list_all (answered ctx) new \<longrightarrow> R r)"
  have f: "traced (\<lambda>new r. list_all E new \<and> (P (Ok x) \<and> list_all (answered ctx) new \<longrightarrow> R r)) (f x)" for x
    using assms(2,4)[of x] unfolding logs_def by (cases "P (Ok x)") (auto elim: traced_mono)
  have g: "traced (\<lambda>new r. list_all E new \<and> (P (Err e) \<and> list_all (answered ctx) new \<longrightarrow> R r)) (g e)" for e
    using assms(3,5)[of e] unfolding logs_def by (cases "P (Err e)") (auto elim: traced_mono)
  show ?thesis
    unfolding logs_def
    by (rule traced_mono[OF traced_pmatch[OF assms(1)[unfolded logs_def] f g]])
       (use assms(6,7) in \<open>auto simp: seq_trace_def\<close>)
qed

lemma logs_pbind:
  assumes "logs ctx E P m" "\<And>x. logs ctx E R (f x)" "\<And>e. P (Err e) \<Longrightarrow> R (Err e)" "\<not> P Panic" "\<not> P Diverge"
  shows "logs ctx E R (pbind m f)"
  unfolding pbind_pmatch
  by (rule logs_pmatch[OF assms(1)]) (use assms in \<open>auto intro: logs_pfail logs_mono\<close>)

text \<open>Outcomes of the operator: an error is one of the API server.\<close>

definition kube_outcome :: "(operator_error, 'a) outcome \<Rightarrow> bool" where
  "kube_outcome r \<longleftrightarrow> (\<exists>x. r = Ok x) \<or> (\<exists>e. r = Err (OpKube e))"

lemma kube_outcome_simps [simp]:
  "kube_outcome (Ok x)" "kube_outcome (Err e) \<longleftrightarrow> (\<exists>m. e = OpKube m)" "\<not> kube_outcome Panic" "\<not> kube_outcome Diverge"
  by (auto simp: kube_outcome_def)

lemma logs_send: "(\<And>a. E (Asked c a)) \<Longrightarrow> logs ctx E kube_outcome (send ctx c)"
  unfolding logs_def
  by (rule traced_mono[OF traced_send])
     (auto simp: send_trace_def answered_def kube_outcome_def settled_iff omap_err_eq_Ok omap_err_eq_Err)

lemma logs_send_unit: "(\<And>a. E (Asked c a)) \<Longrightarrow> logs ctx E kube_outcome (send_unit ctx c)"
  unfolding send_unit_def by (rule logs_pbind[OF logs_send]) (auto intro: logs_pret)

lemma logs_iso_now: "logs ctx E (\<lambda>r. \<exists>x. r = Ok x) (iso_now ctx)"
  unfolding logs_def by (rule traced_mono[OF traced_iso_now]) simp

lemma logs_webhook:
  "(\<And>reply. replies ctx (webhook_url ctx) (webhook_request w) (eval_timeout (op_config ctx)) reply \<Longrightarrow>
     E (Posted (webhook_url ctx) (webhook_request w) (eval_timeout (op_config ctx)) reply)) \<Longrightarrow>
   logs ctx E settled (call_eval_webhook ctx w)"
  unfolding logs_def by (rule traced_mono[OF traced_webhook]) (auto simp: answered_def)

definition workload_ref :: "niphas_workload \<Rightarrow> object_reference" where
  "workload_ref w = \<lparr>or_api_version = ''niphas.io/v1alpha1'', or_kind = ''NiphasWorkload'', or_name = meta_name (metadata w),
     or_namespace = meta_namespace (metadata w), or_uid = meta_uid (metadata w)\<rparr>"

abbreviation event_of :: "event_type \<Rightarrow> string \<Rightarrow> string \<Rightarrow> event" where
  "event_of ty reason note \<equiv> \<lparr>ev_type = ty, ev_reason = reason, ev_note = note, ev_action = reason\<rparr>"

lemma traced_publish:
  "traced (\<lambda>new r. \<exists>a. new = [Asked (PublishEvent (event_of ty reason note) (workload_ref w)) a] \<and>
     (settled a \<longrightarrow> r = Ok ())) (publish_event ctx w ty reason note)"
proof (rule tracedI)
  fix s es r s' es'
  let ?c = "PublishEvent (event_of ty reason note) (workload_ref w)"
  assume run: "publish_event ctx w ty reason note (s, es) = (r, s', es')"
  obtain a t where a: "ask ctx ?c s = (a, t)" by fastforce
  have sent: "send ctx ?c (s, es) = (omap_err OpKube a, t, es @ [Asked ?c a])" using a by (simp add: send_def)
  show "\<exists>new. es' = es @ new \<and> (\<exists>a. new = [Asked ?c a] \<and> (settled a \<longrightarrow> r = Ok ()))"
    using run sent by (cases a) (auto simp: publish_event_def workload_ref_def Let_def)
qed

lemma logs_publish:
  "(\<And>ev a. E (Asked (PublishEvent ev (workload_ref w)) a)) \<Longrightarrow> logs ctx E (\<lambda>r. r = Ok ()) (publish_event ctx w ty reason note)"
  unfolding logs_def by (rule traced_mono[OF traced_publish]) (auto simp: answered_def)

section \<open>What a reconciliation may ask for\<close>

definition evaluates :: "niphas_workload \<Rightarrow> bool" where
  "evaluates w \<longleftrightarrow> needs_eval w (observed_generation w) (the_or 0 (generation (metadata w)))"

text \<open>The finalizers that a patch may set.\<close>

definition added_finalizers :: "niphas_workload \<Rightarrow> string list" where
  "added_finalizers w = the_or [] (finalizers (metadata w)) @ [FINALIZER]"

definition kept_finalizers :: "niphas_workload \<Rightarrow> string list" where
  "kept_finalizers w = filter (\<lambda>f. f \<noteq> FINALIZER) (the_or [] (finalizers (metadata w)))"

definition live :: "niphas_workload \<Rightarrow> bool" where
  "live w \<longleftrightarrow> deletion_timestamp (metadata w) = None \<and> has_finalizer w"

definition permitted :: "'s operator_context \<Rightarrow> niphas_workload \<Rightarrow> entry \<Rightarrow> bool" where
  "permitted ctx w en =
     (case en of
        Posted url req t reply \<Rightarrow> live w \<and> evaluates w \<and> url = webhook_url ctx \<and> req = webhook_request w \<and> replies ctx url req t reply
      | Asked c a \<Rightarrow> (case c of
            PatchWorkload ns nm p \<Rightarrow> ns = namespace_of w \<and> nm = name_any w \<and>
              (if deletion_timestamp (metadata w) \<noteq> None
               then p = finalizers_patch (if kept_finalizers w = [] then JNull else jstrs (kept_finalizers w))
               else \<not> has_finalizer w \<and> p = finalizers_patch (jstrs (added_finalizers w)))
          | PatchStatus ns nm p \<Rightarrow> live w \<and> ns = namespace_of w \<and> nm = name_any w \<and> (\<exists>fs. p = status_patch fs)
          | ApplyChild ch \<Rightarrow> live w \<and> (\<exists>er. ch \<in> set (children w er))
          | GetDeployment ns nm \<Rightarrow> live w \<and> ns = namespace_of w \<and> nm = name_any w
          | PublishEvent ev ob \<Rightarrow> ob = workload_ref w))"

definition reconcile_outcome :: "(operator_error, action) outcome \<Rightarrow> bool" where
  "reconcile_outcome r \<longleftrightarrow>
     (case r of Ok AwaitChange \<Rightarrow> True | Ok (Requeue n) \<Rightarrow> n \<in> {0, 5, 10, 30, 300} | Err (OpKube _) \<Rightarrow> True | _ \<Rightarrow> False)"

lemma reconcile_outcome_simps [simp]:
  "reconcile_outcome (Ok AwaitChange)" "reconcile_outcome (Ok (Requeue n)) \<longleftrightarrow> n \<in> {0, 5, 10, 30, 300}"
  "reconcile_outcome (Err (OpKube e))" "\<not> reconcile_outcome Panic" "\<not> reconcile_outcome Diverge"
  by (simp_all add: reconcile_outcome_def)

lemma kube_reconcile: "kube_outcome (Err e) \<Longrightarrow> reconcile_outcome (Err e)"
  by auto


lemma logs_event: "logs ctx (permitted ctx w) (\<lambda>r. r = Ok ()) (publish_event ctx w ty reason note)"
  by (rule logs_publish) (simp add: permitted_def)

lemma logs_status:
  assumes "live w"
  shows "logs ctx (permitted ctx w) kube_outcome (set_phase ctx w (namespace_of w) phase)"
    "logs ctx (permitted ctx w) kube_outcome (set_failed ctx w (namespace_of w) reason msg gen)"
    "logs ctx (permitted ctx w) kube_outcome (update_status ctx w (namespace_of w) phase er ready gen)"
  unfolding set_phase_def set_failed_def update_status_def
  using assms by (auto intro!: logs_pbind[OF logs_iso_now] logs_send_unit simp: permitted_def)

lemma logs_count:
  "live w \<Longrightarrow> logs ctx (permitted ctx w) kube_outcome (count_ready_replicas ctx w (namespace_of w))"
  unfolding count_ready_replicas_def
  by (rule logs_pbind[OF logs_send]) (auto simp: permitted_def split: option.splits intro: logs_pret)

lemma logs_piter:
  assumes "\<And>x. x \<in> set xs \<Longrightarrow> logs ctx E kube_outcome (f x)"
  shows "logs ctx E kube_outcome (piter f xs)"
  using assms
proof (induction xs)
  case Nil
  show ?case unfolding piter.simps by (rule logs_pret) simp
next
  case (Cons x xs)
  then show ?case by (auto intro: logs_pbind[where P = kube_outcome])
qed

lemma logs_children:
  "live w \<Longrightarrow> logs ctx (permitted ctx w) kube_outcome (apply_child_resources (\<lambda>c. send_unit ctx (ApplyChild c)) w er)"
  unfolding apply_children by (rule logs_piter, rule logs_send_unit) (auto simp: permitted_def)

lemmas kube_logs = logs_event logs_status logs_count logs_children

lemma logs_evaluate_now:
  assumes "live w" "evaluates w"
  shows "logs ctx (permitted ctx w) (\<lambda>r. kube_outcome r \<and> (\<forall>act. r = Ok (Inl act) \<longrightarrow> act = Requeue 30))
    (evaluate_now ctx w (namespace_of w) gen)"
proof -
  have hook: "logs ctx (permitted ctx w) settled (call_eval_webhook ctx w)"
    using assms by (intro logs_webhook) (simp add: permitted_def)
  show ?thesis
    unfolding evaluate_now_def
    by (intro logs_pbind[OF kube_logs(2)] logs_pbind[OF kube_logs(1)] logs_pmatch[OF hook])
       (auto intro!: logs_pbind[OF kube_logs(1)] logs_pbind[OF kube_logs(3)] logs_pret assms(1) split: prod.splits)
qed

text \<open>Without an evaluation there is a store path in the status, so the second evaluation in the code is never reached.\<close>

lemma evaluate_cached_result:
  assumes "\<not> evaluates w"
  shows "\<exists>er. evaluate_cached ctx w ns gen = pret (Inr er) \<and> from_status (the_or default_status (status_of w)) = Some er"
proof -
  obtain st sp where "status_of w = Some st" "st_store_path st = Some sp"
    using assms by (auto simp: evaluates_def needs_eval_def split: if_splits bind_splits)
  then show ?thesis by (simp add: evaluate_cached_def from_status_def)
qed

lemma logs_report:
  assumes "live w"
  shows "logs ctx (permitted ctx w) reconcile_outcome (report ctx w (namespace_of w) gen er)"
proof -
  have avail: "logs ctx (permitted ctx w) (\<lambda>r. r = Ok ())
      (if b then publish_event ctx w NormalEvent ''Available'' ''All replicas ready'' else pret ())" for b
    using kube_logs(1) by (cases b) (simp_all only: if_True if_False logs_pret)
  show ?thesis
    unfolding report_def Let_def
    by (intro logs_pbind[OF kube_logs(1)] logs_pbind[OF logs_count] logs_pbind[OF avail]
          logs_pbind[OF kube_logs(4)] logs_pret assms) auto
qed

lemma logs_provision:
  assumes "live w"
  shows "logs ctx (permitted ctx w) reconcile_outcome (provision ctx w (namespace_of w) gen er)"
  unfolding provision_def
  by (intro logs_pbind[OF kube_logs(2)] logs_pmatch[OF logs_children])
     (auto intro!: logs_pbind[OF kube_logs(3)] logs_pret logs_mono[OF logs_report] assms)

lemma logs_deletion:
  assumes "deletion_timestamp (metadata w) \<noteq> None"
  shows "logs ctx (permitted ctx w) reconcile_outcome (handle_deletion ctx w nm (namespace_of w))"
proof -
  have "logs ctx (permitted ctx w) kube_outcome (remove_finalizer ctx w (namespace_of w))"
    unfolding remove_finalizer_def Let_def
    by (rule logs_send_unit) (use assms in \<open>simp add: permitted_def kept_finalizers_def\<close>)
  then show ?thesis
    unfolding handle_deletion_def
    by (intro logs_pbind[OF kube_logs(1)] logs_pbind[where P = kube_outcome and m = "remove_finalizer _ _ _"] logs_pret) auto
qed

lemma logs_add_finalizer:
  assumes "deletion_timestamp (metadata w) = None" "\<not> has_finalizer w"
  shows "logs ctx (permitted ctx w) kube_outcome (add_finalizer ctx w (namespace_of w))"
proof -
  have "\<not> list_ex (\<lambda>f. f = FINALIZER) (the_or [] (finalizers (metadata w)))"
    using assms(2) by (simp add: has_finalizer_def split: option.splits)
  then show ?thesis
    unfolding add_finalizer_def Let_def
    using assms by (auto intro!: logs_send_unit simp: permitted_def added_finalizers_def)
qed

lemma reconcile_live:
  "live w \<Longrightarrow> reconcile ctx w =
     (let ns = namespace_of w; gen = the_or 0 (generation (metadata w)) in
      if observed_generation w \<ge> gen \<and> map_option st_phase (status_of w) = Some Running then pret (Requeue 300)
      else pbind (if evaluates w then evaluate_now ctx w ns gen else evaluate_cached ctx w ns gen) (\<lambda>r.
           case r of Inl act \<Rightarrow> pret act | Inr er \<Rightarrow> provision ctx w ns gen er))"
  by (auto simp: reconcile_def live_def evaluates_def Let_def)

lemma logs_reconcile: "logs ctx (permitted ctx w) reconcile_outcome (reconcile ctx w)"
proof (cases "live w")
  case False
  then show ?thesis
  proof (cases "deletion_timestamp (metadata w)")
    case None
    then have "\<not> has_finalizer w" using False by (simp add: live_def)
    then show ?thesis
      using None by (auto simp: reconcile_def Let_def intro!: logs_pbind[OF logs_add_finalizer] logs_pret)
  next
    case (Some d)
    then show ?thesis using logs_deletion[of w ctx] by (simp add: reconcile_def Let_def)
  qed
next
  case True
  let ?Q = "\<lambda>r. kube_outcome r \<and> (\<forall>act. r = Ok (Inl act) \<longrightarrow> act = Requeue 30)"
  let ?m = "\<lambda>gen. if evaluates w then evaluate_now ctx w (namespace_of w) gen else evaluate_cached ctx w (namespace_of w) gen"
  let ?k = "\<lambda>gen r. case r of Inl act \<Rightarrow> pret act | Inr er \<Rightarrow> provision ctx w (namespace_of w) gen er"
  have m: "logs ctx (permitted ctx w) ?Q (?m gen)" for gen
    using logs_evaluate_now[OF True] evaluate_cached_result[of w ctx "namespace_of w" gen]
    by (cases "evaluates w") (auto intro!: logs_pret)
  have k: "logs ctx (permitted ctx w) reconcile_outcome (?k gen r)" if "?Q (Ok r)" for gen r
    using that by (cases r) (auto intro!: logs_pret logs_provision True)
  have k': "logs ctx (permitted ctx w) (\<lambda>_. True) (?k gen r)" for gen r
    by (cases r) (auto intro!: logs_pret logs_mono[OF logs_provision] True)
  have "logs ctx (permitted ctx w) reconcile_outcome (pmatch (?m gen) (?k gen) pfail)" for gen
    by (rule logs_pmatch[OF m]) (use k k' in \<open>auto intro: logs_pfail\<close>)
  then show ?thesis
    unfolding reconcile_live[OF True] Let_def pbind_pmatch by (auto intro: logs_pret)
qed

text \<open>What a log says of a whole run.\<close>

lemma reconcile_log:
  assumes "reconcile ctx w (s, es) = (r, s', es')"
  shows "\<exists>new. es' = es @ new \<and> list_all (permitted ctx w) new \<and> (list_all (answered ctx) new \<longrightarrow> reconcile_outcome r)"
  using tracedD[OF logs_reconcile[unfolded logs_def] assms] .

section \<open>When a workload is reported as running\<close>

definition says_running :: "entry \<Rightarrow> bool" where
  "says_running en \<longleftrightarrow>
     (case en of Asked (PatchStatus ns nm p) a \<Rightarrow> jpath p [''status'', ''phase''] = Some (JStr (phase_str Running)) | _ \<Rightarrow> False)"

definition ready_answer :: "int option option \<Rightarrow> int" where
  "ready_answer d = the_or 0 (the_or None d)"

definition status_fields :: "niphas_workload \<Rightarrow> workload_phase \<Rightarrow> eval_response \<Rightarrow> int \<Rightarrow> int \<Rightarrow> string \<Rightarrow> (string \<times> json) list" where
  "status_fields w phase er ready gen now =
       [(''phase'', JStr (phase_str phase)), (''observedGeneration'', JInt gen),
        (''storePath'', JStr (resp_store_path er)), (''resolvedCommand'', JStr (resolved_command er)),
        (''closurePaths'', jstrs (closure_paths er)), (''readyReplicas'', JInt ready),
        (''conditions'', JArr (status_conditions phase er ready (the_or 1 (ws_replicas (spec w))) gen now))]"

lemma update_status_fields:
  "update_status ctx w ns phase er ready gen =
     pbind (iso_now ctx) (\<lambda>now. send_unit ctx (PatchStatus ns (name_any w) (status_patch (status_fields w phase er ready gen now))))"
  by (simp add: update_status_def status_fields_def)

definition calm :: "('s op_state, 'e, 'a) prog \<Rightarrow> bool" where
  "calm m \<longleftrightarrow> traced (\<lambda>new r. list_all (\<lambda>en. \<not> says_running en) new) m"

lemma calm_logs: "logs ctx (\<lambda>en. \<not> says_running en) R m \<Longrightarrow> calm m"
  unfolding calm_def logs_def by (erule traced_mono) blast

lemma phase_str_inject [simp]: "phase_str p = phase_str q \<longleftrightarrow> p = q"
  by (cases p; cases q) simp_all

declare phase_str.simps [simp del]

lemma says_running_simps [simp]:
  "says_running (Asked (PatchStatus ns nm (status_patch ((''phase'', JStr (phase_str p)) # fs))) a) \<longleftrightarrow> p = Running"
  "\<not> says_running (Asked (ApplyChild c) a)" "\<not> says_running (Asked (GetDeployment ns nm) a)"
  "\<not> says_running (Asked (PublishEvent ev ob) a)" "\<not> says_running (Posted url req t reply)"
  "\<not> says_running (Asked (PatchWorkload ns nm p') a)"
  by (simp_all add: says_running_def status_patch_def)

lemma calm_publish: "logs ctx (\<lambda>en. \<not> says_running en) (\<lambda>r. r = Ok ()) (publish_event ctx w ty reason note)"
  by (rule logs_publish) simp

lemma calm_set_phase: "phase \<noteq> Running \<Longrightarrow> logs ctx (\<lambda>en. \<not> says_running en) kube_outcome (set_phase ctx w ns phase)"
  unfolding set_phase_def by (rule logs_send_unit) simp

lemma calm_set_failed: "logs ctx (\<lambda>en. \<not> says_running en) kube_outcome (set_failed ctx w ns reason msg gen)"
  unfolding set_failed_def by (rule logs_pbind[OF logs_iso_now], rule logs_send_unit) simp_all

lemma calm_evaluate_now: "logs ctx (\<lambda>en. \<not> says_running en) kube_outcome (evaluate_now ctx w ns gen)"
proof -
  have hook: "logs ctx (\<lambda>en. \<not> says_running en) settled (call_eval_webhook ctx w)"
    by (rule logs_webhook) simp
  show ?thesis
    unfolding evaluate_now_def
    by (intro logs_pbind[OF calm_set_phase] logs_pbind[OF calm_publish] logs_pmatch[OF hook])
       (auto intro!: logs_pbind[OF calm_publish] logs_pbind[OF calm_set_failed] logs_pret split: prod.splits)
qed

lemma calm_deletion: "logs ctx (\<lambda>en. \<not> says_running en) kube_outcome (handle_deletion ctx w nm ns)"
proof -
  have "logs ctx (\<lambda>en. \<not> says_running en) kube_outcome (remove_finalizer ctx w ns)"
    unfolding remove_finalizer_def Let_def by (rule logs_send_unit) simp
  then show ?thesis
    unfolding handle_deletion_def
    by (intro logs_pbind[OF calm_publish] logs_pbind[where P = kube_outcome and m = "remove_finalizer _ _ _"] logs_pret) auto
qed

lemma calm_add_finalizer: "logs ctx (\<lambda>en. \<not> says_running en) kube_outcome (add_finalizer ctx w ns)"
  unfolding add_finalizer_def Let_def by (rule logs_send_unit) simp

text \<open>A child is applied when its call was answered well.\<close>

definition child_applied :: "entry list \<Rightarrow> child \<Rightarrow> bool" where
  "child_applied new c \<longleftrightarrow> (\<exists>x. Asked (ApplyChild c) (Ok x) \<in> set new)"

lemma traced_send_unit:
  "traced (\<lambda>new r. \<exists>a. new = [Asked c a] \<and> r = omap_err OpKube (obind a (\<lambda>_. Ok ()))) (send_unit ctx c)"
proof (rule tracedI)
  fix s es r s' es'
  assume run: "send_unit ctx c (s, es) = (r, s', es')"
  obtain a t where a: "ask ctx c s = (a, t)" by fastforce
  then have "send ctx c (s, es) = (omap_err OpKube a, t, es @ [Asked c a])" by (simp add: send_def)
  then show "\<exists>new. es' = es @ new \<and> (\<exists>a. new = [Asked c a] \<and> r = omap_err OpKube (obind a (\<lambda>_. Ok ())))"
    using run by (cases a) (auto simp: send_unit_def pbind_def)
qed

lemma child_applied_append: "child_applied new c \<Longrightarrow> child_applied (pre @ new) c"
  by (auto simp: child_applied_def)

lemma traced_children:
  "traced (\<lambda>new r. list_all (\<lambda>en. \<not> says_running en) new \<and> (r = Ok () \<longrightarrow> list_all (child_applied new) cs))
     (piter (\<lambda>c. send_unit ctx (ApplyChild c)) cs)"
proof (induction cs)
  case Nil
  show ?case unfolding piter.simps by (rule traced_mono[OF traced_pret]) (simp add: ret_trace_def)
next
  case (Cons c cs)
  let ?P = "\<lambda>cs new r. list_all (\<lambda>en. \<not> says_running en) new \<and> (r = Ok () \<longrightarrow> list_all (child_applied new) cs)"
  have "?P (c # cs) new r"
    if seq: "seq_trace (\<lambda>new r. \<exists>a. new = [Asked (ApplyChild c) a] \<and> r = omap_err OpKube (obind a (\<lambda>_. Ok ())))
      (\<lambda>_. ?P cs) fail_trace new r" for new and r :: "(operator_error, unit) outcome"
    using seq unfolding seq_trace_def
  proof (elim disjE exE conjE)
    fix a b x y assume "new = a @ b" "a = [Asked (ApplyChild c) y]" "Ok x = omap_err OpKube (obind y (\<lambda>_. Ok ()))"
      and b: "list_all (\<lambda>en. \<not> says_running en) b" "r = Ok () \<longrightarrow> list_all (child_applied b) cs"
    moreover from this obtain z where "y = Ok z" by (metis obind_eq_Ok omap_err_eq_Ok)
    ultimately show ?thesis using child_applied_append[of b _ "[Asked (ApplyChild c) y]"]
      by (auto simp: child_applied_def list_all_iff)
  qed (auto simp: fail_trace_def)
  then show ?case
    unfolding piter.simps by (rule traced_mono[OF traced_pbind[OF traced_send_unit Cons.IH]])
qed

text \<open>Parts that report nothing can be left off the front and the end of a program.\<close>

definition backed :: "(entry list \<Rightarrow> entry \<Rightarrow> bool) \<Rightarrow> entry list \<Rightarrow> ('e, 'a) outcome \<Rightarrow> bool" where
  "backed P new r \<longleftrightarrow> (\<forall>en. en \<in> set new \<and> says_running en \<longrightarrow> P new en)"

definition growing :: "(entry list \<Rightarrow> entry \<Rightarrow> bool) \<Rightarrow> bool" where
  "growing P \<longleftrightarrow> (\<forall>a b en. P b en \<longrightarrow> P (a @ b) en) \<and> (\<forall>a b en. P a en \<longrightarrow> P (a @ b) en)"

lemma backed_calm: "list_all (\<lambda>en. \<not> says_running en) new \<Longrightarrow> backed P new r"
  by (auto simp: backed_def list_all_iff)

lemma backed_append: "growing P \<Longrightarrow> backed P a r \<Longrightarrow> backed P b r' \<Longrightarrow> backed P (a @ b) r''"
  by (auto simp: backed_def growing_def)

lemma calm_pret: "calm (pret x)"
  unfolding calm_def by (rule traced_mono[OF traced_pret]) (simp add: ret_trace_def)

lemma traced_calm: "calm m \<Longrightarrow> traced (backed P) m"
  unfolding calm_def by (erule traced_mono) (rule backed_calm)

lemma backed_pmatch:
  assumes P: "growing P" and m: "traced (backed P) m" "\<And>x. traced (backed P) (f x)" "\<And>e. traced (backed P) (g e)"
  shows "traced (backed P) (pmatch m f g)"
proof (rule traced_mono[OF traced_pmatch[OF m]])
  show "backed P new r" if "seq_trace (backed P) (\<lambda>_. backed P) (\<lambda>_. backed P) new r" for new r
    using that P by (auto simp: seq_trace_def intro: backed_append) (auto simp: backed_def)
qed

lemma backed_pbind:
  "growing P \<Longrightarrow> traced (backed P) m \<Longrightarrow> (\<And>x. traced (backed P) (f x)) \<Longrightarrow> traced (backed P) (pbind m f)"
  unfolding pbind_pmatch by (rule backed_pmatch) (auto intro: traced_calm calm_logs[of undefined] logs_pfail[where R = "\<lambda>_. True"])

lemmas backed_pret = traced_calm[OF calm_pret]

lemma traced_update_status:
  "traced (\<lambda>new r. \<exists>now a. new = [Asked (PatchStatus ns (name_any w) (status_patch (status_fields w phase er ready gen now))) a])
     (update_status ctx w ns phase er ready gen)"
  unfolding update_status_fields
  by (rule traced_mono[OF traced_pbind[OF traced_iso_now traced_send_unit]]) (auto simp: seq_trace_def)

lemma traced_count:
  "traced (\<lambda>new r. \<exists>a. new = [Asked (GetDeployment ns (name_any w)) a] \<and> (\<forall>x. r = Ok x \<longrightarrow> (\<exists>d. a = Ok d \<and> x = ready_answer d)))
     (count_ready_replicas ctx w ns)"
proof (rule tracedI)
  fix s es r s' es'
  let ?c = "GetDeployment ns (name_any w)"
  assume run: "count_ready_replicas ctx w ns (s, es) = (r, s', es')"
  obtain a t where a: "ask ctx ?c s = (a, t)" by fastforce
  then have "send ctx ?c (s, es) = (omap_err OpKube a, t, es @ [Asked ?c a])" by (simp add: send_def)
  then show "\<exists>new. es' = es @ new \<and> (\<exists>a. new = [Asked ?c a] \<and> (\<forall>x. r = Ok x \<longrightarrow> (\<exists>d. a = Ok d \<and> x = ready_answer d)))"
    using run by (cases a) (auto simp: count_ready_replicas_def pbind_def ready_answer_def split: option.splits)
qed

text \<open>The report that the replicas are ready rests on the answer of the API server.\<close>

definition ready_backed :: "niphas_workload \<Rightarrow> string \<Rightarrow> int \<Rightarrow> eval_response \<Rightarrow> entry list \<Rightarrow> entry \<Rightarrow> bool" where
  "ready_backed w ns gen er new en \<longleftrightarrow> (\<exists>d now a.
     en = Asked (PatchStatus ns (name_any w) (status_patch (status_fields w Running er (ready_answer d) gen now))) a \<and>
     the_or 1 (ws_replicas (spec w)) \<le> ready_answer d \<and> Asked (GetDeployment ns (name_any w)) (Ok d) \<in> set new)"

lemma growing_ready: "growing (ready_backed w ns gen er)"
  by (auto simp: growing_def ready_backed_def)

lemma status_fields_says:
  "says_running (Asked (PatchStatus ns nm (status_patch (status_fields w p er ready gen now))) a) \<longleftrightarrow> p = Running"
  by (simp add: status_fields_def)

lemma report_backed: "traced (backed (ready_backed w ns gen er)) (report ctx w ns gen er)"
proof -
  let ?desired = "the_or 1 (ws_replicas (spec w))"
  let ?phase = "\<lambda>ready. if ready \<ge> ?desired then Running else Provisioning"
  let ?P = "\<lambda>ready _ en. \<exists>now a.
     en = Asked (PatchStatus ns (name_any w) (status_patch (status_fields w Running er ready gen now))) a \<and> ?desired \<le> ready"
  let ?rest = "\<lambda>ready. pbind (if ?phase ready = Running then publish_event ctx w NormalEvent ''Available'' ''All replicas ready'' else pret ()) (\<lambda>_.
     pbind (update_status ctx w ns (?phase ready) er ready gen) (\<lambda>_. pret (Requeue (if ready < ?desired then 5 else 300))))"
  have avail: "calm (if b then publish_event ctx w NormalEvent ''Available'' ''All replicas ready'' else pret ())" for b
    using calm_logs[OF calm_publish] calm_pret by (cases b) (simp_all only: if_True if_False)
  have upd: "traced (backed (?P ready)) (update_status ctx w ns (?phase ready) er ready gen)" for ready
    by (rule traced_mono[OF traced_update_status]) (auto simp: backed_def status_fields_says split: if_splits)
  have rest: "traced (backed (?P ready)) (?rest ready)" for ready
    by (intro backed_pbind traced_calm[OF avail] upd backed_pret) (simp_all add: growing_def)
  have "backed (ready_backed w ns gen er) new r"
    if "seq_trace (\<lambda>new r. \<exists>a. new = [Asked (GetDeployment ns (name_any w)) a] \<and> (\<forall>x. r = Ok x \<longrightarrow> (\<exists>d. a = Ok d \<and> x = ready_answer d)))
       (\<lambda>ready. backed (?P ready)) fail_trace new r" for new and r :: "(operator_error, action) outcome"
    using that unfolding seq_trace_def backed_def ready_backed_def
    by (elim disjE exE conjE) (auto simp: fail_trace_def, blast)
  then have "traced (backed (ready_backed w ns gen er)) (pbind (count_ready_replicas ctx w ns) ?rest)"
    by (rule traced_mono[OF traced_pbind[OF traced_count rest]])
  then show ?thesis
    unfolding report_def Let_def
    by (rule backed_pbind[OF growing_ready traced_calm[OF calm_logs[OF calm_publish]]])
qed

definition provision_backed :: "niphas_workload \<Rightarrow> string \<Rightarrow> int \<Rightarrow> eval_response \<Rightarrow> entry list \<Rightarrow> entry \<Rightarrow> bool" where
  "provision_backed w ns gen er new en \<longleftrightarrow> ready_backed w ns gen er new en \<and> list_all (child_applied new) (children w er)"

lemma growing_provision: "growing (provision_backed w ns gen er)"
  using growing_ready[of w ns gen er] by (auto simp: growing_def provision_backed_def list_all_iff child_applied_def)

lemma provision_is_backed: "traced (backed (provision_backed w ns gen er)) (provision ctx w ns gen er)"
proof -
  let ?cs = "children w er" and ?f = "\<lambda>e. pbind (set_failed ctx w ns ''ProvisionFailed'' (operator_error_display e) gen) (\<lambda>_. pret (Requeue 10))"
  have fail: "traced (backed P) (?f e)" if "growing P" for P e
    by (intro backed_pbind that traced_calm[OF calm_logs[OF calm_set_failed]] backed_pret)
  have "backed (provision_backed w ns gen er) new r"
    if "seq_trace (\<lambda>new r. list_all (\<lambda>en. \<not> says_running en) new \<and> (r = Ok () \<longrightarrow> list_all (child_applied new) ?cs))
       (\<lambda>_. backed (ready_backed w ns gen er)) (\<lambda>_. backed (provision_backed w ns gen er)) new r"
    for new and r :: "(operator_error, action) outcome"
    using that unfolding seq_trace_def
  proof (elim disjE exE conjE)
    fix a b x assume *: "new = a @ b" "list_all (\<lambda>en. \<not> says_running en) a" "Ok x = Ok () \<longrightarrow> list_all (child_applied a) ?cs"
      "backed (ready_backed w ns gen er) b r"
    have "list_all (child_applied new) ?cs" using * by (auto simp: list_all_iff child_applied_def)
    moreover have "backed (ready_backed w ns gen er) new r"
      using * backed_append[OF growing_ready backed_calm] by blast
    ultimately show ?thesis by (auto simp: backed_def provision_backed_def)
  next
    fix a b e assume *: "new = a @ b" "list_all (\<lambda>en. \<not> says_running en) a" "backed (provision_backed w ns gen er) b r"
    then show ?thesis using backed_append[OF growing_provision backed_calm] by blast
  qed (auto intro: backed_calm)
  then have "traced (backed (provision_backed w ns gen er))
      (pmatch (apply_child_resources (\<lambda>c. send_unit ctx (ApplyChild c)) w er) (\<lambda>_. report ctx w ns gen er) ?f)"
    unfolding apply_children
    by (rule traced_mono[OF traced_pmatch[OF traced_children report_backed fail[OF growing_provision]]])
  then show ?thesis
    unfolding provision_def
    by (intro backed_pbind growing_provision traced_calm[OF calm_logs[OF calm_set_phase]]) simp_all
qed

text \<open>Where the store path comes from: the answer of the evaluation service in this run, or the status.\<close>

definition evaluated_to :: "'s operator_context \<Rightarrow> niphas_workload \<Rightarrow> entry list \<Rightarrow> eval_response \<Rightarrow> bool" where
  "evaluated_to ctx w new er \<longleftrightarrow>
     (if evaluates w
      then \<exists>t reply. Posted (webhook_url ctx) (webhook_request w) t reply \<in> set new \<and> webhook_result ctx reply = Ok er
      else from_status (the_or default_status (status_of w)) = Some er)"

definition running_backed :: "'s operator_context \<Rightarrow> niphas_workload \<Rightarrow> entry list \<Rightarrow> entry \<Rightarrow> bool" where
  "running_backed ctx w new en \<longleftrightarrow> (\<exists>er.
     evaluated_to ctx w new er \<and> provision_backed w (namespace_of w) (the_or 0 (generation (metadata w))) er new en)"

lemma growing_running: "growing (running_backed ctx w)"
  using growing_provision[of w] by (fastforce simp: growing_def running_backed_def evaluated_to_def)

lemma traced_conj: "traced P m \<Longrightarrow> traced Q m \<Longrightarrow> traced (\<lambda>new r. P new r \<and> Q new r) m"
  unfolding traced_def by fastforce

lemma traced_after:
  assumes "traced A m" "\<And>x. traced P (f x)" "\<And>a b r. P b r \<Longrightarrow> P (a @ b) r" "\<And>a r. (\<forall>x. r \<noteq> Ok x) \<Longrightarrow> P a r"
  shows "traced P (pbind m f)"
  by (rule traced_mono[OF traced_pbind[OF assms(1,2)]]) (auto simp: seq_trace_def fail_trace_def intro: assms(3) assms(4))

lemma traced_evaluate_now:
  "traced (\<lambda>new r. list_all (\<lambda>en. \<not> says_running en) new \<and>
     (\<forall>er. r = Ok (Inr er) \<longrightarrow> (\<exists>t reply. Posted (webhook_url ctx) (webhook_request w) t reply \<in> set new \<and> webhook_result ctx reply = Ok er)))
     (evaluate_now ctx w ns gen)"
proof (rule traced_conj)
  let ?E = "\<lambda>new r. \<forall>er. r = Ok (Inr er) \<longrightarrow>
    (\<exists>t reply. Posted (webhook_url ctx) (webhook_request w) t reply \<in> set new \<and> webhook_result ctx reply = Ok er)"
  let ?f = "\<lambda>res. pbind (publish_event ctx w NormalEvent ''EvalSucceeded'' (''Resolved store path: '' @ resp_store_path res)) (\<lambda>_. pret (Inr res))"
  let ?g = "\<lambda>e. case failure_event e of (reason, msg) \<Rightarrow>
    pbind (publish_event ctx w WarningEvent reason msg) (\<lambda>_. pbind (set_failed ctx w ns reason msg gen) (\<lambda>_. pret (Inl (Requeue 30))))"
  have f: "traced (\<lambda>new r. \<forall>er. r = Ok (Inr er) \<longrightarrow> er = res) (?f res)" for res
    by (rule traced_after[OF traced_publish]) (auto intro: traced_mono[OF traced_pret] simp: ret_trace_def)
  have g: "traced (\<lambda>new r. \<forall>er. r \<noteq> Ok (Inr er)) (?g e)" for e
  proof (cases "failure_event e")
    case (Pair reason msg)
    have "traced (\<lambda>new r. \<forall>er. r \<noteq> Ok (Inr er)) (pbind (set_failed ctx w ns reason msg gen) (\<lambda>_. pret (Inl (Requeue 30))))"
      by (rule traced_after[OF calm_logs[OF calm_set_failed, unfolded calm_def]])
         (auto intro: traced_mono[OF traced_pret] simp: ret_trace_def)
    then show ?thesis using Pair by (auto intro: traced_after[OF traced_publish])
  qed
  have "traced ?E (pmatch (call_eval_webhook ctx w) ?f ?g)"
    by (rule traced_mono[OF traced_pmatch[OF traced_webhook f g]]) (fastforce simp: seq_trace_def)
  moreover have pre: "?E (a @ b) r" if "?E b r" for a b and r :: "(operator_error, action + eval_response) outcome"
    using that by (simp only: set_append Un_iff) blast
  moreover have bad: "?E a r" if "\<forall>x. r \<noteq> Ok x" for a and r :: "(operator_error, action + eval_response) outcome"
    using that by blast
  ultimately have ev: "traced ?E (pbind (publish_event ctx w NormalEvent ''EvalStarted'' ''Starting flake evaluation'') (\<lambda>_.
      pmatch (call_eval_webhook ctx w) ?f ?g))"
    by (rule traced_after[OF traced_publish])
  have "traced (\<lambda>new r. list_all (\<lambda>en. \<not> says_running en) new) (set_phase ctx w ns Evaluating)"
    by (rule calm_logs[OF calm_set_phase, unfolded calm_def]) simp
  from this ev pre bad show "traced ?E (evaluate_now ctx w ns gen)"
    unfolding evaluate_now_def by (rule traced_after)
qed (rule calm_logs[OF calm_evaluate_now, unfolded calm_def])

text \<open>The two halves of a reconciliation of a live workload: an evaluation, new or from the status, and what is done with it.\<close>

abbreviation evaluation :: "'s operator_context \<Rightarrow> niphas_workload \<Rightarrow> ('s op_state, operator_error, action + eval_response) prog" where
  "evaluation ctx w \<equiv>
     (if evaluates w then evaluate_now ctx w (namespace_of w) (the_or 0 (generation (metadata w)))
      else evaluate_cached ctx w (namespace_of w) (the_or 0 (generation (metadata w))))"

abbreviation go_on :: "'s operator_context \<Rightarrow> niphas_workload \<Rightarrow> action + eval_response \<Rightarrow> ('s op_state, operator_error, action) prog" where
  "go_on ctx w r \<equiv> (case r of Inl act \<Rightarrow> pret act
     | Inr er \<Rightarrow> provision ctx w (namespace_of w) (the_or 0 (generation (metadata w))) er)"

lemma evaluation_cached:
  assumes "\<not> evaluates w"
  obtains er where "evaluation ctx w = pret (Inr er)" "from_status (the_or default_status (status_of w)) = Some er"
  using assms evaluate_cached_result[OF assms, of ctx] by auto

lemma evaluation_result: "traced (\<lambda>new r. \<forall>er. r = Ok (Inr er) \<longrightarrow> evaluated_to ctx w new er) (evaluation ctx w)"
proof (cases "evaluates w")
  case True
  show ?thesis unfolding if_P[OF True]
    by (rule traced_mono[OF traced_evaluate_now]) (use True in \<open>auto simp: evaluated_to_def\<close>)
next
  case False
  obtain er where er: "evaluation ctx w = pret (Inr er)" "from_status (the_or default_status (status_of w)) = Some er"
    using evaluation_cached[OF False] by blast
  show ?thesis unfolding er(1)
    by (rule traced_mono[OF traced_pret]) (use False er(2) in \<open>auto simp: ret_trace_def evaluated_to_def\<close>)
qed

lemma evaluation_entries:
  assumes "traced (\<lambda>new r. list_all E new) (evaluate_now ctx w (namespace_of w) (the_or 0 (generation (metadata w))))"
  shows "traced (\<lambda>new r. list_all E new) (evaluation ctx w)"
proof (cases "evaluates w")
  case False
  obtain er where er: "evaluation ctx w = pret (Inr er)" using evaluation_cached[OF False] by blast
  show ?thesis unfolding er by (rule traced_mono[OF traced_pret]) (simp add: ret_trace_def)
qed (use assms in simp)

lemma evaluated_append: "evaluated_to ctx w a er \<Longrightarrow> evaluated_to ctx w (a @ b) er"
  unfolding evaluated_to_def set_append Un_iff by (cases "evaluates w") (simp_all, blast)

lemma go_on_backed:
  "traced (\<lambda>new q. \<forall>en. en \<in> set new \<and> says_running en \<longrightarrow>
     (\<exists>er. r = Inr er \<and> provision_backed w (namespace_of w) (the_or 0 (generation (metadata w))) er new en)) (go_on ctx w r)"
proof (cases r)
  case (Inl act)
  show ?thesis unfolding Inl sum.case by (rule traced_mono[OF traced_pret]) (simp add: ret_trace_def)
next
  case (Inr er)
  show ?thesis unfolding Inr sum.case by (rule traced_mono[OF provision_is_backed]) (simp add: backed_def)
qed

lemma running_backed_append:
  assumes "list_all (\<lambda>en. \<not> says_running en) a" "\<forall>er. x = Inr er \<longrightarrow> evaluated_to ctx w a er"
    and "\<forall>en. en \<in> set b \<and> says_running en \<longrightarrow>
      (\<exists>er. x = Inr er \<and> provision_backed w (namespace_of w) (the_or 0 (generation (metadata w))) er b en)"
  shows "backed (running_backed ctx w) (a @ b) r"
proof -
  have "running_backed ctx w (a @ b) en" if en: "en \<in> set b" "says_running en" for en
  proof -
    obtain er where er: "x = Inr er" "provision_backed w (namespace_of w) (the_or 0 (generation (metadata w))) er b en"
      using assms(3) en by blast
    then have "provision_backed w (namespace_of w) (the_or 0 (generation (metadata w))) er (a @ b) en"
      using growing_provision[of w "namespace_of w" "the_or 0 (generation (metadata w))" er] by (simp add: growing_def)
    then show ?thesis using evaluated_append[of ctx w a er b] assms(2) er(1) by (auto simp: running_backed_def)
  qed
  then show ?thesis using assms(1) by (auto simp: backed_def list_all_iff)
qed

lemma reconcile_is_backed: "traced (backed (running_backed ctx w)) (reconcile ctx w)"
proof (cases "live w")
  case False
  have "calm (reconcile ctx w)"
    using False calm_logs[OF calm_deletion] calm_logs[OF logs_pbind[OF calm_add_finalizer logs_pret[where R = kube_outcome]]]
    by (auto simp: reconcile_def live_def Let_def)
  then show ?thesis by (rule traced_calm)
next
  case True
  note m = traced_conj[OF evaluation_entries[OF calm_logs[OF calm_evaluate_now, unfolded calm_def]] evaluation_result]
  have "traced (backed (running_backed ctx w)) (pbind (evaluation ctx w) (go_on ctx w))"
    by (rule traced_mono[OF traced_pbind[OF m go_on_backed]])
      (unfold seq_trace_def fail_trace_def outcome.inject, elim disjE exE conjE, blast intro: running_backed_append, simp_all add: backed_calm)
  then show ?thesis
    unfolding reconcile_live[OF True] Let_def by (auto intro: backed_pret)
qed


section \<open>Where child resources and store paths come from\<close>

text \<open>The child resources that are applied, and the store path and closure of a status patch, when it has them, are made from an answer.\<close>

definition built_from :: "niphas_workload \<Rightarrow> eval_response option \<Rightarrow> entry \<Rightarrow> bool" where
  "built_from w answer en \<longleftrightarrow>
     (case en of
        Asked (ApplyChild c) a \<Rightarrow> \<exists>er. answer = Some er \<and> c \<in> set (children w er)
      | Asked (PatchStatus ns nm p) a \<Rightarrow> \<exists>fs. p = status_patch fs \<and> distinct (map fst fs) \<and>
          (map_of fs ''storePath'' = None \<and> map_of fs ''closurePaths'' = None \<or>
           (\<exists>er. answer = Some er \<and> map_of fs ''storePath'' = Some (JStr (resp_store_path er)) \<and>
              map_of fs ''closurePaths'' = Some (jstrs (closure_paths er))))
      | _ \<Rightarrow> True)"

lemma built_from_simps [simp]:
  "built_from w answer (Asked (ApplyChild c) a) \<longleftrightarrow> (\<exists>er. answer = Some er \<and> c \<in> set (children w er))"
  "built_from w answer (Asked (PatchWorkload ns nm p) a)" "built_from w answer (Asked (GetDeployment ns nm) a)"
  "built_from w answer (Asked (PublishEvent ev ob) a)" "built_from w answer (Posted url req t reply)"
  "distinct (map fst fs) \<Longrightarrow> map_of fs ''storePath'' = None \<Longrightarrow> map_of fs ''closurePaths'' = None \<Longrightarrow>
     built_from w answer (Asked (PatchStatus ns nm (status_patch fs)) a)"
  "built_from w (Some er) (Asked (PatchStatus ns nm (status_patch (status_fields w ph er ready gen now))) a)"
  by (simp_all add: built_from_def status_patch_def status_fields_def jget_def)

lemma built_logs:
  "logs ctx (built_from w answer) (\<lambda>r. r = Ok ()) (publish_event ctx w ty reason note)"
  "logs ctx (built_from w answer) kube_outcome (set_phase ctx w ns phase)"
  "logs ctx (built_from w answer) kube_outcome (set_failed ctx w ns reason msg gen)"
  "logs ctx (built_from w (Some er)) kube_outcome (update_status ctx w ns phase er ready gen)"
  "logs ctx (built_from w answer) kube_outcome (count_ready_replicas ctx w ns)"
  "logs ctx (built_from w answer) settled (call_eval_webhook ctx w)"
  unfolding set_phase_def set_failed_def update_status_fields count_ready_replicas_def
  by (auto intro!: logs_pbind[OF logs_iso_now] logs_pbind[OF logs_send] logs_send_unit logs_publish logs_webhook logs_pret
      split: option.splits)

lemma evaluate_now_built: "logs ctx (built_from w None) kube_outcome (evaluate_now ctx w ns gen)"
  unfolding evaluate_now_def
  by (intro logs_pbind[OF built_logs(2)] logs_pbind[OF built_logs(1)] logs_pmatch[OF built_logs(6)])
     (auto intro!: logs_pbind[OF built_logs(1)] logs_pbind[OF built_logs(3)] logs_pret split: prod.splits)

lemma report_built: "logs ctx (built_from w (Some er)) (\<lambda>r. kube_outcome r) (report ctx w ns gen er)"
proof -
  have avail: "logs ctx (built_from w (Some er)) (\<lambda>r. r = Ok ())
      (if b then publish_event ctx w NormalEvent ''Available'' ''All replicas ready'' else pret ())" for b
    using built_logs(1) by (cases b) (simp_all only: if_True if_False logs_pret)
  show ?thesis
    unfolding report_def Let_def
    by (intro logs_pbind[OF built_logs(1)] logs_pbind[OF built_logs(5)] logs_pbind[OF avail] logs_pbind[OF built_logs(4)] logs_pret) auto
qed

lemma provision_built: "logs ctx (built_from w (Some er)) kube_outcome (provision ctx w ns gen er)"
proof -
  have "logs ctx (built_from w (Some er)) kube_outcome (apply_child_resources (\<lambda>c. send_unit ctx (ApplyChild c)) w er)"
    unfolding apply_children by (rule logs_piter, rule logs_send_unit) simp
  then show ?thesis
    unfolding provision_def
    by (intro logs_pbind[OF built_logs(2)] logs_pmatch[where P = kube_outcome])
       (auto intro!: logs_pbind[OF built_logs(3)] logs_pret logs_mono[OF report_built])
qed

lemma logs_entries: "logs ctx E R m \<Longrightarrow> traced (\<lambda>new r. list_all E new) m"
  unfolding logs_def by (erule traced_mono) blast

lemma go_on_built:
  "traced (\<lambda>new q. list_all (built_from w (case r of Inl act \<Rightarrow> None | Inr er \<Rightarrow> Some er)) new) (go_on ctx w r)"
proof (cases r)
  case (Inl act)
  show ?thesis unfolding Inl sum.case by (rule logs_entries[OF logs_pret[where R = "\<lambda>_. True"]]) simp
next
  case (Inr er)
  show ?thesis unfolding Inr sum.case by (rule logs_entries[OF provision_built])
qed

abbreviation backed_by :: "'s operator_context \<Rightarrow> niphas_workload \<Rightarrow> entry list \<Rightarrow> bool" where
  "backed_by ctx w new \<equiv> (\<forall>en \<in> set new. built_from w None en \<or> (\<exists>er. evaluated_to ctx w new er \<and> built_from w (Some er) en))"

lemma built_from_append:
  assumes "new = a @ b" "list_all (built_from w None) a" "\<forall>er. Ok x = Ok (Inr er) \<longrightarrow> evaluated_to ctx w a er"
    and "list_all (built_from w (case x of Inl act \<Rightarrow> None | Inr er \<Rightarrow> Some er)) b"
  shows "backed_by ctx w new"
  using assms evaluated_append[of ctx w a _ b] by (cases x) (fastforce simp: list_all_iff)+

lemma reconcile_built: "traced (\<lambda>new r. backed_by ctx w new) (reconcile ctx w)"
  (is "traced ?A _")
proof (cases "live w")
  case False
  have *: "permitted ctx w en \<Longrightarrow> built_from w None en" for en
    using False by (cases en) (auto simp: permitted_def split: call.splits)
  show ?thesis
    by (rule traced_mono[OF logs_entries[OF logs_reconcile]]) (use * in \<open>auto simp: list_all_iff\<close>)
next
  case True
  let ?gen = "the_or 0 (generation (metadata w))"
  note m = traced_conj[OF evaluation_entries[OF logs_entries[OF evaluate_now_built]] evaluation_result]
  have busy: "traced ?A (pbind (evaluation ctx w) (go_on ctx w))"
    by (rule traced_mono[OF traced_pbind[OF m go_on_built]])
      (unfold seq_trace_def fail_trace_def, elim disjE exE conjE, erule (3) built_from_append, (auto simp: list_all_iff)+)
  show ?thesis
  proof (cases "observed_generation w \<ge> ?gen \<and> map_option st_phase (status_of w) = Some Running")
    case quiet: True
    show ?thesis unfolding reconcile_live[OF True] Let_def if_P[OF quiet]
      by (rule traced_mono[OF traced_pret]) (simp add: ret_trace_def)
  next
    case False
    show ?thesis unfolding reconcile_live[OF True] Let_def if_not_P[OF False] by (rule busy)
  qed
qed

lemma applied_from:
  assumes "reconcile ctx w (s, es) = (r, s', es @ new)" "Asked (ApplyChild c) a \<in> set new"
  shows "\<exists>er. evaluated_to ctx w new er \<and> c \<in> set (children w er)"
  using tracedD[OF reconcile_built assms(1)] assms(2) by fastforce

end
