(* ===== verification/Operator_Runs.thy ===== *)
theory Operator_Runs
  imports Reconciler_Logs
begin

text \<open>
  The operator against a cluster that answers: what repeated reconciliations of a workload do. A merge patch that the
  API server accepts changes the object as RFC 7386 says, and the next reconciliation reads the workload from the changed
  object. Reconciler_Logs has what holds of one reconciliation against any cluster.
\<close>

section \<open>The object in the cluster\<close>

text \<open>The JSON form of the workload, after the patches that the server accepted.\<close>

definition patch_of :: "string \<Rightarrow> string \<Rightarrow> entry \<Rightarrow> json option" where
  "patch_of ns nm en =
     (case en of
        Asked (PatchWorkload ns' nm' p) (Ok _) \<Rightarrow> if ns' = ns \<and> nm' = nm then Some p else None
      | Asked (PatchStatus ns' nm' p) (Ok _) \<Rightarrow> if ns' = ns \<and> nm' = nm then Some p else None
      | _ \<Rightarrow> None)"

definition object_after :: "string \<Rightarrow> string \<Rightarrow> entry list \<Rightarrow> json \<Rightarrow> json" where
  "object_after ns nm es obj = foldl (\<lambda>ob en. case patch_of ns nm en of Some p \<Rightarrow> merge_patch ob p | None \<Rightarrow> ob) obj es"

text \<open>Reading the parts that the operator writes; all other parts of the workload are as before.\<close>

definition read_finalizers :: "json \<Rightarrow> string list option option" where
  "read_finalizers obj =
     (case jget obj ''metadata'' of None \<Rightarrow> None | Some m \<Rightarrow> field_opt (list_value str_value) ''finalizers'' m)"

definition read_workload :: "niphas_workload \<Rightarrow> json \<Rightarrow> niphas_workload option" where
  "read_workload w obj =
     Option.bind (read_finalizers obj) (\<lambda>fs.
     Option.bind (field_opt status_value ''status'' obj) (\<lambda>st.
     Some (w\<lparr>metadata := (metadata w)\<lparr>finalizers := fs\<rparr>, status_of := st\<rparr>)))"

text \<open>One reconciliation with the workload as read: the outcome, the state of the world, the log and the object after it.\<close>

definition round :: "'s operator_context \<Rightarrow> niphas_workload \<Rightarrow> json \<Rightarrow> 's \<Rightarrow>
  (operator_error, action) outcome \<times> 's \<times> entry list \<times> json" where
  "round ctx w obj s =
     (case reconcile ctx w (s, []) of (r, s', es) \<Rightarrow> (r, s', es, object_after (namespace_of w) (name_any w) es obj))"

text \<open>A state of the world in which the cluster accepts every call and has a number of ready replicas, and in which the evaluation service
  gives one reply to a request.\<close>

definition cluster_answer :: "int \<Rightarrow> call \<Rightarrow> int option option" where
  "cluster_answer ready c = (case c of GetDeployment ns nm \<Rightarrow> Some (Some ready) | _ \<Rightarrow> None)"

definition accepting :: "'s operator_context \<Rightarrow> eval_request \<Rightarrow> 's \<Rightarrow> int \<Rightarrow> http_reply \<Rightarrow> bool" where
  "accepting ctx req s ready reply \<longleftrightarrow>
     (\<forall>c. ask ctx c s = (Ok (cluster_answer ready c), s)) \<and> (\<forall>uri t. post ctx uri req t s = (reply, s))"

section \<open>Lemmas\<close>

subsection \<open>Reading what was written\<close>

lemma collect_map: "(\<And>x. x \<in> set xs \<Longrightarrow> f x = Some (g x)) \<Longrightarrow> collect (map f xs) = Some (map g xs)"
  by (induction xs) auto

lemma list_value_strs [simp]: "list_value str_value (jstrs ss) = Some ss"
  using collect_map[of ss Some id] by (simp add: list_value_def comp_def)

definition i32 :: "int \<Rightarrow> bool" where
  "i32 i \<longleftrightarrow> - (2 ^ 31) \<le> i \<and> i < 2 ^ 31"

definition i64 :: "int \<Rightarrow> bool" where
  "i64 i \<longleftrightarrow> - (2 ^ 63) \<le> i \<and> i < 2 ^ 63"

lemma int_value_simps [simp]: "i32 i \<Longrightarrow> int_value 32 (JInt i) = Some i" "i64 i \<Longrightarrow> int_value 64 (JInt i) = Some i"
  by (simp_all add: int_value_def i32_def i64_def)

lemma phase_value_str [simp]: "phase_value (JStr (phase_str p)) = Some p"
  by (cases p) (simp_all add: phase_value_def)

lemma condition_status_value_str [simp]: "condition_status_value (JStr (condition_status_str c)) = Some c"
  by (cases c) (simp_all add: condition_status_value_def)

definition condition_of :: "string \<Rightarrow> condition_status \<Rightarrow> string \<Rightarrow> string \<Rightarrow> string \<Rightarrow> int \<Rightarrow> niphas_condition" where
  "condition_of ty cs reason msg now gen = \<lparr>cond_type = ty, cond_status = cs, cond_reason = reason, cond_message = msg,
     cond_last_transition_time = now, cond_observed_generation = Some gen\<rparr>"

lemma condition_value_json [simp]:
  "i64 gen \<Longrightarrow> condition_value (condition_json ty cs reason msg now gen) = Some (condition_of ty cs reason msg now gen)"
  by (simp add: condition_value_def condition_json_def condition_of_def field_req_def field_opt_def)

lemma status_conditions_value:
  assumes "i64 gen"
  shows "\<exists>cs. list_value condition_value (JArr (status_conditions p er ready desired gen now)) = Some cs"
  using assms by (simp add: list_value_def status_conditions_def Let_def)

lemma field_opt_value: "jget j k = Some v \<Longrightarrow> v \<noteq> JNull \<Longrightarrow> field_opt f k j = map_option Some (f v)"
  by (cases v) (simp_all add: field_opt_def)

lemma field_opt_get: "jget j k = jget j' k \<Longrightarrow> field_opt f k j = field_opt f k j'"
  by (simp add: field_opt_def)

lemma field_opt_merge:
  "distinct (map fst fs) \<Longrightarrow> map_of fs k = None \<Longrightarrow> field_opt f k (merge_patch j (JObj fs)) = field_opt f k j"
  by (rule field_opt_get) (simp add: jget_merge)

lemma merge_value [simp]:
  "merge_patch j (JStr s) = JStr s" "merge_patch j (JInt i) = JInt i" "merge_patch j (JArr js) = JArr js"
  by simp_all

text \<open>The three patches of the status, on a status that can be read.\<close>

lemma status_value_parts:
  assumes "status_value j = Some st"
  shows "is_obj j" "field_opt (int_value 64) ''observedGeneration'' j = Some (st_observed_generation st)"
    "field_opt str_value ''storePath'' j = Some (st_store_path st)"
    "field_opt str_value ''resolvedCommand'' j = Some (st_resolved_command st)"
    "field_opt (list_value str_value) ''closurePaths'' j = Some (st_closure_paths st)"
    "field_opt str_value ''lastEval'' j = Some (st_last_eval st)"
    "field_opt (int_value 32) ''readyReplicas'' j = Some (st_ready_replicas st)"
    "field_opt (list_value condition_value) ''conditions'' j = Some (st_conditions st)"
    "field_opt (list_value arch_status_value) ''architectures'' j = Some (st_architectures st)"
  using assms by (auto simp: status_value_def split: if_splits bind_splits)

lemma read_phase_patch:
  assumes "status_value j = Some st"
  shows "status_value (merge_patch j (JObj [(''phase'', JStr (phase_str p))])) = Some (st\<lparr>st_phase := p\<rparr>)"
  using status_value_parts[OF assms] by (simp add: status_value_def field_opt_merge jget_merge)

lemma read_failed_patch:
  assumes "status_value j = Some st" "i64 gen"
  shows "status_value (merge_patch j (JObj [(''phase'', JStr (phase_str Failed)), (''observedGeneration'', JInt gen),
      (''conditions'', JArr [condition_json ''Evaluated'' CondFalse reason msg now gen])])) =
    Some (st\<lparr>st_phase := Failed, st_observed_generation := Some gen,
      st_conditions := Some [condition_of ''Evaluated'' CondFalse reason msg now gen]\<rparr>)"
  using status_value_parts[OF assms(1)] assms(2)
  by (simp add: status_value_def field_opt_merge jget_merge field_opt_value list_value_def)

lemma read_status_patch:
  assumes "status_value j = Some st" "i64 gen" "i32 ready"
  shows "status_value (merge_patch j (JObj (status_fields w p er ready gen now))) =
    Some (st\<lparr>st_phase := p, st_observed_generation := Some gen, st_store_path := Some (resp_store_path er),
      st_resolved_command := Some (resolved_command er), st_closure_paths := Some (closure_paths er),
      st_ready_replicas := Some ready,
      st_conditions := list_value condition_value (JArr (status_conditions p er ready (the_or 1 (ws_replicas (spec w))) gen now))\<rparr>)"
proof -
  obtain cs where "list_value condition_value
      (JArr (status_conditions p er ready (the_or 1 (ws_replicas (spec w))) gen now)) = Some cs"
    using status_conditions_value[OF assms(2)] by blast
  then show ?thesis
    using status_value_parts[OF assms(1)] assms(2,3)
    by (simp add: status_value_def status_fields_def field_opt_merge jget_merge field_opt_value)
qed

subsection \<open>Reconciling against a cluster that accepts\<close>

abbreviation asked :: "int \<Rightarrow> call \<Rightarrow> entry" where
  "asked ready c \<equiv> Asked c (Ok (cluster_answer ready c))"

abbreviation event_entry :: "int \<Rightarrow> niphas_workload \<Rightarrow> event_type \<Rightarrow> string \<Rightarrow> string \<Rightarrow> entry" where
  "event_entry ready w ty reason note \<equiv> asked ready (PublishEvent (event_of ty reason note) (workload_ref w))"

abbreviation status_entry :: "int \<Rightarrow> niphas_workload \<Rightarrow> (string \<times> json) list \<Rightarrow> entry" where
  "status_entry ready w fs \<equiv> asked ready (PatchStatus (namespace_of w) (name_any w) (status_patch fs))"

lemma send_accepted:
  assumes "accepting ctx rq s ready reply"
  shows "send ctx c (s, es) = (Ok (cluster_answer ready c), s, es @ [asked ready c])"
  using assms by (simp add: send_def accepting_def)

lemma send_unit_accepted:
  assumes "accepting ctx rq s ready reply"
  shows "send_unit ctx c (s, es) = (Ok (), s, es @ [asked ready c])"
  by (simp add: send_unit_def send_accepted[OF assms])

lemma publish_accepted:
  assumes "accepting ctx rq s ready reply"
  shows "publish_event ctx w ty reason note (s, es) = (Ok (), s, es @ [event_entry ready w ty reason note])"
  by (simp add: publish_event_def send_accepted[OF assms] workload_ref_def Let_def)

lemma set_phase_accepted:
  assumes "accepting ctx rq s ready reply"
  shows "set_phase ctx w (namespace_of w) p (s, es) = (Ok (), s, es @ [status_entry ready w [(''phase'', JStr (phase_str p))]])"
  by (simp add: set_phase_def send_unit_accepted[OF assms])

lemma set_failed_accepted:
  assumes "accepting ctx rq s ready reply"
  shows "set_failed ctx w (namespace_of w) reason msg gen (s, es) = (Ok (), s, es @ [status_entry ready w
     [(''phase'', JStr (phase_str Failed)), (''observedGeneration'', JInt gen),
      (''conditions'', JArr [condition_json ''Evaluated'' CondFalse reason msg (clock ctx s) gen])]])"
  by (simp add: set_failed_def iso_now_def pbind_def send_unit_accepted[OF assms])

lemma update_status_accepted:
  assumes "accepting ctx rq s ready reply"
  shows "update_status ctx w (namespace_of w) p er n gen (s, es) =
     (Ok (), s, es @ [status_entry ready w (status_fields w p er n gen (clock ctx s))])"
  by (simp add: update_status_fields iso_now_def pbind_def send_unit_accepted[OF assms])

lemma count_accepted:
  assumes "accepting ctx rq s ready reply"
  shows "count_ready_replicas ctx w ns (s, es) = (Ok ready, s, es @ [asked ready (GetDeployment ns (name_any w))])"
  by (simp add: count_ready_replicas_def pbind_def send_accepted[OF assms] cluster_answer_def)

lemma children_accepted:
  assumes "accepting ctx rq s ready reply"
  shows "piter (\<lambda>c. send_unit ctx (ApplyChild c)) cs (s, es) = (Ok (), s, es @ map (\<lambda>c. asked ready (ApplyChild c)) cs)"
  by (induction cs arbitrary: es) (simp_all add: pbind_def send_unit_accepted[OF assms])

lemma webhook_accepted:
  assumes "accepting ctx (webhook_request w) s ready reply"
  shows "call_eval_webhook ctx w (s, es) = (webhook_result ctx reply, s,
     es @ [Posted (webhook_url ctx) (webhook_request w) (eval_timeout (op_config ctx)) reply])"
  using assms by (simp add: call_eval_webhook_def accepting_def Let_def)

lemmas accepted = publish_accepted set_phase_accepted set_failed_accepted update_status_accepted count_accepted
  children_accepted webhook_accepted

subsection \<open>The object after a run\<close>

lemma object_after_append: "object_after ns nm (es @ es') obj = object_after ns nm es' (object_after ns nm es obj)"
  by (simp add: object_after_def)

lemma object_after_simps [simp]:
  "object_after ns nm [] obj = obj"
  "object_after ns nm (asked n (PublishEvent ev ob) # es) obj = object_after ns nm es obj"
  "object_after ns nm (asked n (GetDeployment ns' nm') # es) obj = object_after ns nm es obj"
  "object_after ns nm (asked n (PatchStatus ns nm p) # es) obj = object_after ns nm es (merge_patch obj p)"
  "object_after ns nm (asked n (PatchWorkload ns nm p) # es) obj = object_after ns nm es (merge_patch obj p)"
  "object_after ns nm (Posted url req t reply # es) obj = object_after ns nm es obj"
  "object_after ns nm (map (\<lambda>c. asked n (ApplyChild c)) cs @ es) obj = object_after ns nm es obj"
proof -
  show "object_after ns nm (map (\<lambda>c. asked n (ApplyChild c)) cs @ es) obj = object_after ns nm es obj"
    by (induction cs) (simp_all add: object_after_def patch_of_def)
qed (simp_all add: object_after_def patch_of_def)

text \<open>The workload as read from an object, and the objects it can be read from and that take patches of the status.\<close>

definition seen :: "niphas_workload \<Rightarrow> string list option \<Rightarrow> niphas_workload_status \<Rightarrow> niphas_workload" where
  "seen w fs st = w\<lparr>metadata := (metadata w)\<lparr>finalizers := fs\<rparr>, status_of := Some st\<rparr>"

definition stored :: "json \<Rightarrow> string list option \<Rightarrow> niphas_workload_status \<Rightarrow> bool" where
  "stored obj fs st \<longleftrightarrow> read_finalizers obj = Some fs \<and>
     (\<exists>j. status_value j = Some st \<and> (\<forall>f. jget (merge_patch obj (status_patch f)) ''status'' = Some (merge_patch j (JObj f))))"

lemma status_value_empty: "status_value (JObj []) = Some default_status"
  by (simp add: status_value_def field_opt_def default_status_def)

lemma merge_absent: "merge_patch JNull (JObj f) = merge_patch (JObj []) (JObj f)"
  by (simp add: merge_patch.simps)

lemma stored_read:
  assumes "read_finalizers obj = Some fs" "field_opt status_value ''status'' obj = Some st"
  shows "stored obj fs (the_or default_status st)"
proof -
  let ?v = "jget obj ''status''"
  have get: "jget (merge_patch obj (status_patch f)) ''status'' = Some (merge_patch (the_or JNull ?v) (JObj f))" for f
    by (simp add: status_patch_def jget_merge the_or_def split: option.splits)
  show ?thesis
  proof (cases "?v = None \<or> ?v = Some JNull")
    case True
    then have "st = None" "the_or JNull ?v = JNull" using assms(2) by (auto simp: field_opt_def)
    then show ?thesis using assms(1) get status_value_empty by (auto simp: stored_def merge_absent)
  next
    case False
    then obtain j where j: "?v = Some j" "j \<noteq> JNull" by (cases ?v) auto
    then obtain st' where "status_value j = Some st'" "st = Some st'"
      using assms(2) by (auto simp: field_opt_value)
    then show ?thesis using assms(1) get j by (auto simp: stored_def)
  qed
qed

lemma merge_not_null: "merge_patch j (JObj f) \<noteq> JNull"
  by (simp add: merge_patch.simps)

lemma stored_patch:
  assumes st: "stored obj fs st" and v: "\<And>j. status_value j = Some st \<Longrightarrow> status_value (merge_patch j (JObj f)) = Some st'"
  shows "stored (merge_patch obj (status_patch f)) fs st'" "read_workload w (merge_patch obj (status_patch f)) = Some (seen w fs st')"
proof -
  let ?obj = "merge_patch obj (status_patch f)"
  have meta: "jget ?obj ''metadata'' = jget obj ''metadata''" by (simp add: status_patch_def jget_merge)
  then have fs: "read_finalizers ?obj = Some fs" using st by (simp add: stored_def read_finalizers_def)
  obtain j where j: "status_value j = Some st" "jget ?obj ''status'' = Some (merge_patch j (JObj f))"
    using st by (auto simp: stored_def)
  have rd: "field_opt status_value ''status'' ?obj = Some (Some st')"
    using j v[OF j(1)] merge_not_null by (simp add: field_opt_value)
  show "stored ?obj fs st'" using stored_read[OF fs rd] by simp
  show "read_workload w ?obj = Some (seen w fs st')" by (simp add: read_workload_def fs rd seen_def)
qed

lemma seen_simps [simp]:
  "namespace_of (seen w fs st) = namespace_of w" "name_any (seen w fs st) = name_any w"
  "spec (seen w fs st) = spec w" "status_of (seen w fs st) = Some st"
  "generation (metadata (seen w fs st)) = generation (metadata w)"
  "deletion_timestamp (metadata (seen w fs st)) = deletion_timestamp (metadata w)"
  "webhook_request (seen w fs st) = webhook_request w"
  "finalizers (metadata (seen w fs st)) = fs" "meta_uid (metadata (seen w fs st)) = meta_uid (metadata w)"
  "seen (seen w fs st) fs' st' = seen w fs' st'"
  by (simp_all add: seen_def namespace_of_def name_any_def webhook_request_def split: option.splits)

lemma seen_children [simp]: "children (seen w fs st) er = children w er"
  by (simp add: children_def build_deployment_def build_service_def build_ingress_def build_pdb_def
      child_metadata_def owner_reference_def Let_def cong: option.case_cong)

subsection \<open>Rounds\<close>

definition reported :: "niphas_workload \<Rightarrow> workload_phase \<Rightarrow> eval_response \<Rightarrow> int \<Rightarrow> int \<Rightarrow> string \<Rightarrow>
  niphas_workload_status \<Rightarrow> niphas_workload_status" where
  "reported w p er ready gen now st = st\<lparr>st_phase := p, st_observed_generation := Some gen,
     st_store_path := Some (resp_store_path er), st_resolved_command := Some (resolved_command er),
     st_closure_paths := Some (closure_paths er), st_ready_replicas := Some ready,
     st_conditions := list_value condition_value
       (JArr (status_conditions p er ready (the_or 1 (ws_replicas (spec w))) gen now))\<rparr>"

abbreviation desired :: "niphas_workload \<Rightarrow> int" where
  "desired w \<equiv> the_or 1 (ws_replicas (spec w))"

abbreviation gen_of :: "niphas_workload \<Rightarrow> int" where
  "gen_of w \<equiv> the_or 0 (generation (metadata w))"

definition provision_log :: "int \<Rightarrow> niphas_workload \<Rightarrow> eval_response \<Rightarrow> string \<Rightarrow> entry list" where
  "provision_log ready w er now =
     status_entry ready w [(''phase'', JStr (phase_str Provisioning))] #
     map (\<lambda>c. asked ready (ApplyChild c)) (children w er) @
     [event_entry ready w NormalEvent ''Provisioned'' ''Child resources applied'',
      asked ready (GetDeployment (namespace_of w) (name_any w)),
      event_entry ready w NormalEvent ''Available'' ''All replicas ready'',
      status_entry ready w (status_fields w Running er ready (gen_of w) now)]"

lemma provision_accepted:
  assumes "accepting ctx (webhook_request w) s ready reply" "desired w \<le> ready"
  shows "provision ctx w (namespace_of w) (gen_of w) er (s, es) = (Ok (Requeue 300), s, es @ provision_log ready w er (clock ctx s))"
  using assms(2)
  by (simp add: provision_def report_def pmatch_def pbind_def apply_children accepted[OF assms(1)] provision_log_def Let_def)

definition evaluation_log :: "'s operator_context \<Rightarrow> int \<Rightarrow> http_reply \<Rightarrow> niphas_workload \<Rightarrow> entry list" where
  "evaluation_log ctx ready reply w =
     [status_entry ready w [(''phase'', JStr (phase_str Evaluating))],
      event_entry ready w NormalEvent ''EvalStarted'' ''Starting flake evaluation'',
      Posted (webhook_url ctx) (webhook_request w) (eval_timeout (op_config ctx)) reply]"

lemma evaluate_now_accepted:
  assumes acc: "accepting ctx (webhook_request w) s ready reply"
  shows "webhook_result ctx reply = Ok er \<Longrightarrow> evaluate_now ctx w (namespace_of w) (gen_of w) (s, es) =
      (Ok (Inr er), s, es @ evaluation_log ctx ready reply w @
        [event_entry ready w NormalEvent ''EvalSucceeded'' (''Resolved store path: '' @ resp_store_path er)])"
    "webhook_result ctx reply = Err e \<Longrightarrow> failure_event e = (reason, msg) \<Longrightarrow>
      evaluate_now ctx w (namespace_of w) (gen_of w) (s, es) =
      (Ok (Inl (Requeue 30)), s, es @ evaluation_log ctx ready reply w @
        [event_entry ready w WarningEvent reason msg, status_entry ready w
           [(''phase'', JStr (phase_str Failed)), (''observedGeneration'', JInt (gen_of w)),
            (''conditions'', JArr [condition_json ''Evaluated'' CondFalse reason msg (clock ctx s) (gen_of w)])]])"
  by (simp_all add: evaluate_now_def pmatch_def pbind_def accepted[OF acc] evaluation_log_def)

definition quiet :: "niphas_workload \<Rightarrow> bool" where
  "quiet w \<longleftrightarrow> observed_generation w \<ge> gen_of w \<and> map_option st_phase (status_of w) = Some Running"

lemma reconcile_quiet: "live w \<Longrightarrow> quiet w \<Longrightarrow> reconcile ctx w (s, es) = (Ok (Requeue 300), s, es)"
  by (simp add: reconcile_live quiet_def Let_def)

lemma reconcile_busy:
  "live w \<Longrightarrow> \<not> quiet w \<Longrightarrow> reconcile ctx w =
     pbind (if evaluates w then evaluate_now ctx w (namespace_of w) (gen_of w) else evaluate_cached ctx w (namespace_of w) (gen_of w))
       (\<lambda>r. case r of Inl act \<Rightarrow> pret act | Inr er \<Rightarrow> provision ctx w (namespace_of w) (gen_of w) er)"
  by (auto simp: reconcile_live quiet_def Let_def)

text \<open>The status that the patches of provisioning leave.\<close>

lemma provision_stored:
  assumes "stored obj fs st" "i64 (gen_of w)" "i32 ready"
  shows "stored (object_after (namespace_of w) (name_any w) (provision_log ready w er now) obj) fs
      (reported w Running er ready (gen_of w) now st)"
    "read_workload w (object_after (namespace_of w) (name_any w) (provision_log ready w er now) obj) =
      Some (seen w fs (reported w Running er ready (gen_of w) now st))"
proof -
  have "stored (merge_patch obj (status_patch [(''phase'', JStr (phase_str Provisioning))])) fs (st\<lparr>st_phase := Provisioning\<rparr>)"
    by (rule stored_patch(1)[OF assms(1) read_phase_patch])
  note patched = stored_patch[OF this, of "status_fields w Running er ready (gen_of w) now" "reported w Running er ready (gen_of w) now st"]
  have "status_value (merge_patch j (JObj (status_fields w Running er ready (gen_of w) now))) =
      Some (reported w Running er ready (gen_of w) now st)" if "status_value j = Some (st\<lparr>st_phase := Provisioning\<rparr>)" for j
    using read_status_patch[OF that assms(2,3)] by (simp add: reported_def)
  with patched show "stored (object_after (namespace_of w) (name_any w) (provision_log ready w er now) obj) fs
      (reported w Running er ready (gen_of w) now st)"
    "read_workload w (object_after (namespace_of w) (name_any w) (provision_log ready w er now) obj) =
      Some (seen w fs (reported w Running er ready (gen_of w) now st))"
    by (simp_all add: provision_log_def)
qed

lemma evaluation_stored:
  assumes "stored obj fs st"
  shows "stored (object_after (namespace_of w) (name_any w) (evaluation_log ctx ready reply w) obj) fs (st\<lparr>st_phase := Evaluating\<rparr>)"
  using stored_patch(1)[OF assms read_phase_patch] by (simp add: evaluation_log_def)

text \<open>A round that evaluates with success, one that evaluates in vain, and one that uses the status.\<close>

definition success_log :: "'s operator_context \<Rightarrow> int \<Rightarrow> http_reply \<Rightarrow> niphas_workload \<Rightarrow> eval_response \<Rightarrow> string \<Rightarrow> entry list" where
  "success_log ctx ready reply w er now = evaluation_log ctx ready reply w @
     [event_entry ready w NormalEvent ''EvalSucceeded'' (''Resolved store path: '' @ resp_store_path er)] @ provision_log ready w er now"

lemma reconcile_evaluated:
  assumes "accepting ctx (webhook_request w) s ready reply" "webhook_result ctx reply = Ok er" "live w" "evaluates w" "\<not> quiet w" "desired w \<le> ready"
  shows "reconcile ctx w (s, []) = (Ok (Requeue 300), s, success_log ctx ready reply w er (clock ctx s))"
  using assms(4)
  by (simp add: reconcile_busy[OF assms(3,5)] pbind_def evaluate_now_accepted(1)[OF assms(1,2)] provision_accepted[OF assms(1,6)] success_log_def)

lemma round_evaluated:
  assumes "accepting ctx (webhook_request w) s ready reply" "webhook_result ctx reply = Ok er" "live w" "evaluates w" "\<not> quiet w"
    "desired w \<le> ready" "stored obj fs st" "i64 (gen_of w)" "i32 ready"
  shows "\<exists>es obj'. round ctx w obj s = (Ok (Requeue 300), s, es, obj') \<and> list_all (child_applied es) (children w er) \<and>
    stored obj' fs (reported w Running er ready (gen_of w) (clock ctx s) st) \<and>
    read_workload w obj' = Some (seen w fs (reported w Running er ready (gen_of w) (clock ctx s) st))"
proof -
  let ?es = "success_log ctx ready reply w er (clock ctx s)"
  let ?obj = "object_after (namespace_of w) (name_any w) ?es obj"
  note run = reconcile_evaluated[OF assms(1-6)]
  have st: "stored ?obj fs (reported w Running er ready (gen_of w) (clock ctx s) (st\<lparr>st_phase := Evaluating\<rparr>))"
    "read_workload w ?obj = Some (seen w fs (reported w Running er ready (gen_of w) (clock ctx s) (st\<lparr>st_phase := Evaluating\<rparr>)))"
    using provision_stored[OF evaluation_stored[OF assms(7)] assms(8,9)] by (simp_all add: success_log_def object_after_append)
  have "list_all (child_applied ?es) (children w er)"
    by (auto simp: list_all_iff child_applied_def provision_log_def success_log_def)
  then show ?thesis
    using run st by (simp add: round_def reported_def)
qed

definition failed_status :: "string \<Rightarrow> string \<Rightarrow> int \<Rightarrow> string \<Rightarrow> niphas_workload_status \<Rightarrow> niphas_workload_status" where
  "failed_status reason msg gen now st = st\<lparr>st_phase := Failed, st_observed_generation := Some gen,
     st_conditions := Some [condition_of ''Evaluated'' CondFalse reason msg now gen]\<rparr>"

lemma round_failed:
  assumes "accepting ctx (webhook_request w) s ready reply" "webhook_result ctx reply = Err e" "failure_event e = (reason, msg)"
    "live w" "evaluates w" "\<not> quiet w" "stored obj fs st" "i64 (gen_of w)"
  shows "\<exists>es obj'. round ctx w obj s = (Ok (Requeue 30), s, es, obj') \<and>
    stored obj' fs (failed_status reason msg (gen_of w) (clock ctx s) st) \<and>
    read_workload w obj' = Some (seen w fs (failed_status reason msg (gen_of w) (clock ctx s) st))"
proof -
  let ?f = "[(''phase'', JStr (phase_str Failed)), (''observedGeneration'', JInt (gen_of w)),
            (''conditions'', JArr [condition_json ''Evaluated'' CondFalse reason msg (clock ctx s) (gen_of w)])]"
  let ?es = "evaluation_log ctx ready reply w @ [event_entry ready w WarningEvent reason msg, status_entry ready w ?f]"
  let ?obj = "object_after (namespace_of w) (name_any w) ?es obj"
  let ?st = "failed_status reason msg (gen_of w) (clock ctx s) st"
  have run: "reconcile ctx w (s, []) = (Ok (Requeue 30), s, ?es)"
    using assms(5) by (simp add: reconcile_busy[OF assms(4,6)] pbind_def evaluate_now_accepted(2)[OF assms(1,2,3)])
  have "status_value (merge_patch j (JObj ?f)) = Some ?st" if "status_value j = Some (st\<lparr>st_phase := Evaluating\<rparr>)" for j
    using read_failed_patch[OF that assms(8)] by (simp add: failed_status_def)
  note stored_patch[OF evaluation_stored[OF assms(7)] this]
  then have "stored ?obj fs ?st" "read_workload w ?obj = Some (seen w fs ?st)"
    by (simp_all add: object_after_append)
  then show ?thesis using run by (auto simp: round_def)
qed

lemma round_cached:
  assumes "accepting ctx (webhook_request w) s ready reply" "status_of w = Some st" "from_status st = Some er" "live w" "\<not> evaluates w" "\<not> quiet w"
    "desired w \<le> ready" "stored obj fs st" "i64 (gen_of w)" "i32 ready"
  shows "\<exists>obj'. round ctx w obj s = (Ok (Requeue 300), s, provision_log ready w er (clock ctx s), obj') \<and>
    read_workload w obj' = Some (seen w fs (reported w Running er ready (gen_of w) (clock ctx s) st))"
proof -
  have "evaluate_cached ctx w (namespace_of w) (gen_of w) = pret (Inr er)"
    using evaluate_cached_result[OF assms(5), of ctx "namespace_of w" "gen_of w"] assms(2,3) by simp
  then have "reconcile ctx w (s, []) = (Ok (Requeue 300), s, provision_log ready w er (clock ctx s))"
    using assms(5) by (simp add: reconcile_busy[OF assms(4,6)] pbind_def provision_accepted[OF assms(1,7)])
  then show ?thesis using provision_stored(2)[OF assms(8,9,10)] by (simp add: round_def)
qed

lemma read_self:
  assumes "read_workload w obj = Some w"
  shows "read_finalizers obj = Some (finalizers (metadata w))" "field_opt status_value ''status'' obj = Some (status_of w)"
proof -
  obtain fs st where rd: "read_finalizers obj = Some fs" "field_opt status_value ''status'' obj = Some st"
      "w\<lparr>metadata := (metadata w)\<lparr>finalizers := fs\<rparr>, status_of := st\<rparr> = w"
    using assms by (auto simp: read_workload_def split: bind_splits)
  show "read_finalizers obj = Some (finalizers (metadata w))"
    using arg_cong[OF rd(3), of "\<lambda>w. finalizers (metadata w)"] rd(1) by simp
  show "field_opt status_value ''status'' obj = Some (status_of w)"
    using arg_cong[OF rd(3), of status_of] rd(2) by simp
qed

lemma finalizer_patch_read:
  assumes "read_finalizers obj = Some fs" "ss \<noteq> []"
  shows "read_finalizers (merge_patch obj (finalizers_patch (jstrs ss))) = Some (Some ss)"
    "jget (merge_patch obj (finalizers_patch v)) ''status'' = jget obj ''status''"
  by (simp_all add: read_finalizers_def finalizers_patch_def jget_merge field_opt_value)

definition deletion_log :: "int \<Rightarrow> niphas_workload \<Rightarrow> entry list" where
  "deletion_log ready w =
     [event_entry ready w NormalEvent ''Deleting'' (''Cleaning up workload '' @ name_any w),
      asked ready (PatchWorkload (namespace_of w) (name_any w)
        (finalizers_patch (if kept_finalizers w = [] then JNull else jstrs (kept_finalizers w))))]"

lemma reconcile_deletion:
  assumes "accepting ctx rq s ready reply" "deletion_timestamp (metadata w) \<noteq> None"
  shows "reconcile ctx w (s, []) = (Ok AwaitChange, s, deletion_log ready w)"
  using assms(2) send_unit_accepted[OF assms(1)] publish_accepted[OF assms(1)]
  by (simp add: reconcile_def handle_deletion_def remove_finalizer_def pbind_def Let_def kept_finalizers_def deletion_log_def)

text \<open>The first round of a workload without the finalizer.\<close>

lemma round_finalizer:
  assumes "accepting ctx (webhook_request w) s ready reply" "deletion_timestamp (metadata w) = None" "\<not> has_finalizer w" "read_workload w obj = Some w"
  shows "\<exists>es obj'. round ctx w obj s = (Ok (Requeue 0), s, es, obj') \<and>
    stored obj' (Some (added_finalizers w)) (the_or default_status (status_of w)) \<and>
    read_workload w obj' = Some (w\<lparr>metadata := (metadata w)\<lparr>finalizers := Some (added_finalizers w)\<rparr>\<rparr>)"
proof -
  let ?p = "finalizers_patch (jstrs (added_finalizers w))"
  let ?es = "[asked ready (PatchWorkload (namespace_of w) (name_any w) ?p)]" and ?obj = "merge_patch obj ?p"
  have "\<not> list_ex (\<lambda>f. f = FINALIZER) (the_or [] (finalizers (metadata w)))"
    using assms(3) by (simp add: has_finalizer_def split: option.splits)
  then have run: "reconcile ctx w (s, []) = (Ok (Requeue 0), s, ?es)"
    using assms(2,3) send_unit_accepted[OF assms(1)]
    by (simp add: reconcile_def pbind_def add_finalizer_def added_finalizers_def Let_def)
  note rd = read_self[OF assms(4)]
  have rd': "read_finalizers ?obj = Some (Some (added_finalizers w))" "field_opt status_value ''status'' ?obj = Some (status_of w)"
    using finalizer_patch_read[OF rd(1), of "added_finalizers w"] rd(2) by (simp_all add: added_finalizers_def field_opt_def)
  have "w\<lparr>metadata := (metadata w)\<lparr>finalizers := Some (added_finalizers w)\<rparr>, status_of := status_of w\<rparr> =
      w\<lparr>metadata := (metadata w)\<lparr>finalizers := Some (added_finalizers w)\<rparr>\<rparr>" by simp
  with run stored_read[OF rd'] rd' show ?thesis by (simp add: round_def read_workload_def)
qed

subsection \<open>Workloads with other finalizers\<close>

abbreviation with_finalizers :: "niphas_workload \<Rightarrow> string list option \<Rightarrow> niphas_workload" where
  "with_finalizers w fs \<equiv> w\<lparr>metadata := (metadata w)\<lparr>finalizers := fs\<rparr>\<rparr>"

lemma with_finalizers_simps [simp]:
  "namespace_of (with_finalizers w fs) = namespace_of w" "name_any (with_finalizers w fs) = name_any w"
  "seen (with_finalizers w fs) fs' st = seen w fs' st" "webhook_request (with_finalizers w fs) = webhook_request w"
  "read_workload (with_finalizers w fs) obj = read_workload w obj"
  "observed_generation (with_finalizers w fs) = observed_generation w"
  by (simp_all add: seen_def namespace_of_def name_any_def read_workload_def observed_generation_def webhook_request_def split: option.splits)

lemma with_finalizers_children [simp]: "children (with_finalizers w fs) er = children w er"
  by (simp add: children_def build_deployment_def build_service_def build_ingress_def build_pdb_def
      child_metadata_def owner_reference_def Let_def cong: option.case_cong)

lemma has_finalizer_added: "has_finalizer (with_finalizers w (Some (added_finalizers w)))"
  by (simp add: has_finalizer_def added_finalizers_def)

lemma has_finalizer_iff: "has_finalizer w \<longleftrightarrow> (\<exists>fs. finalizers (metadata w) = Some fs \<and> FINALIZER \<in> set fs)"
  by (auto simp: has_finalizer_def list_ex_iff split: option.splits)

lemma seen_live: "live w \<Longrightarrow> live (seen w (finalizers (metadata w)) st)"
  by (simp add: live_def has_finalizer_iff)

lemma seen_quiet [simp]: "quiet (seen w fs (reported w' Running er ready (gen_of w) now st))"
  by (simp add: quiet_def observed_generation_def reported_def)

lemma round_quiet: "live w \<Longrightarrow> quiet w \<Longrightarrow> round ctx w obj s = (Ok (Requeue 300), s, [], obj)"
  by (simp add: round_def reconcile_quiet)

lemma last_split: "c \<notin> set b \<Longrightarrow> last (split_char c (a @ c # b)) = b"
proof (induction a)
  case Nil
  then have "split_list (\<lambda>x. x = c) b = [b]" by (intro split_list_no_sep) auto
  then show ?case by (simp add: split_char_def)
next
  case (Cons x a)
  then have "last (split_list (\<lambda>x. x = c) (a @ c # b)) = b" by (simp add: split_char_def)
  moreover have "split_list (\<lambda>x. x = c) (a @ c # b) \<noteq> []" "tl (split_list (\<lambda>x. x = c) (a @ c # b)) \<noteq> []" by (induction a) auto
  ultimately show ?case by (auto simp: split_char_def last_tl)
qed

section \<open>A sample\<close>

text \<open>A workload, its object and a cluster with one ready replica, for the witnesses.\<close>

definition sample_spec :: niphas_workload_spec where
  "sample_spec = \<lparr>ws_flake_ref = ''github:o/r'', ws_attribute = ''a'', ws_revision = None, ws_replicas = None,
     ws_binary_cache = None, ws_command = None, ws_args = None, ws_env = None, ws_ports = None, ws_resources = None,
     ws_liveness_probe = None, ws_readiness_probe = None, ws_startup_probe = None, ws_node_selector = None,
     ws_tolerations = None, ws_affinity = None, ws_service = None, ws_ingress = None, ws_extra_volumes = None,
     ws_extra_volume_mounts = None, ws_architectures = None\<rparr>"

definition sample_workload :: "string option \<Rightarrow> string list option \<Rightarrow> niphas_workload_status option \<Rightarrow> niphas_workload" where
  "sample_workload deleted fs st =
     \<lparr>metadata = \<lparr>meta_name = Some ''app'', generate_name = None, meta_namespace = Some ''ns'', meta_uid = Some ''u'',
        generation = Some 1, deletion_timestamp = deleted, finalizers = fs\<rparr>,
      spec = sample_spec, status_of = st\<rparr>"

definition sample_answer :: eval_response where
  "sample_answer = \<lparr>resp_store_path = ''/nix/store/p'', resp_name = ''p'', main_program = None, closure_paths = [''/nix/store/p'']\<rparr>"

definition any_context :: "http_reply \<Rightarrow> 's operator_context" where
  "any_context reply =
     \<lparr>ask = (\<lambda>c s. (Ok (cluster_answer 1 c), s)), post = (\<lambda>url req t s. (reply, s)),
      decode_response = (\<lambda>b. Ok sample_answer), decode_error = (\<lambda>b. None), status_text = (\<lambda>n. []),
      clock = (\<lambda>s. ''t''), op_config = default_config\<rparr>"

abbreviation sample_context :: "http_reply \<Rightarrow> unit operator_context" where
  "sample_context \<equiv> any_context"

abbreviation good_reply :: http_reply where
  "good_reply \<equiv> Reply 200 (Ok [])"

definition stale_status :: niphas_workload_status where
  "stale_status = default_status\<lparr>st_phase := Running, st_observed_generation := Some 0, st_store_path := Some ''/nix/store/old''\<rparr>"

definition stale_object :: json where
  "stale_object = JObj [(''metadata'', JObj [(''finalizers'', jstrs [FINALIZER])]),
     (''status'', JObj [(''phase'', JStr (phase_str Running)), (''observedGeneration'', JInt 0), (''storePath'', JStr ''/nix/store/old'')])]"

lemma sample_accepting: "accepting (any_context reply) rq s 1 reply"
  by (simp add: accepting_def any_context_def)

lemma sample_evaluated: "webhook_result (any_context good_reply) good_reply = Ok sample_answer"
  "webhook_result (any_context ReplyTimeout) ReplyTimeout = Err (OpEvalTimeout 300)"
  by (simp_all add: webhook_result_def any_context_def default_config_def)

lemma sample_read:
  "read_workload (sample_workload d None None) (JObj [(''metadata'', JObj [])]) = Some (sample_workload d None None)"
  "read_workload (sample_workload d (Some [FINALIZER]) (Some stale_status)) stale_object =
     Some (sample_workload d (Some [FINALIZER]) (Some stale_status))"
  by (simp_all add: read_workload_def read_finalizers_def field_opt_def sample_workload_def stale_object_def stale_status_def
      status_value_def default_status_def int_value_def phase_value_def list_value_def phase_str.simps)

lemma sample_ranges: "i32 1" "i64 1"
  by (simp_all add: i32_def i64_def)

lemma sample_fields [simp]:
  "deletion_timestamp (metadata (sample_workload d fs st)) = d" "gen_of (sample_workload d fs st) = 1"
  "status_of (sample_workload d fs st) = st" "desired (sample_workload d fs st) = 1"
  "has_finalizer (sample_workload d (Some [FINALIZER]) st)" "\<not> has_finalizer (sample_workload d None st)"
  "observed_generation (sample_workload d fs st) = the_or 0 (Option.bind st st_observed_generation)"
  by (simp_all add: sample_workload_def sample_spec_def has_finalizer_def observed_generation_def)

abbreviation sample_deployment :: child where
  "sample_deployment \<equiv> \<lparr>child_kind = ''Deployment'', child_ns = ''ns'', child_name = ''app'',
     manifest = build_deployment (sample_workload None (Some [FINALIZER]) None) sample_answer ''app'' ''ns''\<rparr>"

lemma sample_deployed_run:
  "reconcile (sample_context good_reply) (sample_workload None (Some [FINALIZER]) None) ((), []) =
     (Ok (Requeue 300), (), [] @ success_log (sample_context good_reply) 1 good_reply (sample_workload None (Some [FINALIZER]) None)
        sample_answer (clock (sample_context good_reply) ()))"
  "asked 1 (ApplyChild sample_deployment) \<in>
     set (success_log (sample_context good_reply) 1 good_reply (sample_workload None (Some [FINALIZER]) None)
        sample_answer (clock (sample_context good_reply) ()))"
proof -
  let ?w = "sample_workload None (Some [FINALIZER]) None"
  have "live ?w" "\<not> quiet ?w" "evaluates ?w"
    by (simp_all add: live_def quiet_def evaluates_def needs_eval_def)
  then show "reconcile (sample_context good_reply) ?w ((), []) =
     (Ok (Requeue 300), (), [] @ success_log (sample_context good_reply) 1 good_reply ?w sample_answer (clock (sample_context good_reply) ()))"
    using reconcile_evaluated[OF sample_accepting sample_evaluated(1), of ?w] by simp
  have "sample_deployment \<in> set (children ?w sample_answer)"
    by (simp add: children_def Let_def namespace_of_def name_any_def sample_workload_def)
  then show "asked 1 (ApplyChild sample_deployment) \<in>
      set (success_log (sample_context good_reply) 1 good_reply ?w sample_answer (clock (sample_context good_reply) ()))"
    by (simp add: success_log_def provision_log_def)
qed

section \<open>The history of a workload\<close>

text \<open>The service answered a request with an evaluation.\<close>

definition answers :: "'s operator_context \<Rightarrow> eval_request \<Rightarrow> eval_response \<Rightarrow> bool" where
  "answers ctx req er \<longleftrightarrow> (\<exists>url t reply. replies ctx url req t reply \<and> webhook_result ctx reply = Ok er)"

text \<open>The objects that a workload can become: it is created without a status, users change anything but its status, and the operator
  reconciles it with any object of its history as its cache has it, whatever the cluster and the service answer.\<close>

inductive history :: "'s operator_context \<Rightarrow> json \<Rightarrow> bool" for ctx where
  created: "jget obj ''status'' = None \<Longrightarrow> history ctx obj"
| edited: "history ctx obj \<Longrightarrow> jget obj' ''status'' = jget obj ''status'' \<Longrightarrow> history ctx obj'"
| reconciled: "history ctx obj \<Longrightarrow> history ctx cached \<Longrightarrow> read_workload w cached = Some w \<Longrightarrow>
    round ctx w obj s = (r, s', es, obj') \<Longrightarrow> history ctx obj'"

definition earned_status :: "'s operator_context \<Rightarrow> json \<Rightarrow> bool" where
  "earned_status ctx j \<longleftrightarrow> jget j ''storePath'' = None \<or> (\<exists>req er. answers ctx req er \<and>
     jget j ''storePath'' = Some (JStr (resp_store_path er)) \<and> jget j ''closurePaths'' = Some (jstrs (closure_paths er)))"

definition earned :: "'s operator_context \<Rightarrow> json \<Rightarrow> bool" where
  "earned ctx obj \<longleftrightarrow> (\<forall>j. jget obj ''status'' = Some j \<longrightarrow> earned_status ctx j)"

lemma earned_merge:
  assumes "earned ctx obj" "distinct (map fst fs)"
    and "map_of fs ''storePath'' = None \<and> map_of fs ''closurePaths'' = None \<or>
      (\<exists>er req. answers ctx req er \<and> map_of fs ''storePath'' = Some (JStr (resp_store_path er)) \<and>
         map_of fs ''closurePaths'' = Some (jstrs (closure_paths er)))"
  shows "earned ctx (merge_patch obj (status_patch fs))"
proof -
  let ?old = "the_or JNull (jget obj ''status'')"
  have old: "earned_status ctx ?old" using assms(1)
    by (cases "jget obj ''status''") (auto simp: earned_def earned_status_def jget_def)
  have "earned_status ctx (merge_patch ?old (JObj fs))"
    using assms(3)
  proof (elim disjE exE conjE)
    assume none: "map_of fs ''storePath'' = None" "map_of fs ''closurePaths'' = None"
    show ?thesis using old by (simp add: earned_status_def jget_merge[OF assms(2)] none)
  next
    fix er req
    assume er: "answers ctx req er" "map_of fs ''storePath'' = Some (JStr (resp_store_path er))"
      "map_of fs ''closurePaths'' = Some (jstrs (closure_paths er))"
    then show ?thesis by (auto simp: earned_status_def jget_merge[OF assms(2)])
  qed
  moreover have "jget (merge_patch obj (status_patch fs)) ''status'' = Some (merge_patch ?old (JObj fs))"
    by (simp add: status_patch_def jget_merge the_or_def split: option.splits)
  ultimately show ?thesis by (simp add: earned_def)
qed

text \<open>The entries that keep the store path of the status earned.\<close>

definition keeps_earned :: "'s operator_context \<Rightarrow> entry \<Rightarrow> bool" where
  "keeps_earned ctx en \<longleftrightarrow> (\<forall>ns nm p obj. patch_of ns nm en = Some p \<longrightarrow> earned ctx obj \<longrightarrow> earned ctx (merge_patch obj p))"

lemma earned_after: "list_all (keeps_earned ctx) es \<Longrightarrow> earned ctx obj \<Longrightarrow> earned ctx (object_after ns nm es obj)"
proof (induction es arbitrary: obj)
  case (Cons en es)
  have "earned ctx (case patch_of ns nm en of Some p \<Rightarrow> merge_patch obj p | None \<Rightarrow> obj)"
    using Cons.prems by (auto simp: keeps_earned_def split: option.split)
  then show ?case using Cons by (simp add: object_after_def)
qed (simp add: object_after_def)

lemma evaluated_earned:
  assumes "earned ctx cached" "read_workload w cached = Some w" "list_all (permitted ctx w) new" "evaluated_to ctx w new er"
  shows "\<exists>req er'. answers ctx req er' \<and> resp_store_path er' = resp_store_path er \<and> closure_paths er' = closure_paths er"
proof (cases "evaluates w")
  case True
  then show ?thesis using assms(3,4) by (fastforce simp: evaluated_to_def answers_def list_all_iff permitted_def)
next
  case False
  then obtain st where st: "status_of w = Some st" "from_status st = Some er"
    using assms(4) by (cases "status_of w") (auto simp: evaluates_def needs_eval_def evaluated_to_def split: if_splits)
  then obtain path where path: "st_store_path st = Some path" "resp_store_path er = path" "closure_paths er = the_or [] (st_closure_paths st)"
    by (auto simp: from_status_def split: option.splits)
  obtain j where j: "jget cached ''status'' = Some j" "status_value j = Some st"
    using read_self(2)[OF assms(2)] st(1) by (auto simp: field_opt_def split: option.splits json.splits)
  have val: "field_opt str_value ''storePath'' j = Some (Some path)"
      "field_opt (list_value str_value) ''closurePaths'' j = Some (st_closure_paths st)"
    using status_value_parts(3,5)[OF j(2)] path(1) by simp_all
  have "jget j ''storePath'' \<noteq> None" using val(1) by (cases "jget j ''storePath''") (simp_all add: field_opt_def)
  then obtain req er' where er': "answers ctx req er'" "jget j ''storePath'' = Some (JStr (resp_store_path er'))"
      "jget j ''closurePaths'' = Some (jstrs (closure_paths er'))"
    using assms(1) j(1) by (auto simp: earned_def earned_status_def)
  then have "path = resp_store_path er'" "st_closure_paths st = Some (closure_paths er')"
    using val by (auto simp: field_opt_value)
  then show ?thesis using er'(1) path by auto
qed

lemma patched_entry:
  assumes "patch_of ns nm en = Some p"
  obtains x where "en = Asked (PatchWorkload ns nm p) (Ok x)" | x where "en = Asked (PatchStatus ns nm p) (Ok x)"
  using assms by (auto simp: patch_of_def split: entry.splits call.splits outcome.splits if_splits)

lemma entries_keep_earned:
  assumes "earned ctx cached" "read_workload w cached = Some w" "reconcile ctx w (s, es) = (r, s', es @ new)"
  shows "list_all (keeps_earned ctx) new"
  unfolding list_all_iff
proof
  fix en
  assume en: "en \<in> set new"
  have log: "list_all (permitted ctx w) new" using reconcile_log[OF assms(3)] by auto
  obtain ans where ans: "built_from w ans en" "\<And>er. ans = Some er \<Longrightarrow> evaluated_to ctx w new er"
    using tracedD[OF reconcile_built assms(3)] en by fastforce
  show "keeps_earned ctx en"
    unfolding keeps_earned_def
  proof (intro allI impI)
    fix ns nm p obj
    assume p: "patch_of ns nm en = Some p" and obj: "earned ctx obj"
    have perm: "permitted ctx w en" using log en by (simp add: list_all_iff)
    from p show "earned ctx (merge_patch obj p)"
    proof (cases rule: patched_entry)
      case (1 x)
      then obtain v where "p = finalizers_patch v" using perm by (simp add: permitted_def split: if_splits)
      then show ?thesis using obj by (simp add: earned_def finalizers_patch_def jget_merge)
    next
      case (2 x)
      then obtain fs where fs: "p = status_patch fs" "distinct (map fst fs)"
          "map_of fs ''storePath'' = None \<and> map_of fs ''closurePaths'' = None \<or>
           (\<exists>er. ans = Some er \<and> map_of fs ''storePath'' = Some (JStr (resp_store_path er)) \<and>
              map_of fs ''closurePaths'' = Some (jstrs (closure_paths er)))"
        using ans(1) unfolding built_from_def 2 entry.case call.case by blast
      from fs(3) have "map_of fs ''storePath'' = None \<and> map_of fs ''closurePaths'' = None \<or>
          (\<exists>er req. answers ctx req er \<and> map_of fs ''storePath'' = Some (JStr (resp_store_path er)) \<and>
             map_of fs ''closurePaths'' = Some (jstrs (closure_paths er)))"
        using evaluated_earned[OF assms(1,2) log ans(2)] by metis
      then show ?thesis unfolding fs(1) by (rule earned_merge[OF obj fs(2)])
    qed
  qed
qed

lemma history_earned: "history ctx obj \<Longrightarrow> earned ctx obj"
proof (induction rule: history.induct)
  case (reconciled obj cached w s r s' es obj')
  obtain es' where run: "reconcile ctx w (s, []) = (r, s', es')" "obj' = object_after (namespace_of w) (name_any w) es' obj"
    using reconciled.hyps(4) by (auto simp: round_def split: prod.splits)
  have "list_all (keeps_earned ctx) es'"
    using entries_keep_earned[OF reconciled.IH(2) reconciled.hyps(3), of s "[]"] run(1) by simp
  then show ?case unfolding run(2) by (rule earned_after) (rule reconciled.IH(1))
qed (simp_all add: earned_def)

lemma deployed_answered:
  assumes "history ctx cached" "read_workload w cached = Some w"
    "reconcile ctx w (s, es) = (r, s', es @ new)" "Asked (ApplyChild c) a \<in> set new"
  shows "\<exists>er req er'. c \<in> set (children w er) \<and> answers ctx req er' \<and>
    resp_store_path er' = resp_store_path er \<and> closure_paths er' = closure_paths er"
proof -
  obtain er where er: "evaluated_to ctx w new er" "c \<in> set (children w er)" using applied_from[OF assms(3,4)] by blast
  have "list_all (permitted ctx w) new" using reconcile_log[OF assms(3)] by auto
  from evaluated_earned[OF history_earned[OF assms(1)] assms(2) this er(1)] er(2) show ?thesis by blast
qed

section \<open>Properties\<close>

text \<open>C11. A workload that the cluster accepts and the evaluation service can evaluate comes up: the first reconciliation adds the
  finalizer, the second evaluates, applies every child resource and reports the phase Running for the current generation with
  the resolved store path, and from then on reconciliations ask for nothing.\<close>

theorem reconcile_converges:
  assumes acc: "accepting ctx (webhook_request w) s ready reply" "webhook_result ctx reply = Ok er"
    and w: "deletion_timestamp (metadata w) = None" "\<not> has_finalizer w" "read_workload w obj = Some w"
    and gen: "observed_generation w < gen_of w" "i64 (gen_of w)" and ready: "desired w \<le> ready" "i32 ready"
  shows "\<exists>es1 obj1 w1 es2 obj2 w2 st. round ctx w obj s = (Ok (Requeue 0), s, es1, obj1) \<and> read_workload w obj1 = Some w1 \<and>
    round ctx w1 obj1 s = (Ok (Requeue 300), s, es2, obj2) \<and> list_all (child_applied es2) (children w er) \<and>
    read_workload w obj2 = Some w2 \<and> status_of w2 = Some st \<and> st_phase st = Running \<and>
    st_store_path st = Some (resp_store_path er) \<and> st_observed_generation st = Some (gen_of w) \<and>
    round ctx w2 obj2 s = (Ok (Requeue 300), s, [], obj2)"
proof -
  let ?w1 = "with_finalizers w (Some (added_finalizers w))" and ?old = "the_or default_status (status_of w)"
  let ?st = "reported w Running er ready (gen_of w) (clock ctx s) ?old"
  obtain es1 obj1 where r1: "round ctx w obj s = (Ok (Requeue 0), s, es1, obj1)"
      "stored obj1 (Some (added_finalizers w)) ?old" "read_workload w obj1 = Some ?w1"
    using round_finalizer[OF acc(1) w] by blast
  have live: "live ?w1" using w has_finalizer_added by (simp add: live_def)
  moreover have "evaluates ?w1" "\<not> quiet ?w1"
    using gen by (simp_all add: evaluates_def needs_eval_def quiet_def)
  ultimately obtain es2 obj2 where r2: "round ctx ?w1 obj1 s = (Ok (Requeue 300), s, es2, obj2)"
      "list_all (child_applied es2) (children w er)"
      "read_workload w obj2 = Some (seen w (Some (added_finalizers w)) (reported ?w1 Running er ready (gen_of w) (clock ctx s) ?old))"
    using round_evaluated[of ctx ?w1 s ready reply er obj1 _ ?old, OF _ acc(2) live _ _ _ r1(2)] acc(1) ready gen(2) by auto
  moreover have "reported ?w1 Running er ready (gen_of w) (clock ctx s) ?old = ?st" by (simp add: reported_def)
  moreover have "live (seen w (Some (added_finalizers w)) ?st)"
    using w by (simp add: live_def has_finalizer_iff added_finalizers_def)
  moreover have "st_phase ?st = Running" "st_store_path ?st = Some (resp_store_path er)" "st_observed_generation ?st = Some (gen_of w)"
    by (simp_all add: reported_def)
  ultimately show ?thesis
    using r1 round_quiet[OF _ seen_quiet] by (metis seen_simps(4))
qed

theorem reconcile_converges_witness:
  "\<exists>es1 obj1 w1 es2 obj2 w2 st.
    round (sample_context good_reply) (sample_workload None None None) (JObj [(''metadata'', JObj [])]) () = (Ok (Requeue 0), (), es1, obj1) \<and>
    read_workload (sample_workload None None None) obj1 = Some w1 \<and>
    round (sample_context good_reply) w1 obj1 () = (Ok (Requeue 300), (), es2, obj2) \<and>
    list_all (child_applied es2) (children (sample_workload None None None) sample_answer) \<and>
    read_workload (sample_workload None None None) obj2 = Some w2 \<and> status_of w2 = Some st \<and> st_phase st = Running \<and>
    st_store_path st = Some (resp_store_path sample_answer) \<and> st_observed_generation st = Some (gen_of (sample_workload None None None)) \<and>
    round (sample_context good_reply) w2 obj2 () = (Ok (Requeue 300), (), [], obj2)"
  by (rule reconcile_converges[OF sample_accepting sample_evaluated(1) _ _ sample_read(1)]) (simp_all add: sample_ranges)



text \<open>C5. Whatever the cluster and the evaluation service answer, a reconciliation only asks for what it may: it evaluates and changes child
  resources or the status only for a workload that is not being deleted and has the finalizer, sends the evaluation service
  the request of the specification and only when the generation is new or there is no store path, applies only children of the workload,
  patches only this workload and of its metadata only the finalizers: adding its own to those of others, or removing its own and keeping the
  others once the workload is being deleted.\<close>

theorem reconcile_permitted:
  assumes "reconcile ctx w (s, es) = (r, s', es')"
  shows "\<exists>new. es' = es @ new \<and> list_all (permitted ctx w) new"
  using reconcile_log[OF assms] by blast

theorem reconcile_permitted_witness:
  "\<exists>new. snd (snd (reconcile (sample_context good_reply) (sample_workload None None None) ((), []))) = [] @ new \<and>
     list_all (permitted (sample_context good_reply) (sample_workload None None None)) new"
proof -
  obtain r s' es' where run: "reconcile (sample_context good_reply) (sample_workload None None None) ((), []) = (r, s', es')"
    by (metis prod_cases3)
  show ?thesis using reconcile_permitted[OF run] run by simp
qed



text \<open>C1. A status patch with the phase Running is only sent when the API server answered in the same reconciliation that at least the
  desired number of replicas is ready and accepted every child resource; the patch has the generation of the workload and the store path
  that the evaluation service returned in this reconciliation or, when no evaluation was due, that the status had; after a failed evaluation
  of the generation that is the store path of an earlier one.\<close>

theorem running_justified:
  assumes "reconcile ctx w (s, es) = (r, s', es @ new)" "Asked (PatchStatus ns nm p) a \<in> set new"
    "jpath p [''status'', ''phase''] = Some (JStr ''Running'')"
  shows "\<exists>er d. evaluated_to ctx w new er \<and> list_all (child_applied new) (children w er) \<and>
    Asked (GetDeployment (namespace_of w) (name_any w)) (Ok d) \<in> set new \<and> desired w \<le> ready_answer d \<and>
    jpath p [''status'', ''storePath''] = Some (JStr (resp_store_path er)) \<and>
    jpath p [''status'', ''observedGeneration''] = Some (JInt (gen_of w))"
proof -
  have run: "says_running (Asked (PatchStatus ns nm p) a)"
    using assms(3) by (simp add: says_running_def phase_str.simps del: jpath.simps)
  have "running_backed ctx w new (Asked (PatchStatus ns nm p) a)"
    using tracedD[OF reconcile_is_backed assms(1)] assms(2) run by (auto simp: backed_def)
  then obtain er d now where "evaluated_to ctx w new er" "list_all (child_applied new) (children w er)"
      "p = status_patch (status_fields w Running er (ready_answer d) (gen_of w) now)" "desired w \<le> ready_answer d"
      "Asked (GetDeployment (namespace_of w) (name_any w)) (Ok d) \<in> set new"
    by (auto simp: running_backed_def provision_backed_def ready_backed_def)
  then show ?thesis
    by (intro exI[of _ er] exI[of _ d]) (simp add: status_patch_def status_fields_def)
qed

theorem running_justified_witness:
  "\<exists>new p er d. reconcile (sample_context good_reply) (sample_workload None (Some [FINALIZER]) None) ((), []) = (Ok (Requeue 300), (), [] @ new) \<and>
    Asked (PatchStatus ''ns'' ''app'' p) (Ok (cluster_answer 1 (PatchStatus ''ns'' ''app'' p))) \<in> set new \<and>
    evaluated_to (sample_context good_reply) (sample_workload None (Some [FINALIZER]) None) new er \<and>
    list_all (child_applied new) (children (sample_workload None (Some [FINALIZER]) None) er) \<and>
    Asked (GetDeployment ''ns'' ''app'') (Ok d) \<in> set new \<and> 1 \<le> ready_answer d \<and>
    jpath p [''status'', ''storePath''] = Some (JStr (resp_store_path er)) \<and>
    jpath p [''status'', ''observedGeneration''] = Some (JInt 1)"
proof -
  let ?w = "sample_workload None (Some [FINALIZER]) None" and ?ctx = "sample_context good_reply"
  let ?p = "status_patch (status_fields ?w Running sample_answer 1 (gen_of ?w) (clock ?ctx ()))"
  let ?new = "success_log ?ctx 1 good_reply ?w sample_answer (clock ?ctx ())"
  have names: "namespace_of ?w = ''ns''" "name_any ?w = ''app''" by (simp_all add: namespace_of_def name_any_def sample_workload_def)
  have mem: "Asked (PatchStatus ''ns'' ''app'' ?p) (Ok (cluster_answer 1 (PatchStatus ''ns'' ''app'' ?p))) \<in> set ?new"
    by (simp add: success_log_def provision_log_def names)
  have "jpath ?p [''status'', ''phase''] = Some (JStr ''Running'')"
    by (simp add: status_patch_def status_fields_def phase_str.simps)
  from running_justified[OF sample_deployed_run(1) mem this] obtain er d where
      "evaluated_to ?ctx ?w ?new er" "list_all (child_applied ?new) (children ?w er)"
      "Asked (GetDeployment ''ns'' ''app'') (Ok d) \<in> set ?new" "1 \<le> ready_answer d"
      "jpath ?p [''status'', ''storePath''] = Some (JStr (resp_store_path er))"
      "jpath ?p [''status'', ''observedGeneration''] = Some (JInt 1)"
    unfolding names sample_fields by blast
  with sample_deployed_run(1) mem show ?thesis by blast
qed

text \<open>C15. Every child resource that a reconciliation applies, whatever the specification and the answers, is one that the specification asks
  for (the Deployment always, the Service with a service, the Ingress with an ingress that is enabled, the
  PodDisruptionBudget from two replicas on), has the namespace of the workload and in its manifest the kind, the name and the
  namespace it is applied under and the label of the workload. It has the workload as its one owner, by version, kind, name and uid and as the controller
  that blocks a foreground deletion, exactly when the workload has a uid: without one the uid of the reference is the empty text, which names no object, and
  the garbage collection does not follow it.\<close>

theorem children_owned:
  assumes "reconcile ctx w (s, es) = (r, s', es @ new)" "Asked (ApplyChild c) a \<in> set new"
  shows "in_its_place w c \<and> (child_kind c, child_name c) \<in> wanted w \<and>
    (owned_by w c \<longleftrightarrow> meta_uid (metadata w) \<noteq> None \<and> meta_uid (metadata w) \<noteq> Some [])"
proof -
  obtain er where c: "c \<in> set (children w er)"
    using applied_from[OF assms] by blast
  then have "(child_kind c, child_name c) \<in> wanted w" unfolding children_wanted[of w er, symmetric] by blast
  with child_owned[OF c] show ?thesis by simp
qed

theorem children_owned_witness:
  "\<exists>new c a. reconcile (sample_context good_reply) (sample_workload None (Some [FINALIZER]) None) ((), []) = (Ok (Requeue 300), (), [] @ new) \<and>
    Asked (ApplyChild c) a \<in> set new \<and> child_kind c = ''Deployment'' \<and> in_its_place (sample_workload None (Some [FINALIZER]) None) c \<and>
    owned_by (sample_workload None (Some [FINALIZER]) None) c"
proof -
  let ?w = "sample_workload None (Some [FINALIZER]) None"
  have "meta_uid (metadata ?w) \<noteq> None \<and> meta_uid (metadata ?w) \<noteq> Some []" by (simp add: sample_workload_def)
  with children_owned[OF sample_deployed_run] sample_deployed_run show ?thesis by fastforce
qed

text \<open>The reconciliation of a workload that is being deleted, when the API server accepts it, ends with a wait for changes and leaves in the
  object the finalizers of all other controllers, in their order, and not its own.\<close>

theorem deletion_keeps_other_finalizers:
  assumes "accepting ctx (webhook_request w) s ready reply" "deletion_timestamp (metadata w) \<noteq> None" "read_workload w obj = Some w"
  shows "\<exists>es obj'. round ctx w obj s = (Ok AwaitChange, s, es, obj') \<and> read_workload w obj' = Some
    (w\<lparr>metadata := (metadata w)\<lparr>finalizers := if kept_finalizers w = [] then None else Some (kept_finalizers w)\<rparr>\<rparr>)"
proof -
  let ?v = "if kept_finalizers w = [] then JNull else jstrs (kept_finalizers w)"
  let ?p = "finalizers_patch ?v" and ?fs = "if kept_finalizers w = [] then None else Some (kept_finalizers w)"
  note rd = read_self[OF assms(3)]
  have "read_finalizers (merge_patch obj ?p) = Some ?fs"
    by (simp add: read_finalizers_def finalizers_patch_def jget_merge field_opt_def)
  moreover have "field_opt status_value ''status'' (merge_patch obj ?p) = Some (status_of w)"
    using rd(2) finalizer_patch_read(2)[OF rd(1), of "[[]]"] by (simp add: field_opt_def)
  ultimately have "read_workload w (merge_patch obj ?p) = Some (with_finalizers w ?fs)"
    by (simp add: read_workload_def)
  then show ?thesis using reconcile_deletion[OF assms(1,2)] by (simp add: round_def deletion_log_def)
qed

theorem deletion_keeps_other_finalizers_witness:
  "\<exists>es obj'. round (sample_context ReplyTimeout) (sample_workload (Some ''d'') (Some [FINALIZER]) (Some stale_status)) stale_object () =
      (Ok AwaitChange, (), es, obj') \<and>
    read_workload (sample_workload (Some ''d'') (Some [FINALIZER]) (Some stale_status)) obj' =
      Some (with_finalizers (sample_workload (Some ''d'') (Some [FINALIZER]) (Some stale_status)) None)"
  using deletion_keeps_other_finalizers[OF sample_accepting _ sample_read(2), of "Some ''d''" ReplyTimeout "()"]
  by (simp add: kept_finalizers_def) (simp add: sample_workload_def)



end
