(* ===== verification/Mock_Eval.thy ===== *)
theory Mock_Eval
  imports Eval_Request
begin

text \<open>
  The stand-in for the evaluation service in the end-to-end tests (src/crates/niphas-e2e/src/bin/mock_eval.rs): it fails for
  flake references that contain one of two words, and answers every other with a path made from the reference.
\<close>

section \<open>Definitions\<close>

fun contains :: "string \<Rightarrow> string \<Rightarrow> bool" where
  "contains p [] = (p = [])"
| "contains p (c # s) = (strip_prefix p (c # s) \<noteq> None \<or> contains p s)"

definition mock_hash :: string where
  "mock_hash = replicate 34 (CHR ''a'')"

text \<open>The status with the text of the error, or the answer. \<open>split\<close> always has a last piece.\<close>

definition mock_evaluate :: "eval_request \<Rightarrow> (nat \<times> string) + eval_response" where
  "mock_evaluate req =
     (if contains ''nonexistent'' (flake_ref req) \<or> contains ''does-not-exist'' (flake_ref req)
      then Inl (422, ''evaluation failed: flake '' @ quoted (flake_ref req) @ '' not found'')
      else let sp = ''/nix/store/'' @ mock_hash @ ''-'' @ last (split_char (CHR '':'') (flake_ref req));
               nm = last (split_char (CHR ''/'') (flake_ref req))
           in Inr \<lparr>resp_store_path = sp, resp_name = nm, main_program = Some nm, closure_paths = [sp]\<rparr>)"

section \<open>Lemmas\<close>

lemma contains_iff: "contains p s \<longleftrightarrow> (\<exists>a b. s = a @ p @ b)"
proof (induction s)
  case step: (Cons c s)
  show ?case
  proof
    assume "contains p (c # s)"
    then consider b where "c # s = p @ b" | a b where "s = a @ p @ b"
      using step by (auto simp: strip_prefix_eq_None)
    then show "\<exists>a b. c # s = a @ p @ b" by cases (metis append_Nil, metis append_Cons)
  next
    assume "\<exists>a b. c # s = a @ p @ b"
    then obtain a b where ab: "c # s = a @ p @ b" by blast
    show "contains p (c # s)"
    proof (cases a)
      case Nil
      then have "strip_prefix p (c # s) = Some b" using ab by (simp add: strip_prefix_eq_Some)
      then show ?thesis by simp
    next
      case (Cons x a')
      then have "contains p s" using ab step.IH by auto
      then show ?thesis by simp
    qed
  qed
qed simp

text \<open>The mock answers exactly the references without the two words, and its command runs the store path it answers.\<close>

lemma mock_evaluate_answers:
  "(\<exists>resp. mock_evaluate req = Inr resp) \<longleftrightarrow>
     (\<nexists>a b. flake_ref req = a @ ''nonexistent'' @ b) \<and> (\<nexists>a b. flake_ref req = a @ ''does-not-exist'' @ b)"
  by (auto simp: mock_evaluate_def contains_iff Let_def)

end
