(* ===== verification/Platform.thy ===== *)
theory Platform
  imports Evaluator Csi_Node Operator_Runs Mock_Eval
begin

text \<open>
  The programs together: the operator (Reconciler) calls the evaluation service (Evaluator) over HTTP, and the kubelet passes
  the volume attributes of the pods that the operator deploys (Resources) to the node service of the CSI driver
  (Csi_Node). The last section shows which fields of a workload no program reads.
\<close>

section \<open>The interface of the evaluation service\<close>

text \<open>What the operator may rely on: an answer that it takes as a success is only given for requests that are allowed.\<close>

locale eval_service =
  fixes ctx :: "'s operator_context" and allowed :: "eval_request \<Rightarrow> bool"
  assumes only_allowed: "replies ctx uri req t reply \<Longrightarrow> webhook_result ctx reply = Ok er \<Longrightarrow> allowed req"
begin

lemma evaluated_allowed:
  assumes "list_all (permitted ctx w) new" "evaluated_to ctx w new er" "evaluates w"
  shows "allowed (webhook_request w)"
proof -
  obtain t reply where p: "Posted (webhook_url ctx) (webhook_request w) t reply \<in> set new" "webhook_result ctx reply = Ok er"
    using assms(2,3) by (auto simp: evaluated_to_def)
  then have "replies ctx (webhook_url ctx) (webhook_request w) t reply"
    using assms(1) by (auto simp: list_all_iff permitted_def)
  then show ?thesis using p(2) by (rule only_allowed)
qed

lemma applied_allowed:
  assumes "reconcile ctx w (s, es) = (r, s', es @ new)" "Asked (ApplyChild c) a \<in> set new" "evaluates w"
  shows "allowed (webhook_request w)"
proof -
  obtain er where "evaluated_to ctx w new er"
    using applied_from[OF assms(1,2)] by blast
  moreover have "list_all (permitted ctx w) new" using reconcile_log[OF assms(1)] by auto
  ultimately show ?thesis using evaluated_allowed assms(3) by blast
qed

lemma answers_allowed: "answers ctx req er \<Longrightarrow> allowed req"
  using only_allowed by (auto simp: answers_def)

end

text \<open>
  The evaluation service behind the client of the operator: the state of the world has the flag of the evaluator, bodies are
  encoded by \<open>enc\<close>, and a handler that does not return closes the connection.
\<close>

definition service_post :: "'k eval_env \<Rightarrow> (http_body \<Rightarrow> string) \<Rightarrow> evaluator \<Rightarrow>
  string \<Rightarrow> eval_request \<Rightarrow> u64 \<Rightarrow> 's \<times> bool \<Rightarrow> http_reply \<times> 's \<times> bool" where
  "service_post env enc ev uri req t = (\<lambda>(s, flag).
     case evaluate_handler env (ev\<lparr>warm := flag\<rparr>) req of
        (Ok (code, body), ev') \<Rightarrow> (Reply code (Ok (enc body)), s, warm ev')
      | (_, ev') \<Rightarrow> (ReplyFailed ''connection closed'', s, warm ev'))"

definition service_context :: "'k eval_env \<Rightarrow> (http_body \<Rightarrow> string) \<Rightarrow> evaluator \<Rightarrow>
  ('s \<times> bool) operator_context \<Rightarrow> ('s \<times> bool) operator_context" where
  "service_context env enc ev ctx = ctx\<lparr>post := service_post env enc ev\<rparr>"

definition request_allowed :: "evaluator \<Rightarrow> eval_request \<Rightarrow> bool" where
  "request_allowed ev req \<longleftrightarrow> in_grammar req \<and> on_allowlist ev req"

lemma on_allowlist_warm [simp]: "on_allowlist (ev\<lparr>warm := flag\<rparr>) req = on_allowlist ev req"
  by (simp add: on_allowlist_def)

interpretation niphas_eval: eval_service "service_context env enc ev ctx" "request_allowed ev"
  for env enc ev and ctx :: "('s \<times> bool) operator_context"
proof unfold_locales
  fix uri req t reply er
  let ?ctx = "service_context env enc ev ctx"
  assume "replies ?ctx uri req t reply" and res: "webhook_result ?ctx reply = Ok er"
  then obtain s :: 's and flag s' where rep: "service_post env enc ev uri req t (s, flag) = (reply, s')"
    by (auto simp: replies_def service_context_def)
  show "request_allowed ev req"
  proof (cases "evaluate_steps env (ev\<lparr>warm := flag\<rparr>) req")
    case (Ok resp)
    then have "evaluate env (ev\<lparr>warm := flag\<rparr>) req = (Ok resp, ev\<lparr>warm := flag, warm := True\<rparr>)" by (simp add: evaluate_def)
    from evaluate_Ok(1,2)[OF this] show ?thesis by (simp add: request_allowed_def)
  next
    case (Err e)
    then have "reply = Reply (fst (into_response e)) (Ok (enc (ErrorBody (snd (into_response e)))))"
      using rep by (simp add: service_post_def handler_eq)
    then show ?thesis using res into_response_status[of e] by (auto simp: webhook_result_def Let_def split: option.splits)
  qed (use rep res in \<open>auto simp: service_post_def handler_eq webhook_result_def\<close>)
qed

text \<open>The stand-in of the end-to-end tests behind the same client.\<close>

definition mock_post :: "(eval_response \<Rightarrow> string) \<Rightarrow> string \<Rightarrow> eval_request \<Rightarrow> u64 \<Rightarrow> 's \<Rightarrow> http_reply \<times> 's" where
  "mock_post enc uri req t s =
     (case mock_evaluate req of Inl (code, body) \<Rightarrow> Reply code (Ok body) | Inr resp \<Rightarrow> Reply 200 (Ok (enc resp)), s)"

interpretation mock_eval: eval_service "ctx\<lparr>post := mock_post enc\<rparr>" "\<lambda>req. \<exists>resp. mock_evaluate req = Inr resp"
proof unfold_locales
  fix uri req t reply er
  assume "replies (ctx\<lparr>post := mock_post enc\<rparr>) uri req t reply" "webhook_result (ctx\<lparr>post := mock_post enc\<rparr>) reply = Ok er"
  moreover have "code = 422" if "mock_evaluate req = Inl (code, body)" for code body
    using that by (auto simp: mock_evaluate_def Let_def split: if_splits)
  ultimately show "\<exists>resp. mock_evaluate req = Inr resp"
    by (auto simp: replies_def mock_post_def webhook_result_def Let_def split: sum.splits prod.splits option.splits if_splits)
qed

section \<open>From the deployment to the mount\<close>

text \<open>The volume attributes of the store volume of a deployment, as the kubelet passes them: with entries of its own.\<close>

definition store_volume_attributes :: "json \<Rightarrow> json option" where
  "store_volume_attributes dep =
     (case jpath dep [''spec'', ''template'', ''spec'', ''volumes''] of
        Some (JArr (v # vs)) \<Rightarrow> jpath v [''csi'', ''volumeAttributes'']
      | _ \<Rightarrow> None)"

definition volume_context_of :: "json \<Rightarrow> (string \<Rightarrow> string option) \<Rightarrow> string \<Rightarrow> string option" where
  "volume_context_of attrs extra k = (case jget attrs k of Some (JStr v) \<Rightarrow> Some v | _ \<Rightarrow> extra k)"

lemma deployment_attributes: "store_volume_attributes (build_deployment w er nm ns) = Some (csi_attributes er)"
  using pod_spec_fields(4)[of "spec w" er nm]
  by (simp add: store_volume_attributes_def build_deployment_def volumes_def)

section \<open>A sample\<close>

definition permitted_workload :: niphas_workload where
  "permitted_workload = (sample_workload None (Some [FINALIZER]) None)\<lparr>spec := sample_spec\<lparr>
     ws_flake_ref := flake_ref sample_request, ws_attribute := attribute sample_request,
     ws_revision := revision sample_request, ws_binary_cache := binary_cache sample_request\<rparr>\<rparr>"

abbreviation sample_service :: "(unit \<times> bool) operator_context" where
  "sample_service \<equiv> service_context sample_env (\<lambda>b. []) sample_evaluator (any_context good_reply)"

lemma permitted_workload_simps:
  "webhook_request permitted_workload = sample_request" "live permitted_workload" "evaluates permitted_workload"
  "\<not> quiet permitted_workload" "desired permitted_workload = 1"
  by (simp_all add: webhook_request_def permitted_workload_def sample_workload_def sample_spec_def live_def has_finalizer_def
      evaluates_def needs_eval_def observed_generation_def quiet_def)

lemma sample_service_accepting:
  "accepting sample_service (webhook_request permitted_workload) ((), True) 1 good_reply" "webhook_result sample_service good_reply = Ok sample_answer"
proof -
  obtain resp ev' where "evaluate sample_env sample_evaluator sample_request = (Ok resp, ev')" using sample_evaluate by blast
  then have "evaluate_steps sample_env sample_evaluator sample_request = Ok resp"
    by (auto simp: evaluate_def split: outcome.splits)
  then have "evaluate_steps sample_env (sample_evaluator\<lparr>warm := True\<rparr>) sample_request = Ok resp"
    by (simp add: evaluate_steps_def)
  then have "service_post sample_env (\<lambda>b. []) sample_evaluator uri sample_request t ((), True) = (good_reply, (), True)" for uri t
    by (simp add: service_post_def handler_eq)
  then show "accepting sample_service (webhook_request permitted_workload) ((), True) 1 good_reply"
    by (simp add: accepting_def permitted_workload_simps service_context_def any_context_def)
  show "webhook_result sample_service good_reply = Ok sample_answer"
    by (simp add: webhook_result_def service_context_def any_context_def)
qed

abbreviation sample_service_log :: "entry list" where
  "sample_service_log \<equiv> success_log sample_service 1 good_reply permitted_workload sample_answer (clock sample_service ((), True))"

lemma sample_service_run: "reconcile sample_service permitted_workload (((), True), []) = (Ok (Requeue 300), ((), True), [] @ sample_service_log)"
  using reconcile_evaluated[OF sample_service_accepting] permitted_workload_simps by simp

lemma sample_service_applies: "\<exists>c. asked 1 (ApplyChild c) \<in> set sample_service_log"
proof -
  have "children permitted_workload sample_answer \<noteq> []" by (simp add: children_def Let_def)
  then obtain c where "c \<in> set (children permitted_workload sample_answer)" by (cases "children permitted_workload sample_answer") auto
  then show ?thesis by (auto simp: success_log_def provision_log_def)
qed

lemma service_context_url: "webhook_url (service_context env enc ev ctx) = webhook_url ctx"
  by (simp add: service_context_def webhook_url_def)

section \<open>Properties\<close>

text \<open>C6. With the evaluation service behind its client, every child resource that a reconciliation applies is built from one evaluation. When one is due (the
  generation is new or the status has no store path) it is the answer that the service gave to this workload in this reconciliation, and then the flake
  reference, attribute and revision of the workload are in the documented grammars and a pattern of the allowlist of the service matches
  the flake reference. When none is due it is what the status says, and the service is not asked: since a refusal (403) is recorded with the new generation,
  the reconciliation after it applies the children of a specification that is not allowed, with the store path of an earlier one.\<close>

theorem deployed_only_allowed:
  assumes "reconcile (service_context env enc ev ctx) w (s, es) = (r, s', es @ new)" "Asked (ApplyChild c) a \<in> set new"
  shows "\<exists>er. c \<in> set (children w er) \<and>
    (if evaluates w
     then in_grammar (webhook_request w) \<and> on_allowlist ev (webhook_request w) \<and>
       (\<exists>t reply. Posted (webhook_url ctx) (webhook_request w) t reply \<in> set new \<and>
          webhook_result (service_context env enc ev ctx) reply = Ok er)
     else from_status (the_or default_status (status_of w)) = Some er)"
proof -
  let ?ctx = "service_context env enc ev ctx"
  obtain er where er: "evaluated_to ?ctx w new er" "c \<in> set (children w er)" using applied_from[OF assms] by blast
  have "in_grammar (webhook_request w) \<and> on_allowlist ev (webhook_request w)" if "evaluates w"
    using niphas_eval.applied_allowed[OF assms that] by (simp add: request_allowed_def)
  with er show ?thesis by (intro exI[of _ er]) (auto simp: evaluated_to_def service_context_url)
qed

theorem deployed_only_allowed_witness:
  "\<exists>new c a er. reconcile sample_service permitted_workload (((), True), []) = (Ok (Requeue 300), ((), True), [] @ new) \<and>
    Asked (ApplyChild c) a \<in> set new \<and> c \<in> set (children permitted_workload er) \<and> evaluates permitted_workload \<and>
    in_grammar (webhook_request permitted_workload) \<and> on_allowlist sample_evaluator (webhook_request permitted_workload)"
proof -
  obtain c where c: "asked 1 (ApplyChild c) \<in> set sample_service_log" using sample_service_applies by blast
  from deployed_only_allowed[OF sample_service_run c] sample_service_run c permitted_workload_simps(3) show ?thesis by auto
qed

text \<open>C40. Over the whole history of a workload (created without a status, its specification edited in any way, reconciled any number of times with
  any cached version of it, whatever the cluster answers) the operator never deploys a store path that is not from the service: every child that is
  applied is built with the store path and the closure of an answer that the evaluation service gave to some request in the grammar and on the allowlist.
  The request need not be the present one of the workload.\<close>

theorem deployed_paths_from_allowed_requests:
  assumes "history (service_context env enc ev ctx) cached" "read_workload w cached = Some w"
    "reconcile (service_context env enc ev ctx) w (s, es) = (r, s', es @ new)" "Asked (ApplyChild c) a \<in> set new"
  shows "\<exists>er req er'. c \<in> set (children w er) \<and> in_grammar req \<and> on_allowlist ev req \<and>
    answers (service_context env enc ev ctx) req er' \<and> resp_store_path er' = resp_store_path er \<and> closure_paths er' = closure_paths er"
  using deployed_answered[OF assms] niphas_eval.answers_allowed by (fastforce simp: request_allowed_def)

theorem deployed_paths_from_allowed_requests_witness:
  "\<exists>cached new c a er req er'. history sample_service cached \<and> read_workload permitted_workload cached = Some permitted_workload \<and>
    reconcile sample_service permitted_workload (((), True), []) = (Ok (Requeue 300), ((), True), [] @ new) \<and> Asked (ApplyChild c) a \<in> set new \<and>
    c \<in> set (children permitted_workload er) \<and> in_grammar req \<and> on_allowlist sample_evaluator req \<and>
    answers sample_service req er' \<and> resp_store_path er' = resp_store_path er \<and> closure_paths er' = closure_paths er"
proof -
  let ?obj = "JObj [(''metadata'', JObj [(''finalizers'', jstrs [FINALIZER])])]"
  have obj: "history sample_service ?obj" by (rule created) (simp add: jget_def)
  have read: "read_workload permitted_workload ?obj = Some permitted_workload"
    by (simp add: read_workload_def read_finalizers_def field_opt_def permitted_workload_def sample_workload_def list_value_def)
  obtain c where c: "asked 1 (ApplyChild c) \<in> set sample_service_log" using sample_service_applies by blast
  from deployed_paths_from_allowed_requests[OF obj read sample_service_run c] obj read sample_service_run c show ?thesis by blast
qed

text \<open>The closure that the operator writes into the volume attributes, joined with commas, is the list of paths that the node
  service of the CSI driver reads from them, for paths of printable characters without commas.\<close>

theorem closure_attribute_roundtrip:
  assumes "closure_paths er \<noteq> []" "list_all csv_safe (closure_paths er)"
  shows "\<exists>attrs raw. store_volume_attributes (build_deployment w er nm ns) = Some attrs \<and>
    volume_context_of attrs extra ''closurePaths'' = Some raw \<and> closure_list raw = closure_paths er"
  using csv_roundtrip[OF assms] by (simp add: deployment_attributes volume_context_of_def csi_attributes_def)

theorem closure_attribute_roundtrip_witness:
  "\<exists>attrs raw. store_volume_attributes (build_deployment permitted_workload sample_answer ''app'' ''ns'') = Some attrs \<and>
    volume_context_of attrs (\<lambda>k. None) ''closurePaths'' = Some raw \<and> closure_list raw = closure_paths sample_answer"
  by (rule closure_attribute_roundtrip) (simp_all add: sample_answer_def csv_safe_def graphic_def)

text \<open>C29. Every volume of every deployment that the operator applies is refused by the node service of the CSI driver (until something is mounted at the
  target): the attributes of the volume have no store path, which the node service requires.\<close>

theorem deployed_volume_refused:
  assumes "store_volume_attributes (build_deployment w er nm ns) = Some attrs" "extra ''storePath'' = None"
    "vid \<noteq> []" "tp \<noteq> []" "\<not> is_mountpoint (svc_mount svc) tp s"
  shows "node_publish_volume svc \<lparr>pub_volume_id = vid, pub_target_path = tp, volume_context = volume_context_of attrs extra\<rparr> s =
    (Err (Status InvalidArgument ''volumeAttributes.storePath is required''), s)"
proof -
  have "attrs = csi_attributes er" using assms(1) by (simp add: deployment_attributes)
  then have "volume_context_of attrs extra ''storePath'' = None" using assms(2) by (simp add: volume_context_of_def csi_attributes_def)
  then show ?thesis using assms(3-5) by (simp add: node_publish_volume_def)
qed

theorem deployed_volume_refused_witness:
  "node_publish_volume (make_service (sample_csi_env []) (host_fs sample_host))
     \<lparr>pub_volume_id = ''v'', pub_target_path = ''/pods/v'', volume_context = volume_context_of (csi_attributes sample_answer) (\<lambda>k. None)\<rparr>
     fake_mounts_new =
   (Err (Status InvalidArgument ''volumeAttributes.storePath is required''), fake_mounts_new)"
  by (rule deployed_volume_refused[OF deployment_attributes])
     (simp_all add: make_service_def node_service_with_deps_def fake_mount_ops_def fake_mounts_new_def)

section \<open>Fields without effect\<close>

text \<open>The field \<open>architectures\<close> of a workload has no effect on its reconciliation.\<close>

abbreviation with_architectures :: "niphas_workload \<Rightarrow> string list option \<Rightarrow> niphas_workload" where
  "with_architectures w as \<equiv> w\<lparr>spec := (spec w)\<lparr>ws_architectures := as\<rparr>\<rparr>"

lemma with_architectures_simps:
  "namespace_of (with_architectures w as) = namespace_of w" "name_any (with_architectures w as) = name_any w"
  "webhook_request (with_architectures w as) = webhook_request w" "has_finalizer (with_architectures w as) = has_finalizer w"
  "observed_generation (with_architectures w as) = observed_generation w" "needs_eval (with_architectures w as) n g = needs_eval w n g"
  by (simp_all add: namespace_of_def name_any_def webhook_request_def has_finalizer_def observed_generation_def needs_eval_def
      cong: option.case_cong)

lemma with_architectures_children: "children (with_architectures w as) er = children w er"
proof -
  have "pod_spec (spec (with_architectures w as)) er nm = pod_spec (spec w) er nm" for nm
    by (simp add: pod_spec_def container_def volumes_def node_selector_def tolerations_def Let_def cong: option.case_cong)
  then show ?thesis
    by (simp add: children_def build_deployment_def build_service_def build_ingress_def build_pdb_def wants_ingress_def
        child_metadata_def owner_reference_def with_architectures_simps Let_def cong: option.case_cong)
qed

lemma architectures_ignored: "reconcile ctx (with_architectures w as) = reconcile ctx w"
proof -
  let ?w = "with_architectures w as"
  note same = with_architectures_simps[where w = w and as = as]
  have ev: "publish_event ctx ?w = publish_event ctx w" by (simp add: publish_event_def fun_eq_iff)
  have ph: "set_phase ctx ?w = set_phase ctx w" by (simp add: set_phase_def fun_eq_iff same)
  have fl: "set_failed ctx ?w = set_failed ctx w" by (simp add: set_failed_def fun_eq_iff same)
  have up: "update_status ctx ?w = update_status ctx w" by (simp add: update_status_def fun_eq_iff same)
  have ct: "count_ready_replicas ctx ?w = count_ready_replicas ctx w" by (simp add: count_ready_replicas_def fun_eq_iff same)
  have hook: "call_eval_webhook ctx ?w = call_eval_webhook ctx w" by (simp add: call_eval_webhook_def fun_eq_iff same)
  have "evaluate_now ctx ?w = evaluate_now ctx w" by (simp add: evaluate_now_def fun_eq_iff ev ph fl hook)
  moreover have "evaluate_cached ctx ?w = evaluate_cached ctx w"
    by (simp add: evaluate_cached_def fun_eq_iff ph fl hook cong: option.case_cong)
  moreover have "provision ctx ?w = provision ctx w"
    by (simp add: provision_def report_def fun_eq_iff ev ph fl up ct apply_children with_architectures_children Let_def cong: if_cong)
  moreover have "handle_deletion ctx ?w = handle_deletion ctx w"
    by (simp add: handle_deletion_def remove_finalizer_def fun_eq_iff ev same)
  moreover have "add_finalizer ctx ?w = add_finalizer ctx w" by (simp add: add_finalizer_def fun_eq_iff same)
  ultimately show ?thesis by (simp add: reconcile_def same Let_def cong: if_cong)
qed

text \<open>Neither the evaluation nor the node cache uses the binary cache that a workload asks for.\<close>

lemma binary_cache_ignored:
  "evaluate env ev (req\<lparr>binary_cache := u\<rparr>) = evaluate env ev req"
  "ensure_cached cenv cache_dir closure u' = ensure_cached cenv cache_dir closure None"
proof -
  have "validate_eval_request (req\<lparr>binary_cache := u\<rparr>) = validate_eval_request req" "pin_ref (req\<lparr>binary_cache := u\<rparr>) = pin_ref req"
    by (simp_all add: validate_eval_request_def pin_ref_def split: option.splits)
  then show "evaluate env ev (req\<lparr>binary_cache := u\<rparr>) = evaluate env ev req"
    by (simp add: evaluate_def evaluate_steps_def)
  show "ensure_cached cenv cache_dir closure u' = ensure_cached cenv cache_dir closure None"
    by (simp add: ensure_cached_def)
qed

end
