(* ===== verification/Leader.thy ===== *)
theory Leader
  imports Niphas_Error
begin

text \<open>
  The process of the operator (src/crates/niphas-operator/src/main.rs): the wait for the lease, and after it the task that renews the lease and the
  main task with the controller, which share the readiness flag of the probes and a cancellation token. The lease in the
  cluster (crate kube_leader_election) is the argument that answers the attempts. The two tasks are a step relation,
  so that every order of their accesses is covered.
\<close>

section \<open>Definitions\<close>

definition MAX_RENEW_FAILURES :: u32 where
  "MAX_RENEW_FAILURES = 3"

datatype lease_result = Acquired | NotAcquired "string option"

text \<open>The loop before the controller starts, on the answers to its attempts: it may wait forever, an error ends the process. The result is
  the number of the attempt that got the lease.\<close>

fun acquire_leadership :: "nat \<Rightarrow> (nat \<Rightarrow> string + lease_result) \<Rightarrow> nat \<Rightarrow> (string, nat) outcome" where
  "acquire_leadership 0 attempt i = Diverge"
| "acquire_leadership (Suc fuel) attempt i =
     (case attempt i of
        Inl e \<Rightarrow> Err e
      | Inr Acquired \<Rightarrow> Ok i
      | Inr (NotAcquired holder) \<Rightarrow> acquire_leadership fuel attempt (Suc i))"

text \<open>The answer to a renewal: the failures in a row, and whether the task gives up.\<close>

definition renew_once :: "u32 \<Rightarrow> string + lease_result \<Rightarrow> u32 \<times> bool" where
  "renew_once consecutive_failures r =
     (case r of
        Inr Acquired \<Rightarrow> (0, False)
      | Inr (NotAcquired _) \<Rightarrow> (consecutive_failures, True)
      | Inl e \<Rightarrow> (consecutive_failures + 1, consecutive_failures + 1 \<ge> MAX_RENEW_FAILURES))"

text \<open>Where the two tasks are. The renewal task is in its \<open>select\<close>, waits for the answer to a renewal, has given up and takes
  the flag down, cancels the token, leaves its loop, is done. The main task is before the store of the flag, builds the controller, is in its \<open>select\<close>,
  is behind it, is done.\<close>

datatype renewer_pc = Sleeping | Renewing | GaveUp | Cancelling | Breaking | RenewerDone
datatype main_pc = Starting | Building | Watching | Leaving | MainDone

record process =
  ready_flag :: bool
  cancelled :: bool
  failures :: u32
  renewer :: renewer_pc
  main_task :: main_pc

text \<open>The state when leadership is acquired and the renewal task is spawned.\<close>

definition elected :: process where
  "elected = \<lparr>ready_flag = False, cancelled = False, failures = 0, renewer = Sleeping, main_task = Starting\<rparr>"

inductive proc_step :: "process \<Rightarrow> process \<Rightarrow> bool" where
  wake: "renewer p = Sleeping \<Longrightarrow> proc_step p (p\<lparr>renewer := Renewing\<rparr>)"
| renewer_stops: "renewer p = Sleeping \<Longrightarrow> cancelled p \<Longrightarrow> proc_step p (p\<lparr>renewer := RenewerDone\<rparr>)"
| answered: "renewer p = Renewing \<Longrightarrow> renew_once (failures p) r = (n, up) \<Longrightarrow>
    proc_step p (p\<lparr>failures := n, renewer := if up then GaveUp else Sleeping\<rparr>)"
| flag_down: "renewer p = GaveUp \<Longrightarrow> proc_step p (p\<lparr>ready_flag := False, renewer := Cancelling\<rparr>)"
| cancel: "renewer p = Cancelling \<Longrightarrow> proc_step p (p\<lparr>cancelled := True, renewer := Breaking\<rparr>)"
| renewer_breaks: "renewer p = Breaking \<Longrightarrow> proc_step p (p\<lparr>renewer := RenewerDone\<rparr>)"
| flag_up: "main_task p = Starting \<Longrightarrow> proc_step p (p\<lparr>ready_flag := True, main_task := Building\<rparr>)"
| watch: "main_task p = Building \<Longrightarrow> proc_step p (p\<lparr>main_task := Watching\<rparr>)"
| controller_ends: "main_task p = Watching \<Longrightarrow> proc_step p (p\<lparr>main_task := Leaving\<rparr>)"
| shutdown: "main_task p = Watching \<Longrightarrow> cancelled p \<Longrightarrow> proc_step p (p\<lparr>main_task := Leaving\<rparr>)"
| leave: "main_task p = Leaving \<Longrightarrow> proc_step p (p\<lparr>ready_flag := False, main_task := MainDone\<rparr>)"

abbreviation proc_reachable :: "process \<Rightarrow> bool" where
  "proc_reachable p \<equiv> proc_step\<^sup>*\<^sup>* elected p"

text \<open>The renewal loop on the answers it gets: whether it gave up.\<close>

fun gives_up :: "u32 \<Rightarrow> (string + lease_result) list \<Rightarrow> bool" where
  "gives_up n [] = False"
| "gives_up n (r # rs) = (case renew_once n r of (m, up) \<Rightarrow> up \<or> gives_up m rs)"

section \<open>Lemmas\<close>

inductive_cases proc_stepE: "proc_step p q"

text \<open>While the renewal task goes on, fewer renewals than the maximum failed in a row, so the counter never wraps; it
  reaches the maximum only when the task gives up.\<close>

definition proc_inv :: "process \<Rightarrow> bool" where
  "proc_inv p \<longleftrightarrow> failures p \<le> MAX_RENEW_FAILURES \<and> (renewer p \<in> {Sleeping, Renewing} \<longrightarrow> failures p < MAX_RENEW_FAILURES) \<and>
     (main_task p \<in> {Starting, MainDone} \<longrightarrow> \<not> ready_flag p) \<and> (cancelled p \<longleftrightarrow> renewer p \<in> {Breaking, RenewerDone})"

lemma small_counter: "n < MAX_RENEW_FAILURES \<longleftrightarrow> n = 0 \<or> n = 1 \<or> n = 2"
  "n \<le> MAX_RENEW_FAILURES \<longleftrightarrow> n = 0 \<or> n = 1 \<or> n = 2 \<or> n = 3"
proof -
  have "unat n < 3 \<longleftrightarrow> unat n = 0 \<or> unat n = 1 \<or> unat n = 2" "unat n \<le> 3 \<longleftrightarrow> unat n = 0 \<or> unat n = 1 \<or> unat n = 2 \<or> unat n = 3"
    by linarith+
  then show "n < MAX_RENEW_FAILURES \<longleftrightarrow> n = 0 \<or> n = 1 \<or> n = 2" "n \<le> MAX_RENEW_FAILURES \<longleftrightarrow> n = 0 \<or> n = 1 \<or> n = 2 \<or> n = 3"
    by (simp_all add: MAX_RENEW_FAILURES_def word_less_nat_alt word_le_nat_alt word_unat_eq_iff)
qed

lemma renew_once_simps:
  "renew_once n (Inr Acquired) = (0, False)" "renew_once n (Inr (NotAcquired h)) = (n, True)"
  "renew_once 0 (Inl e) = (1, False)" "renew_once 1 (Inl e) = (2, False)" "renew_once 2 (Inl e) = (3, True)"
  by (simp_all add: renew_once_def MAX_RENEW_FAILURES_def word_le_nat_alt)

lemma renew_once_counts:
  assumes "n < MAX_RENEW_FAILURES" "renew_once n r = (m, up)"
  shows "m \<le> MAX_RENEW_FAILURES" "\<not> up \<Longrightarrow> m < MAX_RENEW_FAILURES"
proof -
  consider e where "r = Inl e" | "r = Inr Acquired" | h where "r = Inr (NotAcquired h)"
    by (metis lease_result.exhaust sum.exhaust)
  then show "m \<le> MAX_RENEW_FAILURES" "\<not> up \<Longrightarrow> m < MAX_RENEW_FAILURES"
    using assms unfolding small_counter by (cases; auto simp: renew_once_simps)+
qed

lemma proc_inv_step: "proc_step p q \<Longrightarrow> proc_inv p \<Longrightarrow> proc_inv q"
  by (induction rule: proc_step.induct) (auto simp: proc_inv_def renew_once_counts less_imp_le)

lemma proc_inv_reachable: "proc_reachable p \<Longrightarrow> proc_inv p"
proof (induction rule: rtranclp_induct)
  case base
  show ?case by (simp add: proc_inv_def elected_def MAX_RENEW_FAILURES_def)
next
  case (step p q)
  then show ?case using proc_inv_step by blast
qed

text \<open>Once the main task has stored the flag, a flag that is down stays down.\<close>

lemma flag_stays_down: "proc_step p q \<Longrightarrow> main_task p \<noteq> Starting \<and> \<not> ready_flag p \<Longrightarrow> main_task q \<noteq> Starting \<and> \<not> ready_flag q"
  by (induction rule: proc_step.induct) auto

lemma flag_stays_down_run:
  "proc_step\<^sup>*\<^sup>* p q \<Longrightarrow> main_task p \<noteq> Starting \<and> \<not> ready_flag p \<Longrightarrow> main_task q \<noteq> Starting \<and> \<not> ready_flag q"
  by (induction rule: rtranclp_induct) (use flag_stays_down in blast)+

text \<open>After the cancellation the main task can always end, with the flag down.\<close>

lemma can_end:
  assumes "cancelled p"
  shows "\<exists>q. proc_step\<^sup>*\<^sup>* p q \<and> main_task q = MainDone \<and> (main_task p \<noteq> MainDone \<longrightarrow> \<not> ready_flag q)"
proof -
  have leaving: "\<exists>q. proc_step\<^sup>*\<^sup>* p q \<and> main_task q = MainDone \<and> \<not> ready_flag q" if "main_task p = Leaving" for p
    using leave[OF that] by (intro exI[of _ "p\<lparr>ready_flag := False, main_task := MainDone\<rparr>"]) auto
  have watching: "\<exists>q. proc_step\<^sup>*\<^sup>* p q \<and> main_task q = MainDone \<and> \<not> ready_flag q" if "main_task p = Watching" "cancelled p" for p
    using leaving[of "p\<lparr>main_task := Leaving\<rparr>"] shutdown[OF that] by (auto intro: converse_rtranclp_into_rtranclp)
  have building: "\<exists>q. proc_step\<^sup>*\<^sup>* p q \<and> main_task q = MainDone \<and> \<not> ready_flag q" if "main_task p = Building" "cancelled p" for p
    using watching[of "p\<lparr>main_task := Watching\<rparr>"] watch[OF that(1)] that(2) by (auto intro: converse_rtranclp_into_rtranclp)
  have starting: "\<exists>q. proc_step\<^sup>*\<^sup>* p q \<and> main_task q = MainDone \<and> \<not> ready_flag q" if "main_task p = Starting" "cancelled p" for p
    using building[of "p\<lparr>ready_flag := True, main_task := Building\<rparr>"] flag_up[OF that(1)] that(2)
    by (auto intro: converse_rtranclp_into_rtranclp)
  show ?thesis
    using starting building watching leaving assms by (cases "main_task p") blast+
qed

text \<open>The readiness flag is up before the controller watches anything, and it is raised by the main task although leadership was
  lost before.\<close>

lemma ready_before_watching: "\<exists>p. proc_reachable p \<and> ready_flag p \<and> main_task p = Building"
  using flag_up[of elected] by (intro exI[of _ "elected\<lparr>ready_flag := True, main_task := Building\<rparr>"]) (auto simp: elected_def)

lemma ready_after_loss:
  "\<exists>p. proc_reachable p \<and> ready_flag p \<and> cancelled p \<and> renewer p = RenewerDone \<and> main_task p = Building"
proof -
  let ?r = "elected\<lparr>renewer := Renewing\<rparr>" and ?g = "elected\<lparr>renewer := GaveUp\<rparr>" and ?c = "elected\<lparr>renewer := Cancelling\<rparr>"
    and ?b = "elected\<lparr>cancelled := True, renewer := Breaking\<rparr>" and ?d = "elected\<lparr>cancelled := True, renewer := RenewerDone\<rparr>"
  note pc = elected_def
  have "proc_step elected ?r" "proc_step ?r ?g" "proc_step ?g ?c" "proc_step ?c ?b" "proc_step ?b ?d"
      "proc_step ?d (?d\<lparr>ready_flag := True, main_task := Building\<rparr>)"
    using wake[of elected] answered[of ?r "Inr (NotAcquired None)" 0 True] flag_down[of ?g] cancel[of ?c] renewer_breaks[of ?b] flag_up[of ?d]
    by (simp_all add: pc renew_once_simps)
  then have "proc_reachable (?d\<lparr>ready_flag := True, main_task := Building\<rparr>)"
    by (meson converse_rtranclp_into_rtranclp rtranclp.rtrancl_refl)
  then show ?thesis by (intro exI[of _ "?d\<lparr>ready_flag := True, main_task := Building\<rparr>"]) (simp add: pc)
qed

text \<open>The wait for the lease ends with the first attempt that gets it, given fuel for the attempts before it.\<close>

lemma acquire_first:
  "attempt (i + n) = Inr Acquired \<Longrightarrow> \<forall>k < n. \<exists>h. attempt (i + k) = Inr (NotAcquired h) \<Longrightarrow> n < fuel \<Longrightarrow>
     acquire_leadership fuel attempt i = Ok (i + n)"
proof (induction n arbitrary: i fuel)
  case 0
  then show ?case by (cases fuel) simp_all
next
  case (Suc n)
  obtain h where h: "attempt i = Inr (NotAcquired h)" using Suc.prems(2) by force
  obtain f where f: "fuel = Suc f" "n < f" using Suc.prems(3) by (cases fuel) auto
  have "\<forall>k < n. \<exists>h. attempt (Suc i + k) = Inr (NotAcquired h)" using Suc.prems(2) by force
  then have "acquire_leadership f attempt (Suc i) = Ok (Suc i + n)" using Suc.IH[of "Suc i" f] Suc.prems(1) f(2) by simp
  then show ?case using h f(1) by simp
qed

text \<open>Three failures in a row, and the lease of another holder, in a list of answers.\<close>

definition fails :: "string + lease_result \<Rightarrow> bool" where
  "fails r \<longleftrightarrow> (case r of Inl e \<Rightarrow> True | Inr l \<Rightarrow> False)"

definition taken :: "string + lease_result \<Rightarrow> bool" where
  "taken r \<longleftrightarrow> (case r of Inr (NotAcquired h) \<Rightarrow> True | _ \<Rightarrow> False)"

fun three_failures :: "(string + lease_result) list \<Rightarrow> bool" where
  "three_failures (a # b # c # rs) \<longleftrightarrow> fails a \<and> fails b \<and> fails c \<or> three_failures (b # c # rs)"
| "three_failures rs = False"

text \<open>One and two failures at the front of the list.\<close>

fun fails_now :: "(string + lease_result) list \<Rightarrow> bool" where
  "fails_now [] = False"
| "fails_now (r # rs) = fails r"

fun fails_twice :: "(string + lease_result) list \<Rightarrow> bool" where
  "fails_twice [] = False"
| "fails_twice (r # rs) = (fails r \<and> fails_now rs)"

lemma three_failures_Cons: "three_failures (r # rs) \<longleftrightarrow> fails r \<and> fails_twice rs \<or> three_failures rs"
  by (cases rs rule: three_failures.cases) auto

lemma fails_twice_now: "fails_twice rs \<Longrightarrow> fails_now rs"
  by (cases rs) auto

lemma answer_simps:
  "fails (Inl e)" "\<not> fails (Inr l)" "\<not> taken (Inl e)" "\<not> taken (Inr Acquired)" "taken (Inr (NotAcquired h))"
  by (simp_all add: fails_def taken_def)

lemma gives_up_from:
  "(gives_up 0 rs \<longleftrightarrow> list_ex taken rs \<or> three_failures rs) \<and>
   (gives_up 1 rs \<longleftrightarrow> list_ex taken rs \<or> three_failures rs \<or> fails_twice rs) \<and>
   (gives_up 2 rs \<longleftrightarrow> list_ex taken rs \<or> three_failures rs \<or> fails_now rs)"
proof (induction rs)
  case (Cons r rs)
  consider e where "r = Inl e" | "r = Inr Acquired" | h where "r = Inr (NotAcquired h)"
    by (metis lease_result.exhaust sum.exhaust)
  then show ?case
    using Cons fails_twice_now[of rs] by cases (auto simp: three_failures_Cons renew_once_simps answer_simps)
qed simp

section \<open>Properties\<close>

text \<open>C17. In every order of the steps of the two tasks: while the renewal task goes on, fewer renewals than the maximum have failed in a row, and
  the counter never passes the maximum; the token is cancelled exactly when the renewal task is leaving its loop or done, and then the main task can end
  with the flag down; the readiness flag is up only from its store, before the controller is built, until the main task is done, and once it
  is down after that store it stays down.\<close>

theorem process_invariant:
  assumes "proc_reachable p" "proc_step\<^sup>*\<^sup>* p q"
  shows "failures p \<le> MAX_RENEW_FAILURES \<and> (renewer p \<in> {Sleeping, Renewing} \<longrightarrow> failures p < MAX_RENEW_FAILURES) \<and>
    (cancelled p \<longleftrightarrow> renewer p \<in> {Breaking, RenewerDone}) \<and>
    (cancelled p \<longrightarrow> (\<exists>t. proc_step\<^sup>*\<^sup>* p t \<and> main_task t = MainDone \<and> \<not> ready_flag t)) \<and>
    (ready_flag p \<longrightarrow> main_task p \<in> {Building, Watching, Leaving}) \<and>
    (main_task p \<noteq> Starting \<and> \<not> ready_flag p \<longrightarrow> \<not> ready_flag q)"
proof -
  have inv: "proc_inv p" by (rule proc_inv_reachable[OF assms(1)])
  have "\<exists>t. proc_step\<^sup>*\<^sup>* p t \<and> main_task t = MainDone \<and> \<not> ready_flag t" if "cancelled p"
    using can_end[OF that] inv by (cases "main_task p = MainDone") (auto simp: proc_inv_def)
  moreover have "main_task p \<in> {Building, Watching, Leaving}" if "ready_flag p"
    using that inv by (cases "main_task p") (auto simp: proc_inv_def)
  ultimately show ?thesis using inv flag_stays_down_run[OF assms(2)] by (auto simp: proc_inv_def)
qed

theorem process_invariant_witness:
  "\<exists>p q. proc_reachable p \<and> cancelled p \<and> ready_flag p \<and> failures p \<le> MAX_RENEW_FAILURES \<and>
     proc_step\<^sup>*\<^sup>* p q \<and> main_task q = MainDone \<and> \<not> ready_flag q"
proof -
  obtain p where p: "proc_reachable p" "ready_flag p" "cancelled p" using ready_after_loss by blast
  then show ?thesis using process_invariant[OF p(1) rtranclp.rtrancl_refl] by blast
qed

text \<open>The renewal task gives leadership up exactly when an answer says that another holder has the lease or three renewals in a row
  fail; a renewal that succeeds starts the count again.\<close>

theorem gives_up_exact: "gives_up 0 rs \<longleftrightarrow> list_ex taken rs \<or> three_failures rs"
  using gives_up_from[of rs] by blast

end
