(* ===== verification/Csi_Locks.thy ===== *)
theory Csi_Locks
  imports Niphas_Error
begin

text \<open>
  Concurrent calls of \<open>ensure_cached\<close> of the NAR cache (src/crates/niphas-csi/src/cache.rs) and the locks that order them. Each call
  is a task that goes through its closure path by path; its steps are the points at which another task can run: the look into the cache
  directory, the look-up or creation of the lock of a path under the lock of the table, the acquisition of the lock of the path, the second
  look, the download, which ends with the rename into the cache or with an error, and the release of the lock. A call can also be dropped at
  any of these points, when its client cancels it. What a download does to the file system is the
  subject of Csi_Cache; here it adds the path to the cache when it succeeds.
\<close>

section \<open>Definitions\<close>

type_synonym lock_id = nat

datatype call_pc =
    Looking
  | NeedsLock
  | Waiting lock_id
  | Holding lock_id
  | Fetching lock_id
  | Returned bool

record cache_call =
  todo :: "string list"
  at_pc :: call_pc

record nar_cache =
  present :: "string set"
  locks :: "(string \<times> lock_id) list"
  holder :: "lock_id \<Rightarrow> nat option"
  call_of :: "nat \<Rightarrow> cache_call"

text \<open>\<open>locks.entry(basename).or_insert_with(...)\<close>: the lock of a path, a new one when it has none.\<close>

definition entry_or_insert :: "string \<Rightarrow> (string \<times> lock_id) list \<Rightarrow> lock_id \<times> (string \<times> lock_id) list" where
  "entry_or_insert b ls = (case map_of ls b of Some l \<Rightarrow> (l, ls) | None \<Rightarrow> (length ls, (b, length ls) # ls))"

definition set_call :: "nat \<Rightarrow> string list \<Rightarrow> call_pc \<Rightarrow> nar_cache \<Rightarrow> nar_cache" where
  "set_call i bs pc c = c\<lparr>call_of := (call_of c)(i := \<lparr>todo = bs, at_pc = pc\<rparr>)\<rparr>"

definition release :: "lock_id \<Rightarrow> nar_cache \<Rightarrow> nar_cache" where
  "release l c = c\<lparr>holder := (holder c)(l := None)\<rparr>"

inductive call_step :: "nat \<Rightarrow> nar_cache \<Rightarrow> nar_cache \<Rightarrow> bool" where
  finish: "call_of c i = \<lparr>todo = [], at_pc = Looking\<rparr> \<Longrightarrow> call_step i c (set_call i [] (Returned True) c)"
| already_cached: "call_of c i = \<lparr>todo = b # bs, at_pc = Looking\<rparr> \<Longrightarrow> b \<in> present c \<Longrightarrow>
    call_step i c (set_call i bs Looking c)"
| missing: "call_of c i = \<lparr>todo = b # bs, at_pc = Looking\<rparr> \<Longrightarrow> b \<notin> present c \<Longrightarrow>
    call_step i c (set_call i (b # bs) NeedsLock c)"
| get_lock: "call_of c i = \<lparr>todo = b # bs, at_pc = NeedsLock\<rparr> \<Longrightarrow> entry_or_insert b (locks c) = (l, ls) \<Longrightarrow>
    call_step i c (set_call i (b # bs) (Waiting l) (c\<lparr>locks := ls\<rparr>))"
| acquire: "call_of c i = \<lparr>todo = b # bs, at_pc = Waiting l\<rparr> \<Longrightarrow> holder c l = None \<Longrightarrow>
    call_step i c (set_call i (b # bs) (Holding l) (c\<lparr>holder := (holder c)(l := Some i)\<rparr>))"
| double_check: "call_of c i = \<lparr>todo = b # bs, at_pc = Holding l\<rparr> \<Longrightarrow> b \<in> present c \<Longrightarrow>
    call_step i c (set_call i bs Looking (release l c))"
| fetch: "call_of c i = \<lparr>todo = b # bs, at_pc = Holding l\<rparr> \<Longrightarrow> b \<notin> present c \<Longrightarrow>
    call_step i c (set_call i (b # bs) (Fetching l) c)"
| fetched: "call_of c i = \<lparr>todo = b # bs, at_pc = Fetching l\<rparr> \<Longrightarrow>
    call_step i c (set_call i bs Looking (release l (c\<lparr>present := insert b (present c)\<rparr>)))"
| fetch_fails: "call_of c i = \<lparr>todo = b # bs, at_pc = Fetching l\<rparr> \<Longrightarrow>
    call_step i c (set_call i (b # bs) (Returned False) (release l c))"

text \<open>The start: some paths are cached, no path has a lock, and call \<open>i\<close> has the closure \<open>closures i\<close>.\<close>

definition cache_start :: "string set \<Rightarrow> (nat \<Rightarrow> string list) \<Rightarrow> nar_cache" where
  "cache_start P closures = \<lparr>present = P, locks = [], holder = (\<lambda>l. None),
     call_of = (\<lambda>i. \<lparr>todo = closures i, at_pc = Looking\<rparr>)\<rparr>"

text \<open>A call whose client goes away is dropped where it is: its guard releases the lock it holds, and it never returns success.\<close>

definition running :: "nar_cache \<Rightarrow> nat \<Rightarrow> bool" where
  "running c i \<longleftrightarrow> (\<nexists>ok. at_pc (call_of c i) = Returned ok)"

definition drop_call :: "nat \<Rightarrow> nar_cache \<Rightarrow> nar_cache" where
  "drop_call i c = set_call i (todo (call_of c i)) (Returned False)
     (c\<lparr>holder := (\<lambda>l. if holder c l = Some i then None else holder c l)\<rparr>)"

definition any_step :: "nar_cache \<Rightarrow> nar_cache \<Rightarrow> bool" where
  "any_step c d \<longleftrightarrow> (\<exists>i. call_step i c d \<or> running c i \<and> d = drop_call i c)"

abbreviation cache_reachable :: "string set \<Rightarrow> (nat \<Rightarrow> string list) \<Rightarrow> nar_cache \<Rightarrow> bool" where
  "cache_reachable P closures c \<equiv> any_step\<^sup>*\<^sup>* (cache_start P closures) c"

section \<open>The invariant\<close>

text \<open>The lock that a task waits for or holds, and the tasks in a critical section.\<close>

fun lock_at :: "call_pc \<Rightarrow> lock_id option" where
  "lock_at (Waiting l) = Some l"
| "lock_at (Holding l) = Some l"
| "lock_at (Fetching l) = Some l"
| "lock_at _ = None"

fun held_at :: "call_pc \<Rightarrow> lock_id option" where
  "held_at (Holding l) = Some l"
| "held_at (Fetching l) = Some l"
| "held_at _ = None"

definition locks_wf :: "(string \<times> lock_id) list \<Rightarrow> bool" where
  "locks_wf ls \<longleftrightarrow> (\<forall>b l. map_of ls b = Some l \<longrightarrow> l < length ls) \<and>
     (\<forall>a b l. map_of ls a = Some l \<and> map_of ls b = Some l \<longrightarrow> a = b)"

definition call_wf :: "nar_cache \<Rightarrow> nat \<Rightarrow> bool" where
  "call_wf c i \<longleftrightarrow> (let k = call_of c i in
     (\<forall>l. lock_at (at_pc k) = Some l \<longrightarrow> todo k \<noteq> [] \<and> map_of (locks c) (hd (todo k)) = Some l) \<and>
     (at_pc k = NeedsLock \<longrightarrow> todo k \<noteq> []) \<and> (at_pc k = Returned True \<longrightarrow> todo k = []))"

definition lock_inv :: "nar_cache \<Rightarrow> bool" where
  "lock_inv c \<longleftrightarrow> locks_wf (locks c) \<and> (\<forall>i. call_wf c i) \<and>
     (\<forall>i l. holder c l = Some i \<longleftrightarrow> held_at (at_pc (call_of c i)) = Some l)"

lemma held_lock: "held_at pc = Some l \<Longrightarrow> lock_at pc = Some l"
  by (cases pc) auto

lemma call_of_set_call [simp]:
  "call_of (set_call i bs pc c) j = (if j = i then \<lparr>todo = bs, at_pc = pc\<rparr> else call_of c j)"
  "locks (set_call i bs pc c) = locks c" "holder (set_call i bs pc c) = holder c" "present (set_call i bs pc c) = present c"
  by (simp_all add: set_call_def)

lemma release_simps [simp]:
  "call_of (release l c) = call_of c" "locks (release l c) = locks c" "present (release l c) = present c"
  "holder (release l c) l' = (if l' = l then None else holder c l')"
  by (simp_all add: release_def)

lemma entry_or_insert_wf:
  assumes "locks_wf ls" "entry_or_insert b ls = (l, ls')"
  shows "locks_wf ls'" "map_of ls' b = Some l" "map_of ls a = Some l0 \<Longrightarrow> map_of ls' a = Some l0"
proof -
  have less: "l < length ls" if "map_of ls a = Some l" for a l using assms(1) that by (simp add: locks_wf_def)
  show "locks_wf ls'"
    using assms less by (fastforce simp: entry_or_insert_def locks_wf_def less_Suc_eq split: option.splits if_splits)
  show "map_of ls' b = Some l" "map_of ls a = Some l0 \<Longrightarrow> map_of ls' a = Some l0"
    using assms(2) by (auto simp: entry_or_insert_def split: option.splits)
qed

text \<open>A step of one call leaves the others as they are and keeps the locks they know.\<close>

lemma step_others:
  assumes "call_step i c d" "locks_wf (locks c)"
  shows "j \<noteq> i \<Longrightarrow> call_of d j = call_of c j" "locks_wf (locks d)" "map_of (locks c) b = Some l \<Longrightarrow> map_of (locks d) b = Some l"
  using assms by (induction rule: call_step.induct) (auto dest: entry_or_insert_wf)

lemma step_self:
  assumes "call_step i c d" "call_wf c i" "locks_wf (locks c)"
  shows "call_wf d i"
  using assms by (induction rule: call_step.induct) (auto simp: call_wf_def dest: entry_or_insert_wf(2))

lemma step_wf:
  assumes "call_step i c d" "\<forall>j. call_wf c j" "locks_wf (locks c)"
  shows "call_wf d j"
proof (cases "j = i")
  case True
  then show ?thesis using step_self assms by blast
next
  case False
  then show ?thesis using assms(2) step_others[OF assms(1,3)] by (auto simp: call_wf_def Let_def)
qed

text \<open>Which lock the call holds before and after its step.\<close>

lemma step_holder:
  assumes "call_step i c d" "\<forall>l. holder c l = Some i \<longleftrightarrow> held_at (at_pc (call_of c i)) = Some l"
  shows "holder d l = Some i \<longleftrightarrow> held_at (at_pc (call_of d i)) = Some l"
    "j \<noteq> i \<Longrightarrow> holder d l = Some j \<longleftrightarrow> holder c l = Some j"
  using assms by (induction rule: call_step.induct) (auto, (metis option.inject)+)

lemma lock_inv_step:
  assumes "call_step i c d" "lock_inv c"
  shows "lock_inv d"
proof -
  have c: "locks_wf (locks c)" "\<forall>j. call_wf c j" "\<forall>j l. holder c l = Some j \<longleftrightarrow> held_at (at_pc (call_of c j)) = Some l"
    using assms(2) by (simp_all add: lock_inv_def)
  have "holder d l = Some j \<longleftrightarrow> held_at (at_pc (call_of d j)) = Some l" for j l
    using step_holder[OF assms(1)] step_others(1)[OF assms(1) c(1)] c(3) by (cases "j = i") auto
  then show ?thesis
    using step_wf[OF assms(1) c(2,1)] step_others(2)[OF assms(1) c(1)] by (simp add: lock_inv_def)
qed

text \<open>A path that is being downloaded is not in the cache: it was not there under the lock, and only the holder of the lock can add it.\<close>

definition fetching :: "nar_cache \<Rightarrow> nat \<Rightarrow> string \<Rightarrow> bool" where
  "fetching c i b \<longleftrightarrow> (\<exists>bs l. call_of c i = \<lparr>todo = b # bs, at_pc = Fetching l\<rparr>)"

lemma fetching_lock:
  assumes "lock_inv c" "fetching c i b"
  shows "\<exists>l. map_of (locks c) b = Some l \<and> holder c l = Some i"
proof -
  obtain bs l where k: "call_of c i = \<lparr>todo = b # bs, at_pc = Fetching l\<rparr>" using assms(2) by (auto simp: fetching_def)
  have "call_wf c i" "holder c l = Some i \<longleftrightarrow> held_at (at_pc (call_of c i)) = Some l"
    using assms(1) by (simp_all add: lock_inv_def)
  then show ?thesis using k by (auto simp: call_wf_def)
qed

lemma fetching_unique: "lock_inv c \<Longrightarrow> fetching c i b \<Longrightarrow> fetching c j b \<Longrightarrow> i = j"
  using fetching_lock[of c i b] fetching_lock[of c j b] by auto

definition fetch_inv :: "nar_cache \<Rightarrow> bool" where
  "fetch_inv c \<longleftrightarrow> (\<forall>i b. fetching c i b \<longrightarrow> b \<notin> present c)"

lemma step_fetching:
  assumes "call_step i c d" "fetching d j b"
  shows "fetching c j b \<or> j = i \<and> b \<notin> present d"
  using assms by (induction rule: call_step.induct) (auto simp: fetching_def split: if_splits)

lemma step_present:
  assumes "call_step i c d"
  shows "present c \<subseteq> present d" "b \<in> present d \<Longrightarrow> b \<notin> present c \<Longrightarrow> fetching c i b \<and> \<not> fetching d i b"
  using assms by (induction rule: call_step.induct) (auto simp: fetching_def)

lemma fetch_inv_step:
  assumes "call_step i c d" "lock_inv c" "fetch_inv c"
  shows "fetch_inv d"
  unfolding fetch_inv_def
proof (intro allI impI notI)
  fix j b assume f: "fetching d j b" and b: "b \<in> present d"
  then have fc: "fetching c j b" using step_fetching[OF assms(1) f] by blast
  then have "b \<notin> present c" using assms(3) by (simp add: fetch_inv_def)
  then have "fetching c i b" "\<not> fetching d i b" using step_present(2)[OF assms(1) b] by blast+
  then show False using fetching_unique[OF assms(2) fc] f by blast
qed

lemma drop_simps [simp]:
  "call_of (drop_call i c) j = (if j = i then \<lparr>todo = todo (call_of c i), at_pc = Returned False\<rparr> else call_of c j)"
  "locks (drop_call i c) = locks c" "present (drop_call i c) = present c"
  "holder (drop_call i c) l = (if holder c l = Some i then None else holder c l)"
  by (simp_all add: drop_call_def)

lemma drop_inv:
  assumes "lock_inv c" "fetch_inv c"
  shows "lock_inv (drop_call i c) \<and> fetch_inv (drop_call i c)"
proof
  have "call_wf (drop_call i c) j" for j using assms(1) by (auto simp: lock_inv_def call_wf_def Let_def)
  moreover have "holder (drop_call i c) l = Some j \<longleftrightarrow> held_at (at_pc (call_of (drop_call i c) j)) = Some l" for j l
  proof -
    have h: "holder c l = Some k \<longleftrightarrow> held_at (at_pc (call_of c k)) = Some l" for k using assms(1) by (simp add: lock_inv_def)
    from h[of i] h[of j] show ?thesis by auto
  qed
  ultimately show "lock_inv (drop_call i c)" using assms(1) by (simp add: lock_inv_def)
  show "fetch_inv (drop_call i c)" using assms(2) by (auto simp: fetch_inv_def fetching_def)
qed

lemma reachable_inv: "cache_reachable P closures c \<Longrightarrow> lock_inv c \<and> fetch_inv c"
proof (induction rule: rtranclp_induct)
  case base
  show ?case by (simp add: cache_start_def lock_inv_def locks_wf_def call_wf_def fetch_inv_def fetching_def)
next
  case (step c d)
  then show ?case using lock_inv_step fetch_inv_step drop_inv by (auto simp: any_step_def)
qed

text \<open>The paths a call has gone past are cached, and stay so.\<close>

definition done_inv :: "(nat \<Rightarrow> string list) \<Rightarrow> nar_cache \<Rightarrow> bool" where
  "done_inv closures c \<longleftrightarrow> (\<forall>i. set (closures i) \<subseteq> present c \<union> set (todo (call_of c i)))"

lemma step_todo: "call_step i c d \<Longrightarrow> set (todo (call_of c i)) \<subseteq> present d \<union> set (todo (call_of d i))"
  by (induction rule: call_step.induct) auto

lemma done_inv_step:
  assumes "call_step i c d" "done_inv closures c"
  shows "done_inv closures d"
  unfolding done_inv_def
proof
  fix j
  have "call_of d j = call_of c j" if "j \<noteq> i"
    using assms(1) that by (induction rule: call_step.induct) auto
  then have "set (todo (call_of c j)) \<subseteq> present d \<union> set (todo (call_of d j))"
    using step_todo[OF assms(1)] by (cases "j = i") auto
  moreover have "set (closures j) \<subseteq> present c \<union> set (todo (call_of c j))" using assms(2) by (simp add: done_inv_def)
  ultimately show "set (closures j) \<subseteq> present d \<union> set (todo (call_of d j))" using step_present(1)[OF assms(1)] by blast
qed

lemma reachable_done: "cache_reachable P closures c \<Longrightarrow> done_inv closures c"
proof (induction rule: rtranclp_induct)
  case base
  show ?case by (simp add: cache_start_def done_inv_def)
next
  case (step c d)
  moreover have "done_inv closures (drop_call i c)" if "done_inv closures c" for i
    using that by (auto simp: done_inv_def)
  ultimately show ?case using done_inv_step by (auto simp: any_step_def)
qed

subsection \<open>Progress\<close>

lemma critical_enabled:
  assumes "lock_inv c" "held_at (at_pc (call_of c j)) = Some l"
  shows "\<exists>d. call_step j c d"
proof -
  have "todo (call_of c j) \<noteq> []"
    using assms held_lock by (fastforce simp: lock_inv_def call_wf_def Let_def)
  then obtain b bs where t: "todo (call_of c j) = b # bs" by (cases "todo (call_of c j)") auto
  consider "call_of c j = \<lparr>todo = b # bs, at_pc = Holding l\<rparr>" | "call_of c j = \<lparr>todo = b # bs, at_pc = Fetching l\<rparr>"
    using assms(2) t by (cases "at_pc (call_of c j)") (auto intro: cache_call.equality)
  then show ?thesis
    by cases (blast intro: double_check fetch fetched)+
qed

lemma running_enabled:
  assumes inv: "lock_inv c" and run: "\<nexists>ok. at_pc (call_of c i) = Returned ok"
  shows "\<exists>j d. call_step j c d"
proof -
  obtain bs pc where k: "call_of c i = \<lparr>todo = bs, at_pc = pc\<rparr>" by (metis cache_call.cases)
  have wf: "call_wf c i" using inv by (simp add: lock_inv_def)
  show ?thesis
  proof (cases pc)
    case Looking
    then show ?thesis using k by (cases bs) (blast intro: finish already_cached missing)+
  next
    case NeedsLock
    then obtain b bs' where "bs = b # bs'" using wf k by (cases bs) (auto simp: call_wf_def)
    moreover obtain l ls where "entry_or_insert b (locks c) = (l, ls)" by fastforce
    ultimately show ?thesis using k NeedsLock get_lock by blast
  next
    case (Waiting l)
    then obtain b bs' where bs: "bs = b # bs'" using wf k by (cases bs) (auto simp: call_wf_def)
    show ?thesis
    proof (cases "holder c l")
      case None
      then show ?thesis using k Waiting bs acquire by blast
    next
      case (Some j)
      then have "held_at (at_pc (call_of c j)) = Some l" using inv by (simp add: lock_inv_def)
      then show ?thesis using critical_enabled[OF inv] by blast
    qed
  next
    case (Holding l)
    then show ?thesis using critical_enabled[OF inv, of i l] k by auto
  next
    case (Fetching l)
    then show ?thesis using critical_enabled[OF inv, of i l] k by auto
  next
    case (Returned ok)
    then show ?thesis using run k by simp
  qed
qed

section \<open>Properties\<close>

text \<open>C16. However the steps of concurrent calls interleave and whichever calls are dropped, no path is downloaded by two calls at once or when it is already in the cache,
  every call that returns success has its whole closure in the cache, and as long as a call has not returned some call can make a step.\<close>

theorem concurrent_calls_safe:
  assumes "cache_reachable P closures c"
  shows "(fetching c i b \<and> fetching c j b \<longrightarrow> i = j) \<and> (fetching c i b \<longrightarrow> b \<notin> present c) \<and>
    (at_pc (call_of c i) = Returned True \<longrightarrow> set (closures i) \<subseteq> present c) \<and>
    ((\<nexists>ok. at_pc (call_of c i) = Returned ok) \<longrightarrow> (\<exists>j d. call_step j c d))"
proof -
  have inv: "lock_inv c" "fetch_inv c" "done_inv closures c"
    using reachable_inv[OF assms] reachable_done[OF assms] by simp_all
  have "set (closures i) \<subseteq> present c" if "at_pc (call_of c i) = Returned True"
  proof -
    have "todo (call_of c i) = []" using inv(1) that by (simp add: lock_inv_def call_wf_def Let_def)
    moreover have "set (closures i) \<subseteq> present c \<union> set (todo (call_of c i))" using inv(3) by (simp add: done_inv_def)
    ultimately show ?thesis by simp
  qed
  then show ?thesis
    using fetching_unique[OF inv(1)] running_enabled[OF inv(1)] inv(2)[unfolded fetch_inv_def] by blast
qed

theorem concurrent_calls_safe_witness:
  "\<exists>j d. call_step j (set_call 0 [''a''] NeedsLock (cache_start {} (\<lambda>i. [''a'']))) d"
proof -
  let ?s = "cache_start {} (\<lambda>i. [''a''])"
  have "call_step 0 ?s (set_call 0 [''a''] NeedsLock ?s)"
    by (rule missing) (simp_all add: cache_start_def)
  then have "cache_reachable {} (\<lambda>i. [''a'']) (set_call 0 [''a''] NeedsLock ?s)"
    by (intro r_into_rtranclp) (auto simp: any_step_def)
  from concurrent_calls_safe[OF this, of 0] show ?thesis by simp
qed

end
