(* ===== verification/Telemetry.thy ===== *)
theory Telemetry
  imports Niphas_Error
begin

text \<open>
  The set-up of logging and tracing (src/crates/niphas-core/src/telemetry.rs). The environment is a map from names to values. What the
  crates of tracing and OpenTelemetry decide is the record \<open>otel\<close>: which directives are a filter, and for which endpoints the
  two exporters can be built.
\<close>

section \<open>Definitions\<close>

type_synonym environment = "string \<Rightarrow> string option"

record otel =
  filter_valid :: "string \<Rightarrow> bool"
  span_exporter_builds :: "string \<Rightarrow> bool"
  log_exporter_builds :: "string \<Rightarrow> bool"

record telemetry_guard =
  tracer_provider :: "string option"
  logger_provider :: "string option"

datatype layer = FilterLayer string | FmtJsonLayer | OtelLayer string string | OtelLogLayer string string

text \<open>The filter of \<open>RUST_LOG\<close>, or \<open>info\<close>; then the layers of the subscriber, with the exporters when there is an endpoint.
  A provider is named by the endpoint that it exports to.\<close>

definition init_tracing :: "otel \<Rightarrow> environment \<Rightarrow> string \<Rightarrow> ('e, layer list \<times> telemetry_guard) outcome" where
  "init_tracing ot env service_name =
     (let directives = (case env ''RUST_LOG'' of Some d \<Rightarrow> if filter_valid ot d then d else ''info'' | None \<Rightarrow> ''info'') in
      case env ''OTEL_EXPORTER_OTLP_ENDPOINT'' of
        Some endpoint \<Rightarrow>
          if \<not> span_exporter_builds ot endpoint then Panic
          else if \<not> log_exporter_builds ot endpoint then Panic
          else Ok ([FilterLayer directives, FmtJsonLayer, OtelLayer service_name endpoint, OtelLogLayer service_name endpoint],
                   \<lparr>tracer_provider = Some endpoint, logger_provider = Some endpoint\<rparr>)
      | None \<Rightarrow> Ok ([FilterLayer directives, FmtJsonLayer], \<lparr>tracer_provider = None, logger_provider = None\<rparr>))"

datatype shutdown = TracerShutdown string | LoggerShutdown string

text \<open>\<open>Drop\<close>: what is shut down, and the guard afterwards.\<close>

definition telemetry_drop :: "telemetry_guard \<Rightarrow> shutdown list \<times> telemetry_guard" where
  "telemetry_drop g =
     ((case tracer_provider g of Some e \<Rightarrow> [TracerShutdown e] | None \<Rightarrow> []) @
      (case logger_provider g of Some e \<Rightarrow> [LoggerShutdown e] | None \<Rightarrow> []),
      g\<lparr>tracer_provider := None, logger_provider := None\<rparr>)"

text \<open>Exporters that can always be built.\<close>

definition plain_otel :: otel where
  "plain_otel = \<lparr>filter_valid = (\<lambda>_. True), span_exporter_builds = (\<lambda>_. True), log_exporter_builds = (\<lambda>_. True)\<rparr>"

section \<open>Lemmas\<close>

text \<open>Every provider that was started is shut down when the guard is dropped, once, and nothing else.\<close>

definition shutdown_of :: "layer \<Rightarrow> shutdown list" where
  "shutdown_of l = (case l of OtelLayer _ e \<Rightarrow> [TracerShutdown e] | OtelLogLayer _ e \<Rightarrow> [LoggerShutdown e] | _ \<Rightarrow> [])"

lemma telemetry_flushed:
  assumes "init_tracing ot env nm = Ok (layers, g)"
  shows "fst (telemetry_drop g) = concat (map shutdown_of layers)" "fst (telemetry_drop (snd (telemetry_drop g))) = []"
  using assms by (auto simp: init_tracing_def telemetry_drop_def shutdown_of_def Let_def split: option.splits if_splits)

lemma init_tracing_panic_iff:
  "init_tracing ot env nm = Panic \<longleftrightarrow>
     (\<exists>e. env ''OTEL_EXPORTER_OTLP_ENDPOINT'' = Some e \<and> \<not> (span_exporter_builds ot e \<and> log_exporter_builds ot e))"
  by (auto simp: init_tracing_def Let_def split: option.split)

end
