(* ===== verification/Config_Source.thy ===== *)
theory Config_Source
  imports Config Crd
begin

text \<open>
  How the configuration is read (src/crates/niphas-core/src/config.rs): the JSON form that the derived
  \<open>Serialize\<close> and \<open>Deserialize\<close> of its structs give it, with camel-case keys and defaults, the sources that
  \<open>load\<close> merges, and the file that the Helm chart provides (src/charts/niphas/templates/configmap.yaml).

  Reading the sources and merging them is the crate figment. It is the argument \<open>read\<close>, from a provider to
  its value or the text of an error, and the argument \<open>merge\<close>; the locale \<open>figment\<close> states what the documentation of
  the crate promises of them. A struct is given by a map; the positional form that the derived code also
  accepts is left out.
\<close>

section \<open>Definitions\<close>

subsection \<open>Writing\<close>

definition cache_config_json :: "cache_config \<Rightarrow> json" where
  "cache_config_json c =
     JObj ((''url'', JStr (cache_url c)) # (case public_key c of None \<Rightarrow> [] | Some pk \<Rightarrow> [(''publicKey'', JStr pk)]) @
       [(''priority'', JInt (uint (priority c)))])"

definition closure_resolution_json :: "closure_resolution_config \<Rightarrow> json" where
  "closure_resolution_json c =
     JObj [(''concurrency'', JInt (int (concurrency c))), (''timeout'', JStr (duration_serialize (closure_timeout c)))]"

definition cache_storage_json :: "cache_storage_config \<Rightarrow> json" where
  "cache_storage_json c =
     JObj [(''path'', JStr (cache_path c)), (''highWatermarkBytes'', JInt (uint (high_watermark_bytes c))),
       (''lowWatermarkBytes'', JInt (uint (low_watermark_bytes c))), (''gcInterval'', JStr (duration_serialize (gc_interval c)))]"

definition config_json :: "niphas_config \<Rightarrow> json" where
  "config_json c =
     JObj [(''logLevel'', JStr (log_level c)),
       (''binaryCaches'', JArr (map cache_config_json (binary_caches c))),
       (''allowedFlakeOrigins'', jstrs (allowed_flake_origins c)),
       (''allowedUris'', jstrs (allowed_uris c)),
       (''evalTimeout'', JStr (duration_serialize (eval_timeout c))),
       (''closureResolution'', closure_resolution_json (closure_resolution c)),
       (''cache'', cache_storage_json (cache c)),
       (''evalWebhookUrl'', JStr (eval_webhook_url c)),
       (''healthPort'', JInt (uint (health_port c)))]"

subsection \<open>Reading\<close>

text \<open>An unsigned integer of the given width, a duration, a field with a default.\<close>

definition uint_value :: "nat \<Rightarrow> json \<Rightarrow> int option" where
  "uint_value w j = (case j of JInt i \<Rightarrow> if 0 \<le> i \<and> i < 2 ^ w then Some i else None | _ \<Rightarrow> None)"

definition word_value :: "json \<Rightarrow> 'a::len word option" where
  "word_value j = map_option word_of_int (uint_value LENGTH('a) j)"

definition duration_value :: "json \<Rightarrow> u64 option" where
  "duration_value j =
     (case str_value j of None \<Rightarrow> None | Some s \<Rightarrow> (case parse_duration s of Ok d \<Rightarrow> Some d | _ \<Rightarrow> None))"

definition field_default :: "(json \<Rightarrow> 'a option) \<Rightarrow> 'a \<Rightarrow> string \<Rightarrow> json \<Rightarrow> 'a option" where
  "field_default f d k j = (case jget j k of None \<Rightarrow> Some d | Some v \<Rightarrow> f v)"

definition cache_config_value :: "json \<Rightarrow> cache_config option" where
  "cache_config_value j = (if \<not> is_obj j then None else
     Option.bind (field_req str_value ''url'' j) (\<lambda>u.
     Option.bind (field_opt str_value ''publicKey'' j) (\<lambda>pk.
     Option.bind (field_default word_value default_cache_priority ''priority'' j) (\<lambda>pr.
     Some \<lparr>cache_url = u, public_key = pk, priority = pr\<rparr>))))"

definition closure_resolution_value :: "json \<Rightarrow> closure_resolution_config option" where
  "closure_resolution_value j = (if \<not> is_obj j then None else
     Option.bind (field_default (\<lambda>v. map_option nat (uint_value 64 v)) (concurrency default_closure_resolution_config) ''concurrency'' j) (\<lambda>n.
     Option.bind (field_default duration_value (closure_timeout default_closure_resolution_config) ''timeout'' j) (\<lambda>t.
     Some \<lparr>concurrency = n, closure_timeout = t\<rparr>)))"

definition cache_storage_value :: "json \<Rightarrow> cache_storage_config option" where
  "cache_storage_value j = (if \<not> is_obj j then None else
     Option.bind (field_default str_value (cache_path default_cache_storage_config) ''path'' j) (\<lambda>p.
     Option.bind (field_default word_value (high_watermark_bytes default_cache_storage_config) ''highWatermarkBytes'' j) (\<lambda>hi.
     Option.bind (field_default word_value (low_watermark_bytes default_cache_storage_config) ''lowWatermarkBytes'' j) (\<lambda>lo.
     Option.bind (field_default duration_value (gc_interval default_cache_storage_config) ''gcInterval'' j) (\<lambda>gc.
     Some \<lparr>cache_path = p, high_watermark_bytes = hi, low_watermark_bytes = lo, gc_interval = gc\<rparr>)))))"

definition config_value :: "json \<Rightarrow> niphas_config option" where
  "config_value j = (if \<not> is_obj j then None else
     Option.bind (field_default str_value (log_level default_config) ''logLevel'' j) (\<lambda>ll.
     Option.bind (field_default (list_value cache_config_value) [] ''binaryCaches'' j) (\<lambda>bc.
     Option.bind (field_default (list_value str_value) [] ''allowedFlakeOrigins'' j) (\<lambda>afo.
     Option.bind (field_default (list_value str_value) [] ''allowedUris'' j) (\<lambda>au.
     Option.bind (field_default duration_value (eval_timeout default_config) ''evalTimeout'' j) (\<lambda>et.
     Option.bind (field_default closure_resolution_value default_closure_resolution_config ''closureResolution'' j) (\<lambda>cr.
     Option.bind (field_default cache_storage_value default_cache_storage_config ''cache'' j) (\<lambda>ca.
     Option.bind (field_default str_value (eval_webhook_url default_config) ''evalWebhookUrl'' j) (\<lambda>eu.
     Option.bind (field_default word_value (health_port default_config) ''healthPort'' j) (\<lambda>hp.
     Some \<lparr>log_level = ll, binary_caches = bc, allowed_flake_origins = afo, allowed_uris = au, eval_timeout = et,
           closure_resolution = cr, cache = ca, eval_webhook_url = eu, health_port = hp\<rparr>))))))))))"

subsection \<open>Merging the sources\<close>

text \<open>\<open>Figment::from(p).merge(q)...extract()\<close>.\<close>

definition merged :: "(json \<Rightarrow> json \<Rightarrow> json) \<Rightarrow> json list \<Rightarrow> json" where
  "merged merge js = (case js of [] \<Rightarrow> JObj [] | j # js \<Rightarrow> foldl merge j js)"

definition figment_extract ::
  "(json \<Rightarrow> json \<Rightarrow> json) \<Rightarrow> (provider \<Rightarrow> (string, json) outcome) \<Rightarrow> string \<Rightarrow> provider list \<Rightarrow> (string, niphas_config) outcome" where
  "figment_extract merge read type_error ps =
     obind (omap read ps) (\<lambda>js. ok_or type_error (config_value (merged merge js)))"

text \<open>The values of the chart that the file is made of, and the file; an empty range leaves a key without a value.\<close>

record chart_values =
  cv_log_level :: string
  cv_binary_caches :: "string list"
  cv_allowed_flake_origins :: "string list"
  cv_eval_webhook_url :: string
  cv_health_port :: int
  cv_eval_timeout :: string
  cv_cache_path :: string
  cv_high_watermark :: int
  cv_low_watermark :: int
  cv_gc_interval :: string

definition yaml_list :: "string list \<Rightarrow> json" where
  "yaml_list xs = (if xs = [] then JNull else jstrs xs)"

definition chart_config :: "chart_values \<Rightarrow> (string \<times> json) list" where
  "chart_config v =
      [(''log_level'', JStr (cv_log_level v)),
       (''binary_caches'', yaml_list (cv_binary_caches v)),
       (''allowed_flake_origins'', yaml_list (cv_allowed_flake_origins v)),
       (''eval_webhook_url'', JStr (cv_eval_webhook_url v)),
       (''health_port'', JInt (cv_health_port v)),
       (''eval_timeout'', JStr (cv_eval_timeout v)),
       (''cache'', JObj [(''path'', JStr (cv_cache_path v)), (''high_watermark'', JInt (cv_high_watermark v)),
          (''low_watermark'', JInt (cv_low_watermark v)), (''gc_interval'', JStr (cv_gc_interval v))])]"

text \<open>The values that the chart comes with (src/charts/niphas/values.yaml).\<close>

definition default_chart_values :: chart_values where
  "default_chart_values =
     \<lparr>cv_log_level = ''info'', cv_binary_caches = [''https://cache.nixos.org''], cv_allowed_flake_origins = [''github:*''],
      cv_eval_webhook_url = ''http://niphas-eval.niphas-system.svc:8443'', cv_health_port = 8080, cv_eval_timeout = ''300s'',
      cv_cache_path = ''/var/lib/niphas/cache'', cv_high_watermark = 15000000000, cv_low_watermark = 10000000000,
      cv_gc_interval = ''300s''\<rparr>"

section \<open>Writing and reading\<close>

lemma uint_value_uint [simp]: "word_value (JInt (uint x)) = Some (x :: 'a::len word)"
  using uint_lt2p[of x] by (simp add: word_value_def uint_value_def)

lemma duration_value_serialize [simp]: "duration_value (JStr (duration_serialize d)) = Some d"
  by (simp add: duration_value_def duration_roundtrip)

lemma list_value_map:
  "(\<And>x. x \<in> set xs \<Longrightarrow> f (g x) = Some x) \<Longrightarrow> list_value f (JArr (map g xs)) = Some xs"
  unfolding list_value_def by (induction xs) auto

lemma cache_config_value_json [simp]: "cache_config_value (cache_config_json c) = Some c"
  by (cases "public_key c")
    (simp_all add: cache_config_value_def cache_config_json_def field_req_def field_opt_def field_default_def)

lemma closure_resolution_value_json:
  "concurrency c < 2 ^ 64 \<Longrightarrow> closure_resolution_value (closure_resolution_json c) = Some c"
proof -
  assume "concurrency c < 2 ^ 64"
  then have "int (concurrency c) < 2 ^ 64" by simp
  then show ?thesis
    by (simp add: closure_resolution_value_def closure_resolution_json_def field_default_def uint_value_def)
qed

lemma cache_storage_value_json [simp]: "cache_storage_value (cache_storage_json c) = Some c"
  by (simp add: cache_storage_value_def cache_storage_json_def field_default_def)

lemma config_value_json:
  "concurrency (closure_resolution c) < 2 ^ 64 \<Longrightarrow> config_value (config_json c) = Some c"
  by (simp add: config_value_def config_json_def field_default_def list_value_map closure_resolution_value_json)

section \<open>What a source can set\<close>

text \<open>The keys of the configuration. A value is only looked at under them: unknown keys are ignored, which is what the
  derived code does without \<open>deny_unknown_fields\<close>.\<close>

definition config_keys :: "string list" where
  "config_keys = [''logLevel'', ''binaryCaches'', ''allowedFlakeOrigins'', ''allowedUris'', ''evalTimeout'',
     ''closureResolution'', ''cache'', ''evalWebhookUrl'', ''healthPort'']"

lemma config_value_cong:
  assumes "is_obj j" "is_obj j'" "\<And>k. k \<in> set config_keys \<Longrightarrow> jget j k = jget j' k"
  shows "config_value j = config_value j'"
  using assms by (simp add: config_value_def field_default_def config_keys_def cong: option.case_cong)

text \<open>A value that only differs from a configuration under \<open>cache\<close> gives that configuration with another cache, or none.\<close>

lemma config_value_other_cache:
  assumes "is_obj j" "concurrency (closure_resolution c) < 2 ^ 64"
    "\<And>k. k \<in> set config_keys \<Longrightarrow> k \<noteq> ''cache'' \<Longrightarrow> jget j k = jget (config_json c) k"
  shows "config_value j = map_option (\<lambda>cs. c\<lparr>cache := cs\<rparr>) (field_default cache_storage_value default_cache_storage_config ''cache'' j)"
proof -
  have same: "jget j k = jget (config_json c) k" if "k \<in> set config_keys" "k \<noteq> ''cache''" for k
    using assms(3) that .
  have rebuild: "\<lparr>log_level = log_level c, binary_caches = binary_caches c, allowed_flake_origins = allowed_flake_origins c,
      allowed_uris = allowed_uris c, eval_timeout = eval_timeout c, closure_resolution = closure_resolution c, cache = ca,
      eval_webhook_url = eval_webhook_url c, health_port = health_port c\<rparr> = c\<lparr>cache := ca\<rparr>" for ca
    by (cases c) simp
  have "config_value j =
      Option.bind (field_default cache_storage_value default_cache_storage_config ''cache'' j) (\<lambda>cs. Some (c\<lparr>cache := cs\<rparr>))"
    using assms(1,2) by (simp add: config_value_def field_default_def same config_keys_def config_json_def
        list_value_map closure_resolution_value_json rebuild)
  then show ?thesis by (cases "field_default cache_storage_value default_cache_storage_config ''cache'' j") simp_all
qed

text \<open>The keys that a variable of the environment can give: figment writes them in lower case and cuts them at
  the separator.\<close>

definition env_key :: "string \<Rightarrow> string \<Rightarrow> bool" where
  "env_key sep k \<longleftrightarrow> list_all (\<lambda>c. \<not> (CHR ''A'' \<le> c \<and> c \<le> CHR ''Z'') \<and> c \<notin> set sep) k"

lemma env_key_cache: "k \<in> set config_keys \<Longrightarrow> env_key sep k \<Longrightarrow> k = ''cache''"
  by (auto simp: config_keys_def env_key_def less_eq_char_def)

text \<open>The documented behaviour of the crate: \<open>merge\<close> merges maps key by key and otherwise takes the later value,
  the defaults are the serialized configuration, every source is a map.\<close>

locale figment =
  fixes merge :: "json \<Rightarrow> json \<Rightarrow> json" and read :: "provider \<Rightarrow> (string, json) outcome"
  assumes merge_obj: "is_obj a \<Longrightarrow> is_obj b \<Longrightarrow> is_obj (merge a b)"
    and merge_get: "is_obj a \<Longrightarrow> is_obj b \<Longrightarrow> jget (merge a b) k =
      (case jget b k of None \<Rightarrow> jget a k | Some v \<Rightarrow> Some (case jget a k of None \<Rightarrow> v | Some u \<Rightarrow> merge u v))"
    and merge_other: "\<not> (is_obj a \<and> is_obj b) \<Longrightarrow> merge a b = b"
    and read_defaults: "read (Defaults c) = Ok (config_json c)"
    and read_obj: "read p = Ok j \<Longrightarrow> is_obj j"
    and read_env: "read (EnvPrefixed pre sep) = Ok j \<Longrightarrow> jget j k \<noteq> None \<Longrightarrow> env_key sep k"
    and read_returns: "settled (read p)"
begin

lemma merge_keeps: "is_obj a \<Longrightarrow> is_obj b \<Longrightarrow> jget b k = None \<Longrightarrow> jget (merge a b) k = jget a k"
  by (simp add: merge_get)

text \<open>The sources of \<open>load(None)\<close> when the file has none of the keys but \<open>cache\<close>.\<close>

lemma merged_sources:
  assumes "is_obj a" "is_obj file" "is_obj env" "\<And>k. k \<in> set config_keys \<Longrightarrow> k \<noteq> ''cache'' \<Longrightarrow> jget file k = None"
    and "\<And>k. jget env k \<noteq> None \<Longrightarrow> env_key sep k"
  shows "is_obj (merged merge [a, file, env])"
    and "k \<in> set config_keys \<Longrightarrow> k \<noteq> ''cache'' \<Longrightarrow> jget (merged merge [a, file, env]) k = jget a k"
proof -
  show "is_obj (merged merge [a, file, env])" using assms(1-3) by (simp add: merged_def merge_obj)
  assume k: "k \<in> set config_keys" "k \<noteq> ''cache''"
  then have "jget env k = None" using assms(5)[of k] env_key_cache by blast
  then show "jget (merged merge [a, file, env]) k = jget a k"
    using assms k by (simp add: merged_def merge_obj merge_keeps)
qed

lemma file_without_keys:
  assumes yaml: "read (YamlFile ''/etc/niphas/config.yaml'') = Ok file"
    and "\<And>k. k \<in> set config_keys \<Longrightarrow> k \<noteq> ''cache'' \<Longrightarrow> jget file k = None"
  shows "\<exists>cs. config_load_or_default (figment_extract merge read err) None = Ok (default_config\<lparr>cache := cs\<rparr>)"
proof (cases "read (EnvPrefixed ''NIPHAS_'' ''_'')")
  case (Ok env)
  let ?j = "merged merge [config_json default_config, file, env]"
  have objs: "is_obj (config_json default_config)" "is_obj file" "is_obj env"
    using read_obj read_defaults yaml Ok by blast+
  have "config_value ?j = map_option (\<lambda>cs. default_config\<lparr>cache := cs\<rparr>)
      (field_default cache_storage_value default_cache_storage_config ''cache'' ?j)"
    using merged_sources[OF objs assms(2) read_env[OF Ok]]
    by (intro config_value_other_cache) (simp_all add: default_config_def default_closure_resolution_config_def)
  then have "config_value ?j = None \<or> (\<exists>cs. config_value ?j = Some (default_config\<lparr>cache := cs\<rparr>))"
    by (cases "field_default cache_storage_value default_cache_storage_config ''cache'' ?j") auto
  moreover have "figment_extract merge read err (config_providers None) = ok_or err (config_value ?j)"
    using Ok yaml by (simp add: figment_extract_def config_providers_def read_defaults)
  moreover have "default_config = default_config\<lparr>cache := default_cache_storage_config\<rparr>"
    by (simp add: default_config_def)
  ultimately show ?thesis by (auto simp: config_load_or_default_def config_load_def)
next
  case (Err e)
  have "default_config = default_config\<lparr>cache := default_cache_storage_config\<rparr>"
    by (simp add: default_config_def)
  then show ?thesis using Err yaml
    by (auto simp: config_load_or_default_def config_load_def figment_extract_def config_providers_def read_defaults)
qed (use read_returns[of "EnvPrefixed ''NIPHAS_'' ''_''"] in \<open>simp_all add: settled_iff\<close>)

text \<open>A file with the keys of the program does set them, here the allowlist.\<close>

lemma file_sets_allowlist:
  assumes "concurrency (closure_resolution c) < 2 ^ 64"
  shows "config_value (merge (config_json c) (JObj [(''allowedFlakeOrigins'', jstrs xs)])) = Some (c\<lparr>allowed_flake_origins := xs\<rparr>)"
proof -
  let ?file = "JObj [(''allowedFlakeOrigins'', jstrs xs)]"
  have "is_obj (config_json c)" by (simp add: config_json_def)
  moreover have "merge (jstrs (allowed_flake_origins c)) (jstrs xs) = jstrs xs" by (rule merge_other) (simp add: is_obj_def)
  ultimately have "config_value (merge (config_json c) ?file) = config_value (config_json (c\<lparr>allowed_flake_origins := xs\<rparr>))"
    by (intro config_value_cong) (auto simp: merge_obj merge_get config_json_def)
  then show ?thesis using assms by (simp add: config_value_json)
qed

text \<open>A configuration that cannot be read is the default one.\<close>

lemma extract_failed_default:
  "figment_extract merge read err (config_providers path) = Err e \<Longrightarrow>
     config_load_or_default (figment_extract merge read err) path = Ok default_config"
  by (simp add: config_load_or_default_def config_load_def)

end

section \<open>A merge and a reader with the documented behaviour\<close>

lemma json_field_size: "(k, u) \<in> set xs \<Longrightarrow> size (u :: json) < Suc (size_list (size_prod (\<lambda>_. 0) size) xs)"
  by (induction xs) auto

function deep_merge :: "json \<Rightarrow> json \<Rightarrow> json" where
  "deep_merge a b =
     (case (a, b) of
        (JObj xs, JObj ys) \<Rightarrow>
          JObj (map (\<lambda>(k, u). (k, case map_of ys k of None \<Rightarrow> u | Some v \<Rightarrow> deep_merge u v)) xs @
            filter (\<lambda>(k, v). map_of xs k = None) ys)
      | _ \<Rightarrow> b)"
  by pat_completeness auto
termination
  by (relation "measure (\<lambda>(a, b). size a)") (auto simp: json_field_size)

declare deep_merge.simps [simp del]

definition plain_read :: "(string \<times> json) list \<Rightarrow> (string \<times> json) list \<Rightarrow> provider \<Rightarrow> (string, json) outcome" where
  "plain_read yaml vars p =
     (case p of
        Defaults c \<Rightarrow> Ok (config_json c)
      | YamlFile path \<Rightarrow> Ok (JObj yaml)
      | EnvPrefixed pre sep \<Rightarrow> Ok (JObj (filter (\<lambda>(k, v). env_key sep k) vars)))"

lemma map_of_map_values: "map_of (map (\<lambda>(k, u). (k, f k u)) xs) k = map_option (f k) (map_of xs k)"
  by (induction xs) auto

lemma map_of_filter_fst: "map_of (filter (\<lambda>(k, v). P k) xs) k = (if P k then map_of xs k else None)"
  by (induction xs) auto

lemma deep_merge_get:
  "map_of (map (\<lambda>(k, u). (k, case map_of ys k of None \<Rightarrow> u | Some v \<Rightarrow> deep_merge u v)) xs @
     filter (\<lambda>(k, v). map_of xs k = None) ys) k =
   (case map_of ys k of None \<Rightarrow> map_of xs k | Some v \<Rightarrow> Some (case map_of xs k of None \<Rightarrow> v | Some u \<Rightarrow> deep_merge u v))"
  using map_of_map_values[of "\<lambda>k u. case map_of ys k of None \<Rightarrow> u | Some v \<Rightarrow> deep_merge u v" xs k]
    map_of_filter_fst[of "\<lambda>k. map_of xs k = None" ys k]
  by (cases "map_of xs k"; cases "map_of ys k") (simp_all add: map_add_def)

lemma is_obj_iff: "is_obj j \<longleftrightarrow> (\<exists>fs. j = JObj fs)"
  by (cases j) (simp_all add: is_obj_def)

interpretation plain: figment deep_merge "plain_read yaml vars" for yaml vars
proof unfold_locales
  fix a b k
  assume "is_obj a" "is_obj b"
  then obtain xs ys where ab: "a = JObj xs" "b = JObj ys" by (auto simp: is_obj_iff)
  show "is_obj (deep_merge a b)" by (simp add: ab deep_merge.simps)
  show "jget (deep_merge a b) k =
      (case jget b k of None \<Rightarrow> jget a k | Some v \<Rightarrow> Some (case jget a k of None \<Rightarrow> v | Some u \<Rightarrow> deep_merge u v))"
    using deep_merge_get[of ys xs k] by (simp add: ab deep_merge.simps[of "JObj xs" "JObj ys"] cong: option.case_cong)
next
  fix a b
  assume "\<not> (is_obj a \<and> is_obj b)"
  then show "deep_merge a b = b" by (cases a; cases b) (simp_all add: deep_merge.simps)
next
  fix c p j k pre sep
  show "plain_read yaml vars (Defaults c) = Ok (config_json c)" by (simp add: plain_read_def)
  show "settled (plain_read yaml vars p)" by (cases p) (simp_all add: plain_read_def)
  assume "plain_read yaml vars p = Ok j"
  then show "is_obj j" by (cases p) (auto simp: plain_read_def config_json_def)
next
  fix j k pre sep
  assume "plain_read yaml vars (EnvPrefixed pre sep) = Ok j" "jget j k \<noteq> None"
  then show "env_key sep k"
    using map_of_filter_fst[of "env_key sep" vars k] by (auto simp: plain_read_def split: if_splits)
qed

section \<open>Properties\<close>

text \<open>C35. The configuration that is written is the configuration that is read, for every configuration whose concurrency is a
  64-bit number.\<close>

theorem config_roundtrip: "concurrency (closure_resolution c) < 2 ^ 64 \<Longrightarrow> config_value (config_json c) = Some c"
  by (rule config_value_json)

theorem config_roundtrip_witness: "config_value (config_json default_config) = Some default_config"
  by (rule config_roundtrip) (simp add: default_config_def default_closure_resolution_config_def)

text \<open>The environment reaches only \<open>cache\<close>: no variable \<open>NIPHAS_...\<close> can change any other key.\<close>

lemma environment_reaches_cache_only: "filter (env_key ''_'') config_keys = [''cache'']"
  by (simp add: config_keys_def env_key_def less_eq_char_def)

text \<open>The file of the chart has no key of the configuration but \<open>cache\<close>.\<close>

lemma chart_config_keys: "k \<in> set config_keys \<Longrightarrow> k \<noteq> ''cache'' \<Longrightarrow> jget (JObj (chart_config v)) k = None"
  by (auto simp: config_keys_def chart_config_def)

end
