(* ===== verification/Http_Services.thy ===== *)
theory Http_Services
  imports Telemetry Evaluator Config_Source Mock_Eval Reconciler
begin

text \<open>
  The HTTP servers: the routes of the evaluation service (src/crates/niphas-eval/src/lib.rs), of the health server of the operator
  (src/crates/niphas-operator/src/health.rs) and of the mock (src/crates/niphas-e2e/src/bin/mock_eval.rs), the evaluation service
  behind its routes, and its start (src/crates/niphas-eval/src/main.rs).

  The web framework (crate axum) is an argument: \<open>dispatch\<close> chooses the handler of a table of routes or the status of a
  refusal, with the locale \<open>axum\<close> as what its documentation says of it, and \<open>from_json\<close> is the extractor \<open>Json\<close>, which
  gives the request or the status of its rejection.
\<close>

section \<open>Definitions\<close>

datatype http_method = GET | HEAD | POST | PUT | DELETE | PATCH | OPTIONS

type_synonym 'h routes = "(string \<times> http_method \<times> 'h) list"

record http_request =
  rq_method :: http_method
  rq_path :: string
  rq_content_type :: "string option"
  rq_body :: string

datatype eval_route = EvaluateRoute | HealthzRoute | ReadyzRoute

definition app :: "eval_route routes" where
  "app = [(''/evaluate'', POST, EvaluateRoute), (''/healthz'', GET, HealthzRoute), (''/readyz'', GET, ReadyzRoute)]"

definition mock_app :: "eval_route routes" where
  "mock_app = [(''/evaluate'', POST, EvaluateRoute), (''/healthz'', GET, HealthzRoute), (''/readyz'', GET, ReadyzRoute)]"

datatype health_route = OpHealthz | OpReadyz

definition health_router :: "health_route routes" where
  "health_router = [(''/healthz'', GET, OpHealthz), (''/readyz'', GET, OpReadyz)]"

text \<open>The status of the health server for the readiness flag.\<close>

definition health_http ::
  "(health_route routes \<Rightarrow> http_method \<Rightarrow> string \<Rightarrow> nat + health_route) \<Rightarrow> bool \<Rightarrow> http_request \<Rightarrow> nat" where
  "health_http dispatch ready rq =
     (case dispatch health_router (rq_method rq) (rq_path rq) of
        Inl code \<Rightarrow> code
      | Inr OpHealthz \<Rightarrow> op_healthz
      | Inr OpReadyz \<Rightarrow> op_readyz ready)"

text \<open>One request to the evaluation service: the status and body, and the evaluator afterwards.\<close>

definition eval_http ::
  "(eval_route routes \<Rightarrow> http_method \<Rightarrow> string \<Rightarrow> nat + eval_route) \<Rightarrow> (http_request \<Rightarrow> nat + eval_request) \<Rightarrow>
     'k eval_env \<Rightarrow> evaluator \<Rightarrow> http_request \<Rightarrow> (app_error, nat \<times> http_body) outcome \<times> evaluator" where
  "eval_http dispatch from_json env ev rq =
     (case dispatch app (rq_method rq) (rq_path rq) of
        Inl code \<Rightarrow> (Ok (code, NoBody), ev)
      | Inr EvaluateRoute \<Rightarrow>
          (case from_json rq of Inl code \<Rightarrow> (Ok (code, NoBody), ev) | Inr req \<Rightarrow> evaluate_handler env ev req)
      | Inr HealthzRoute \<Rightarrow> (Ok (healthz, NoBody), ev)
      | Inr ReadyzRoute \<Rightarrow> (Ok (readyz ev, NoBody), ev))"

text \<open>A session: the requests, each with the world it meets, and their answers.\<close>

fun eval_session ::
  "(eval_route routes \<Rightarrow> http_method \<Rightarrow> string \<Rightarrow> nat + eval_route) \<Rightarrow> (http_request \<Rightarrow> nat + eval_request) \<Rightarrow>
     evaluator \<Rightarrow> ('k eval_env \<times> http_request) list \<Rightarrow> (app_error, nat \<times> http_body) outcome list \<times> evaluator" where
  "eval_session dispatch from_json ev [] = ([], ev)"
| "eval_session dispatch from_json ev ((env, rq) # calls) =
     (case eval_http dispatch from_json env ev rq of (r, ev1) \<Rightarrow>
      case eval_session dispatch from_json ev1 calls of (rs, ev2) \<Rightarrow> (r # rs, ev2))"

text \<open>\<open>main\<close> up to the point where the server accepts requests; \<open>bind\<close> is \<open>TcpListener::bind\<close>.\<close>

definition eval_main ::
  "otel \<Rightarrow> environment \<Rightarrow> (provider list \<Rightarrow> (string, niphas_config) outcome) \<Rightarrow> unit option \<Rightarrow> string \<Rightarrow>
     (string \<Rightarrow> (string, unit) outcome) \<Rightarrow> (string, evaluator) outcome" where
  "eval_main ot env extract built build_error bind =
     obind (init_tracing ot env ''niphas-eval'') (\<lambda>_.
     obind (config_load_or_default extract None) (\<lambda>config.
     obind (omap_err niphas_error_display (evaluator_new built build_error config)) (\<lambda>ev.
     obind (bind (''0.0.0.0:'' @ nat_display (unat (health_port config)))) (\<lambda>_.
     Ok ev))))"

section \<open>The web framework\<close>

locale axum =
  fixes dispatch :: "'h routes \<Rightarrow> http_method \<Rightarrow> string \<Rightarrow> nat + 'h"
  assumes hit: "distinct (map (\<lambda>(p, m, h). (p, m)) rs) \<Longrightarrow> (p, m, h) \<in> set rs \<Longrightarrow> dispatch rs m p = Inr h"
    and head: "distinct (map (\<lambda>(p, m, h). (p, m)) rs) \<Longrightarrow> (p, GET, h) \<in> set rs \<Longrightarrow> (\<nexists>h'. (p, HEAD, h') \<in> set rs) \<Longrightarrow>
      dispatch rs HEAD p = Inr h"
    and no_path: "(\<nexists>m' h. (p, m', h) \<in> set rs) \<Longrightarrow> dispatch rs m p = Inl 404"
    and no_method: "(p, m', h') \<in> set rs \<Longrightarrow> (\<nexists>h. (p, m, h) \<in> set rs) \<Longrightarrow> \<not> (m = HEAD \<and> (\<exists>h. (p, GET, h) \<in> set rs)) \<Longrightarrow>
      dispatch rs m p = Inl 405"
begin

text \<open>A handler runs only for its own path and method, or for HEAD in place of GET; every refusal is 404 or 405.\<close>

lemma dispatch_sound:
  assumes "distinct (map (\<lambda>(p, m, h). (p, m)) rs)" "dispatch rs m p = Inr h"
  shows "(p, m, h) \<in> set rs \<or> m = HEAD \<and> (p, GET, h) \<in> set rs"
proof (cases "\<exists>h'. (p, m, h') \<in> set rs")
  case True
  then show ?thesis using hit[OF assms(1)] assms(2) by fastforce
next
  case False
  show ?thesis
  proof (cases "m = HEAD \<and> (\<exists>h'. (p, GET, h') \<in> set rs)")
    case True
    then show ?thesis using head[OF assms(1), of p] False assms(2) by fastforce
  next
    case none: False
    show ?thesis
      using no_path[of p rs m] no_method[of p _ _ rs m] False none assms(2) by (metis Inl_Inr_False)
  qed
qed

lemma dispatch_refusal:
  assumes "distinct (map (\<lambda>(p, m, h). (p, m)) rs)" "dispatch rs m p = Inl code"
  shows "code = 404 \<or> code = 405"
proof (cases "\<exists>h'. (p, m, h') \<in> set rs \<or> m = HEAD \<and> (p, GET, h') \<in> set rs")
  case True
  then obtain h where "dispatch rs m p = Inr h" using hit[OF assms(1)] head[OF assms(1)] by metis
  then show ?thesis using assms(2) by simp
next
  case False
  then show ?thesis using no_path[of p rs m] no_method[of p _ _ rs m] assms(2) by (metis Inl_inject)
qed

end

text \<open>A dispatcher with the documented behaviour.\<close>

definition first_route :: "'h routes \<Rightarrow> http_method \<Rightarrow> string \<Rightarrow> 'h option" where
  "first_route rs m p = map_option (snd \<circ> snd) (find (\<lambda>(p', m', h). p' = p \<and> m' = m) rs)"

definition table_dispatch :: "'h routes \<Rightarrow> http_method \<Rightarrow> string \<Rightarrow> nat + 'h" where
  "table_dispatch rs m p =
     (case first_route rs m p of
        Some h \<Rightarrow> Inr h
      | None \<Rightarrow> (case if m = HEAD then first_route rs GET p else None of
          Some h \<Rightarrow> Inr h
        | None \<Rightarrow> Inl (if p \<in> fst ` set rs then 405 else 404)))"

lemma first_route_None: "first_route rs m p = None \<longleftrightarrow> (\<nexists>h. (p, m, h) \<in> set rs)"
  by (auto simp: first_route_def find_None_iff)

lemma first_route_Some:
  "distinct (map (\<lambda>(p, m, h). (p, m)) rs) \<Longrightarrow> (p, m, h) \<in> set rs \<Longrightarrow> first_route rs m p = Some h"
  by (induction rs) (auto simp: first_route_def rev_image_eqI)

interpretation axum_table: axum table_dispatch
proof unfold_locales
  fix rs :: "'h routes" and m m' p h h'
  show "distinct (map (\<lambda>(p, m, h). (p, m)) rs) \<Longrightarrow> (p, m, h) \<in> set rs \<Longrightarrow> table_dispatch rs m p = Inr h"
    by (simp add: table_dispatch_def first_route_Some)
  show "distinct (map (\<lambda>(p, m, h). (p, m)) rs) \<Longrightarrow> (p, GET, h) \<in> set rs \<Longrightarrow> (\<nexists>h'. (p, HEAD, h') \<in> set rs) \<Longrightarrow>
      table_dispatch rs HEAD p = Inr h"
    by (simp add: table_dispatch_def first_route_Some first_route_None[THEN iffD2])
  show "(\<nexists>m' h. (p, m', h) \<in> set rs) \<Longrightarrow> table_dispatch rs m p = Inl 404"
    by (force simp: table_dispatch_def first_route_None[THEN iffD2])
  show "(p, m', h') \<in> set rs \<Longrightarrow> (\<nexists>h. (p, m, h) \<in> set rs) \<Longrightarrow> \<not> (m = HEAD \<and> (\<exists>h. (p, GET, h) \<in> set rs)) \<Longrightarrow>
      table_dispatch rs m p = Inl 405"
    by (force simp: table_dispatch_def first_route_None[THEN iffD2])
qed

section \<open>The evaluation service behind its routes\<close>

lemma app_distinct: "distinct (map (\<lambda>(p, m, h). (p, m)) app)" "distinct (map (\<lambda>(p, m, h). (p, m)) health_router)"
  by (simp_all add: app_def health_router_def)

locale eval_server = axum dispatch for dispatch :: "eval_route routes \<Rightarrow> http_method \<Rightarrow> string \<Rightarrow> nat + eval_route" +
  fixes from_json :: "http_request \<Rightarrow> nat + eval_request"
  assumes rejection: "from_json rq = Inl code \<Longrightarrow> 400 \<le> code"
begin

abbreviation http :: "'k eval_env \<Rightarrow> evaluator \<Rightarrow> http_request \<Rightarrow> (app_error, nat \<times> http_body) outcome \<times> evaluator" where
  "http \<equiv> eval_http dispatch from_json"

text \<open>Which handler answers which request.\<close>

lemma http_cases:
  fixes env :: "'k eval_env"
  obtains (refused) code where "code = 404 \<or> code = 405" "\<And>f. http (env\<lparr>run_nix := f\<rparr>) ev rq = (Ok (code, NoBody), ev)"
  | (rejected) code where "rq_method rq = POST" "rq_path rq = ''/evaluate''" "400 \<le> code"
      "\<And>f. http (env\<lparr>run_nix := f\<rparr>) ev rq = (Ok (code, NoBody), ev)"
  | (evaluate) req where "rq_method rq = POST" "rq_path rq = ''/evaluate''" "from_json rq = Inr req"
      "\<And>f. http (env\<lparr>run_nix := f\<rparr>) ev rq = evaluate_handler (env\<lparr>run_nix := f\<rparr>) ev req"
  | (probe) code where "rq_method rq \<in> {GET, HEAD}" "rq_path rq = ''/healthz'' \<and> code = 200 \<or> rq_path rq = ''/readyz'' \<and> code = readyz ev"
      "\<And>f. http (env\<lparr>run_nix := f\<rparr>) ev rq = (Ok (code, NoBody), ev)"
proof (cases "dispatch app (rq_method rq) (rq_path rq)")
  case (Inl code)
  then show thesis using dispatch_refusal[OF app_distinct(1) Inl] by (intro refused[of code]) (simp_all add: eval_http_def)
next
  case (Inr h)
  from dispatch_sound[OF app_distinct(1) Inr] show thesis
  proof (cases h)
    case EvaluateRoute
    then have post: "rq_method rq = POST" "rq_path rq = ''/evaluate''"
      using dispatch_sound[OF app_distinct(1) Inr] by (auto simp: app_def)
    show thesis
    proof (cases "from_json rq")
      case (Inl code)
      then show thesis using post Inr EvaluateRoute rejection[of rq code]
        by (intro rejected[of code]) (simp_all add: eval_http_def)
    next
      case inr: (Inr req)
      then show thesis using post Inr EvaluateRoute by (intro evaluate[of req]) (simp_all add: eval_http_def)
    qed
  next
    case HealthzRoute
    then show thesis using dispatch_sound[OF app_distinct(1) Inr] Inr
      by (intro probe[of 200]) (auto simp: app_def eval_http_def healthz_def)
  next
    case ReadyzRoute
    then show thesis using dispatch_sound[OF app_distinct(1) Inr] Inr
      by (intro probe[of "readyz ev"]) (auto simp: app_def eval_http_def)
  qed
qed

text \<open>Without an allowlist no request is evaluated: the evaluator stays as it is, and \<open>/evaluate\<close> is answered with an error.\<close>

lemma closed_handler:
  fixes env :: "'k eval_env"
  assumes "allowed_flake_origins (ev_config ev) = []"
  shows "\<exists>code b. 400 \<le> code \<and> (\<forall>f. evaluate_handler (env\<lparr>run_nix := f\<rparr>) ev req = (Ok (code, ErrorBody b), ev))"
proof (cases "in_grammar req")
  case True
  have "\<not> on_allowlist ev req" using assms by (simp add: on_allowlist_def)
  then obtain m where "validate_flake_origin (flake_ref req) [] = Err (AppFlakeNotAllowed m)"
    using origin_allowed(2)[OF True, of ev] assms by auto
  then have "evaluate_steps e ev req = Err (AppFlakeNotAllowed m)" for e :: "'k eval_env"
    using True assms validate_request[of req] by (simp add: evaluate_steps_def)
  then show ?thesis by (simp add: handler_eq)
next
  case False
  then obtain m where "validate_eval_request req = Err (InvalidInput m)" using invalid_request by blast
  then have "evaluate_steps e ev req = Err (AppInvalidInput m)" for e :: "'k eval_env" by (simp add: evaluate_steps_def)
  then show ?thesis by (simp add: handler_eq)
qed

lemma closed_http:
  assumes "allowed_flake_origins (ev_config ev) = []"
  shows "\<exists>code b. (\<forall>f. http (env\<lparr>run_nix := f\<rparr>) ev rq = (Ok (code, b), ev)) \<and> (rq_path rq = ''/evaluate'' \<longrightarrow> 400 \<le> code)"
proof (cases rule: http_cases[of env ev rq])
  case (evaluate req)
  then show ?thesis using closed_handler[OF assms, of env req] by auto
qed auto

lemma closed_session:
  assumes "allowed_flake_origins (ev_config ev) = []"
  shows "snd (eval_session dispatch from_json ev calls) = ev \<and>
    list_all2 (\<lambda>(env, rq) r. \<exists>code b. r = Ok (code, b) \<and> (rq_path rq = ''/evaluate'' \<longrightarrow> 400 \<le> code)) calls
      (fst (eval_session dispatch from_json ev calls))"
proof (induction calls)
  case (Cons call calls)
  obtain env rq where call: "call = (env, rq)" by fastforce
  obtain code b where "http (env\<lparr>run_nix := run_nix env\<rparr>) ev rq = (Ok (code, b), ev)" "rq_path rq = ''/evaluate'' \<longrightarrow> 400 \<le> code"
    using closed_http[OF assms] by blast
  then show ?case using Cons.IH by (auto simp: call split: prod.splits)
qed simp

end

text \<open>The extractor \<open>Json\<close> on a body that the decoder takes or not, with the statuses of its documentation.\<close>

definition json_extractor :: "(string \<Rightarrow> bool) \<Rightarrow> (string \<Rightarrow> eval_request option) \<Rightarrow> http_request \<Rightarrow> nat + eval_request" where
  "json_extractor is_json decode rq =
     (if rq_content_type rq \<noteq> Some ''application/json'' then Inl 415
      else if \<not> is_json (rq_body rq) then Inl 400
      else case decode (rq_body rq) of None \<Rightarrow> Inl 422 | Some req \<Rightarrow> Inr req)"

interpretation json_server: eval_server table_dispatch "json_extractor is_json decode" for is_json decode
  by unfold_locales (auto simp: json_extractor_def split: if_splits option.splits)

section \<open>Properties\<close>

text \<open>C9. Deployed with the Helm chart the evaluation service refuses everything: whatever the values of the chart and the
  environment, the service that starts answers every request to \<open>/evaluate\<close> with an error status and never becomes ready,
  because the keys in the file of the chart are not the keys that the program reads, so that the allowlist is the empty one of the default
  configuration. The hypotheses are the documented behaviour of the crates figment and axum.\<close>

theorem chart_refuses_everything:
  assumes "figment merge read" and "read (YamlFile ''/etc/niphas/config.yaml'') = Ok (JObj (chart_config v))"
    and "eval_server dispatch from_json"
    and "eval_main ot vars (figment_extract merge read err) built build_error bind = Ok ev"
  shows "readyz (snd (eval_session dispatch from_json ev calls)) = 503 \<and>
    list_all2 (\<lambda>(env, rq) r. \<exists>code b. r = Ok (code, b) \<and> (rq_path rq = ''/evaluate'' \<longrightarrow> 400 \<le> code)) calls
      (fst (eval_session dispatch from_json ev calls))"
proof -
  obtain cs where "config_load_or_default (figment_extract merge read err) None =
      (Ok (default_config\<lparr>cache := cs\<rparr>) :: (string, niphas_config) outcome)"
    using figment.file_without_keys[OF assms(1,2) chart_config_keys] by blast
  then have ev: "allowed_flake_origins (ev_config ev) = []" "\<not> warm ev"
    using assms(4) by (auto simp: eval_main_def evaluator_new_def default_config_def outcome_simps)
  then show ?thesis
    using eval_server.closed_session[OF assms(3) ev(1), of calls] by (auto simp: readyz_def is_warm_def)
qed

theorem chart_refuses_everything_witness:
  "\<exists>ev. eval_main plain_otel (\<lambda>_. None) (figment_extract deep_merge (plain_read (chart_config default_chart_values) []) ''type error'') (Some ()) []
       (\<lambda>addr. Ok ()) = Ok ev \<and>
     readyz (snd (eval_session table_dispatch (json_extractor (\<lambda>_. True) (\<lambda>_. Some sample_request)) ev
       [(sample_env, \<lparr>rq_method = POST, rq_path = ''/evaluate'', rq_content_type = Some ''application/json'', rq_body = []\<rparr>)])) = 503"
proof -
  let ?read = "plain_read (chart_config default_chart_values) []"
  have yaml: "?read (YamlFile ''/etc/niphas/config.yaml'') = Ok (JObj (chart_config default_chart_values))"
    by (simp add: plain_read_def)
  obtain cs where "config_load_or_default (figment_extract deep_merge ?read ''type error'') None =
      (Ok (default_config\<lparr>cache := cs\<rparr>) :: (string, niphas_config) outcome)"
    using plain.file_without_keys[OF yaml chart_config_keys] by blast
  then have "\<exists>ev. eval_main plain_otel (\<lambda>_. None) (figment_extract deep_merge ?read ''type error'') (Some ()) [] (\<lambda>addr. Ok ()) = Ok ev"
    by (simp add: eval_main_def evaluator_new_def cache_client_new_def init_tracing_def)
  then show ?thesis
    using chart_refuses_everything[OF plain.figment_axioms yaml json_server.eval_server_axioms] by blast
qed

section \<open>Settings and requests without effect\<close>

text \<open>The setting \<open>allowedUris\<close> has no effect on an evaluation.\<close>

lemma allowed_uris_ignored:
  "fst (evaluate env (ev\<lparr>ev_config := (ev_config ev)\<lparr>allowed_uris := us\<rparr>\<rparr>) req) = fst (evaluate env ev req)"
  by (simp add: evaluate_fst evaluate_steps_def)

text \<open>The revision of a request whose flake reference has a query or a fragment is appended to that, not to the path.\<close>

lemma pin_ref_query:
  assumes "c \<in> set (flake_ref req)"
  shows "takeWhile (\<lambda>x. x \<noteq> c) (pin_ref req) = takeWhile (\<lambda>x. x \<noteq> c) (flake_ref req)"
  using assms by (auto simp: pin_ref_def takeWhile_append1 split: option.split)

end
