(* ===== verification/Startup.thy ===== *)
theory Startup
  imports Http_Services Csi_Node Leader
begin

text \<open>
  How the programs start: the CSI driver
  (src/crates/niphas-csi/src/main.rs) and the operator up to its wait for the lease (src/crates/niphas-operator/src/main.rs,
  context.rs). The evaluation service is in Http_Services.

  The listening sockets and the host name are arguments. The socket of the CSI driver is a node of the file system that \<open>bind\<close> makes.
\<close>

section \<open>Definitions\<close>

subsection \<open>The CSI driver\<close>

definition CSI_SOCKET_PATH :: string where
  "CSI_SOCKET_PATH = ''/csi/csi.sock''"

definition csi_node_id :: "environment \<Rightarrow> string option \<Rightarrow> string" where
  "csi_node_id env hostname = (case env ''NODE_NAME'' of Some n \<Rightarrow> n | None \<Rightarrow> the_or ''unknown'' hostname)"

text \<open>\<open>fs::remove_file\<close> and \<open>Path::parent\<close>, the latter up to repeated separators.\<close>

definition remove_file :: "string \<Rightarrow> fs \<Rightarrow> (errno, fs) outcome" where
  "remove_file s f =
     obind (resolve f False s) (\<lambda>p.
     case at f p of None \<Rightarrow> Err ENOENT | Some FDir \<Rightarrow> Err EISDIR | Some _ \<Rightarrow> Ok (f(p := None)))"

definition path_parent :: "string \<Rightarrow> string option" where
  "path_parent s =
     (if components s = [] then None
      else Some ((if absolute s then ''/'' else []) @ join ''/'' (butlast (components s))))"

record csi_driver =
  drv_node_id :: string
  drv_cache_dir :: string
  drv_client :: cache_client
  drv_socket :: string

definition csi_main ::
  "otel \<Rightarrow> environment \<Rightarrow> (provider list \<Rightarrow> (string, niphas_config) outcome) \<Rightarrow> unit option \<Rightarrow> string \<Rightarrow> string option \<Rightarrow>
     (string \<Rightarrow> fs \<Rightarrow> string list option) \<Rightarrow> (string \<Rightarrow> fs \<Rightarrow> (errno, fs) outcome) \<Rightarrow> (fs, niphas_error, csi_driver) prog" where
  "csi_main ot env extract built build_error hostname read_dir bind =
     pbind (plift (init_tracing ot env ''niphas-csi'')) (\<lambda>_.
     pbind (plift (config_load_or_default extract None)) (\<lambda>config.
     pbind (nar_cache_new built build_error config) (\<lambda>(cache_dir, client).
     pbind (\<lambda>f. (Ok (), cleanup_temp_dirs cache_dir (read_dir cache_dir f) f)) (\<lambda>_.
     let socket_path = the_or CSI_SOCKET_PATH (env ''CSI_ENDPOINT'') in
     pbind (\<lambda>f. (Ok (), pdrop (patomic (remove_file socket_path)) f)) (\<lambda>_.
     pbind (case path_parent socket_path of None \<Rightarrow> pret () | Some parent \<Rightarrow> pmap_err io (create_dir_all parent)) (\<lambda>_.
     pbind (pmap_err io (patomic (bind socket_path))) (\<lambda>_.
     pret \<lparr>drv_node_id = csi_node_id env hostname, drv_cache_dir = cache_dir, drv_client = client, drv_socket = socket_path\<rparr>)))))))"

subsection \<open>The operator\<close>

definition LEASE_NAME :: string where
  "LEASE_NAME = ''niphas-operator-leader''"

definition LEASE_TTL :: u64 where
  "LEASE_TTL = 15"

definition LEASE_RENEW_INTERVAL :: u64 where
  "LEASE_RENEW_INTERVAL = 5"

record lease_params =
  lease_namespace :: string
  holder_id :: string
  lease_name :: string
  lease_ttl :: u64

definition lease_params_from :: "environment \<Rightarrow> nat \<Rightarrow> lease_params" where
  "lease_params_from env pid =
     \<lparr>lease_namespace = the_or ''niphas-system'' (env ''NAMESPACE''),
      holder_id = the_or (''niphas-operator-'' @ nat_display pid) (env ''POD_NAME''),
      lease_name = LEASE_NAME, lease_ttl = LEASE_TTL\<rparr>"

text \<open>\<open>Context::new\<close>: the reporter of events, the configuration and the readiness flag.\<close>

record operator_shared =
  reporter_controller :: string
  reporter_instance :: "string option"
  ctx_config :: niphas_config
  ctx_ready :: bool

definition context_new :: "environment \<Rightarrow> niphas_config \<Rightarrow> operator_shared" where
  "context_new env config =
     \<lparr>reporter_controller = ''niphas-operator'', reporter_instance = env ''POD_NAME'', ctx_config = config, ctx_ready = False\<rparr>"

text \<open>\<open>main\<close> up to the start of the two tasks: the context, the parameters of the lease and the process when
  leadership is acquired. \<open>connect\<close> is \<open>Client::try_default\<close>.\<close>

definition operator_main ::
  "otel \<Rightarrow> environment \<Rightarrow> (provider list \<Rightarrow> (string, niphas_config) outcome) \<Rightarrow> (string, unit) outcome \<Rightarrow> nat \<Rightarrow>
     (string \<Rightarrow> (string, unit) outcome) \<Rightarrow> nat \<Rightarrow> (lease_params \<Rightarrow> nat \<Rightarrow> string + lease_result) \<Rightarrow>
     (string, operator_shared \<times> process) outcome" where
  "operator_main ot env extract connect pid bind fuel attempt =
     obind (init_tracing ot env ''niphas-operator'') (\<lambda>_.
     obind (config_load_or_default extract None) (\<lambda>config.
     obind connect (\<lambda>_.
     let ctx = context_new env config in
     obind (bind (''0.0.0.0:'' @ nat_display (unat (health_port config)))) (\<lambda>_.
     obind (acquire_leadership fuel (attempt (lease_params_from env pid)) 0) (\<lambda>_.
     Ok (ctx, elected\<lparr>ready_flag := ctx_ready ctx\<rparr>))))))"

section \<open>The start of the CSI driver\<close>

lemma cache_inv_cong:
  assumes "\<And>q. prefix q (components c) \<or> prefix (components c) q \<Longrightarrow> f q = g q" "cache_inv c f"
  shows "cache_inv c g"
proof -
  have "dirs g (components c)" using assms dirs_cong[of "components c" f g] by (auto simp: cache_inv_def)
  moreover have "f (components c @ nm # q) = g (components c @ nm # q)" for nm q using assms(1) by simp
  then have "vacant f (components c @ [nm]) \<longleftrightarrow> vacant g (components c @ [nm])" "f (components c @ [nm]) = g (components c @ [nm])" for nm
    by (auto simp: vacant_def prefix_def)
  ultimately show ?thesis using assms(2) by (simp add: cache_inv_def)
qed

lemma remove_file_in_place:
  assumes "in_place f s" "f (components s) \<noteq> Some FDir"
  shows "pdrop (patomic (remove_file s)) f = f(components s := None)"
proof (cases "f (components s)")
  case None
  then have "remove_file s f = Err ENOENT" using assms by (simp add: remove_file_def in_place_resolve in_place_at)
  then show ?thesis using None by (simp add: pdrop_def patomic_def fun_upd_idem)
next
  case (Some x)
  then have "remove_file s f = Ok (f(components s := None))"
    using assms by (cases x) (simp_all add: remove_file_def in_place_resolve in_place_at)
  then show ?thesis by (simp add: pdrop_def patomic_def)
qed

lemma butlast_no_prefix: "p \<noteq> [] \<Longrightarrow> prefix q (butlast p) \<Longrightarrow> q \<noteq> p"
  using prefix_length_le[of p "butlast p"] by (cases p rule: rev_cases) auto

lemma join_components:
  assumes "cs \<noteq> []" "\<forall>c \<in> set cs. CHR ''/'' \<notin> set c \<and> c \<noteq> [] \<and> c \<noteq> ''.''"
  shows "components (join ''/'' cs) = cs"
  using split_join_char[of cs "CHR ''/''"] assms by (simp add: components_def filter_id_conv)

lemma parent_components:
  assumes "plain_path s" "butlast (components s) \<noteq> []"
  obtains parent where "path_parent s = Some parent" "plain_path parent" "components parent = butlast (components s)"
proof
  let ?cs = "butlast (components s)" and ?p = "CHR ''/'' # join ''/'' (butlast (components s))"
  have piece: "\<forall>c \<in> set ?cs. CHR ''/'' \<notin> set c \<and> c \<noteq> [] \<and> c \<noteq> ''.''"
    using components_no_slash by (metis in_set_butlastD)
  show "path_parent s = Some ?p" using assms by (auto simp: path_parent_def plain_path_def)
  have "components ?p = components [] @ components (join ''/'' ?cs)" using components_sep[of "[]"] by simp
  then show c: "components ?p = ?cs" using join_components[OF assms(2) piece] by simp
  have "CHR 0x00 \<notin> set x" if "x \<in> set (components s)" for x
    using that assms(1) split_list_piece[of x "\<lambda>x. x = CHR ''/''" s] by (auto simp: components_def split_char_def plain_path_def)
  then have "CHR 0x00 \<notin> set (join ''/'' ?cs)" using join_chars[of "CHR 0x00" "''/''" ?cs] by (auto dest: in_set_butlastD)
  then show "plain_path ?p" using assms(1) c by (auto simp: plain_path_def absolute_def dest: in_set_butlastD)
qed

text \<open>A file system on which the driver can start: the cache as a crash may leave it, and a directory for the socket outside of it,
  possibly with the socket of an earlier run.\<close>

definition csi_startable :: "string \<Rightarrow> string \<Rightarrow> fs \<Rightarrow> bool" where
  "csi_startable cache_dir sock f \<longleftrightarrow> crash_state cache_dir f \<and> components cache_dir \<noteq> [] \<and> in_place f sock \<and>
     butlast (components sock) \<noteq> [] \<and> f (components sock) \<noteq> Some FDir \<and> \<not> prefix (components cache_dir) (components sock)"

lemma startable_cleanup:
  assumes "csi_startable cache_dir sock f" "set nms = {nm. f (components cache_dir @ [nm]) \<noteq> None}"
    and "g = cleanup_temp_dirs cache_dir (Some nms) f"
  shows "in_place g sock" "g (components sock) = f (components sock)" "cache_inv cache_dir g"
    and "\<not> prefix ''.tmp-'' nm \<Longrightarrow> g (components cache_dir @ nm # q) = f (components cache_dir @ nm # q)"
proof -
  have crash: "crash_state cache_dir f" and out: "\<not> prefix (components cache_dir) (components sock)" and sock: "in_place f sock"
    using assms(1) by (simp_all add: csi_startable_def)
  note g = cleanup_spec[OF crash assms(2), folded assms(3)]
  have "g p = f p" if "prefix p (components sock)" for p
    using that out unfolding g by (auto dest: append_prefixD prefix_order.trans)
  moreover from this have "dirs g (butlast (components sock)) \<longleftrightarrow> dirs f (butlast (components sock))"
    by (intro dirs_cong) (metis append_butlast_last_id in_place_def prefix_order.trans prefixI sock)
  ultimately show "in_place g sock" "g (components sock) = f (components sock)" using sock by (simp_all add: in_place_def)
  show "cache_inv cache_dir g" using cleanup_recovers[OF crash assms(2)] assms(3) by blast
  show "\<not> prefix ''.tmp-'' nm \<Longrightarrow> g (components cache_dir @ nm # q) = f (components cache_dir @ nm # q)" unfolding g by auto
qed

text \<open>The socket is not on the way to the cache, nor in it.\<close>

lemma startable_apart:
  assumes "csi_startable cache_dir sock f" "prefix q (components cache_dir) \<or> prefix (components cache_dir) q"
  shows "q \<noteq> components sock"
proof
  assume "q = components sock"
  then have "prefix (components sock) (components cache_dir)" using assms by (simp add: csi_startable_def)
  then have "at f (components sock) = Some FDir" using assms(1) by (simp add: csi_startable_def crash_state_def dirs_def)
  then show False using assms(1) by (simp add: csi_startable_def in_place_at)
qed

lemma startable_cache_dir: "csi_startable cache_dir sock f \<Longrightarrow> create_dir_all cache_dir f = (Ok (), f)"
  by (intro create_dir_all_there)
    (auto simp: csi_startable_def crash_state_def in_place_def at_nonempty dest: dirs_at intro: dirs_prefix prefixeq_butlast)

lemma in_place_upd: "in_place f s \<Longrightarrow> in_place (f(components s := x)) s"
proof -
  assume a: "in_place f s"
  then have "dirs (f(components s := x)) (butlast (components s)) \<longleftrightarrow> dirs f (butlast (components s))"
    by (intro dirs_cong) (auto simp: in_place_def dest: butlast_no_prefix)
  then show ?thesis using a by (simp add: in_place_def)
qed

lemma parent_there:
  assumes "in_place f s" "butlast (components s) \<noteq> []"
  obtains parent where "path_parent s = Some parent" "create_dir_all parent f = (Ok (), f)"
proof -
  have "plain_path s" and d: "dirs f (butlast (components s))" using assms(1) by (simp_all add: in_place_def)
  from parent_components[OF this(1) assms(2)] obtain parent where
    p: "path_parent s = Some parent" "plain_path parent" "components parent = butlast (components s)" .
  have "in_place f parent" using p(2,3) d assms(2) by (auto simp: in_place_def intro: dirs_prefix prefixeq_butlast)
  moreover have "f (components parent) = Some FDir" using dirs_at[OF d] p(3) assms(2) by (simp add: at_nonempty)
  ultimately show thesis using p(1) create_dir_all_there that by blast
qed

section \<open>The start of the operator\<close>

lemma operator_main_elected: "operator_main ot env load connect pid bind fuel attempt = Ok (ctx, p) \<Longrightarrow> p = elected \<and> \<not> ctx_ready ctx"
  by (auto simp: operator_main_def outcome_simps context_new_def elected_def Let_def)

text \<open>The process is only elected when the lease was given to it, under the parameters of its environment.\<close>

lemma acquired_lease: "acquire_leadership fuel attempt i = Ok n \<Longrightarrow> i \<le> n \<and> attempt n = Inr Acquired"
proof (induction fuel arbitrary: i)
  case (Suc fuel)
  show ?case
  proof (cases "attempt i")
    case (Inr r)
    then show ?thesis using Suc.prems Suc.IH[of "Suc i"] by (cases r) auto
  qed (use Suc.prems in simp)
qed simp

lemma operator_main_leads:
  "operator_main ot env load connect pid bind fuel attempt = Ok (ctx, p) \<Longrightarrow> \<exists>n. attempt (lease_params_from env pid) n = Inr Acquired"
  using acquired_lease by (fastforce simp: operator_main_def outcome_simps Let_def)

text \<open>What the probes of the operator are answered: alive always, ready never before the lease is given and after it only while the main
  task is building its controller, in it or just behind it.\<close>

lemma operator_probes:
  assumes "axum dispatch" "operator_main ot env load connect pid bind fuel attempt = Ok (ctx, p0)" "proc_step\<^sup>*\<^sup>* p0 p"
    and "rq_method rq = GET"
  shows "rq_path rq = ''/healthz'' \<Longrightarrow> health_http dispatch (ready_flag p) rq = 200"
    and "rq_path rq = ''/readyz'' \<Longrightarrow> health_http dispatch (ctx_ready ctx) rq = 503"
    and "rq_path rq = ''/readyz'' \<Longrightarrow> health_http dispatch (ready_flag p) rq = 200 \<Longrightarrow> main_task p \<in> {Building, Watching, Leaving}"
proof -
  have d: "rq_path rq = ''/healthz'' \<Longrightarrow> dispatch health_router (rq_method rq) (rq_path rq) = Inr OpHealthz"
    "rq_path rq = ''/readyz'' \<Longrightarrow> dispatch health_router (rq_method rq) (rq_path rq) = Inr OpReadyz"
    using axum.hit[OF assms(1) app_distinct(2)] assms(4) by (simp_all add: health_router_def)
  note el = operator_main_elected[OF assms(2)]
  then have inv: "proc_inv p" using assms(3) proc_inv_reachable by blast
  show "rq_path rq = ''/healthz'' \<Longrightarrow> health_http dispatch (ready_flag p) rq = 200"
    "rq_path rq = ''/readyz'' \<Longrightarrow> health_http dispatch (ctx_ready ctx) rq = 503"
    using d el by (simp_all add: health_http_def op_healthz_def op_readyz_def)
  show "rq_path rq = ''/readyz'' \<Longrightarrow> health_http dispatch (ready_flag p) rq = 200 \<Longrightarrow> main_task p \<in> {Building, Watching, Leaving}"
    using d(2) inv by (cases "main_task p") (auto simp: health_http_def op_readyz_def proc_inv_def split: if_splits)
qed

section \<open>Properties\<close>

text \<open>C21. The CSI driver starts and recovers: on a node where a crash left temporary directories in the cache and a stale socket,
  it comes up, listens on its socket, the invariant of the cache holds again, and every store path in the cache is as it was. Hypotheses: the
  listing of the cache directory is its entries, and \<open>bind\<close> makes a socket where nothing is.\<close>

theorem csi_driver_recovers:
  assumes "config_load_or_default load None = (Ok config :: niphas_config result)"
    and "init_tracing ot env ''niphas-csi'' = (Ok started :: (layer list \<times> telemetry_guard) result)"
    and "cache_dir = cache_path (cache config)" and "sock = the_or CSI_SOCKET_PATH (env ''CSI_ENDPOINT'')"
    and "csi_startable cache_dir sock f"
    and "read_dir cache_dir f = Some nms" and "set nms = {nm. f (components cache_dir @ [nm]) \<noteq> None}"
    and bind: "\<And>g. in_place g sock \<Longrightarrow> g (components sock) = None \<Longrightarrow> bind sock g = Ok (g(components sock \<mapsto> node))"
  shows "\<exists>drv g. csi_main ot env load (Some ()) e hostname read_dir bind f = (Ok drv, g) \<and> drv_socket drv = sock \<and>
    g (components sock) = Some node \<and> cache_inv cache_dir g \<and>
    (\<forall>nm q. prefix ''.tmp-'' nm \<or> g (components cache_dir @ nm # q) = f (components cache_dir @ nm # q))"
proof -
  let ?g = "cleanup_temp_dirs cache_dir (Some nms) f" and ?s = "components sock"
  note clean = startable_cleanup[OF assms(5,7) refl]
  have new: "nar_cache_new (Some ()) e config f = (Ok (cache_dir, \<lparr>client_caches = sort_key priority (binary_caches config)\<rparr>), f)"
    using startable_cache_dir[OF assms(5)] assms(3) by (simp add: nar_cache_new_def cache_client_new_def pmap_err_def)
  have gone: "pdrop (patomic (remove_file sock)) ?g = ?g(?s := None)" "in_place (?g(?s := None)) sock"
    using clean(1,2) assms(5) remove_file_in_place[of ?g sock] in_place_upd[of ?g sock] by (simp_all add: csi_startable_def)
  obtain parent where parent: "path_parent sock = Some parent" "create_dir_all parent (?g(?s := None)) = (Ok (), ?g(?s := None))"
    using parent_there[OF gone(2)] assms(5) by (auto simp: csi_startable_def)
  have made: "pmap_err io (create_dir_all parent) (?g(?s := None)) = (Ok (), ?g(?s := None))"
    using parent(2) by (simp add: pmap_err_def)
  have bound: "pmap_err io (patomic (bind sock)) (?g(?s := None)) = (Ok (), ?g(?s \<mapsto> node))"
    using bind[OF gone(2)] by (simp add: pmap_err_def patomic_def)
  have "csi_main ot env load (Some ()) e hostname read_dir bind f =
      (Ok \<lparr>drv_node_id = csi_node_id env hostname, drv_cache_dir = cache_dir,
           drv_client = \<lparr>client_caches = sort_key priority (binary_caches config)\<rparr>, drv_socket = sock\<rparr>, ?g(?s \<mapsto> node))"
    by (simp add: csi_main_def Let_def assms(1,2,6) assms(4)[symmetric] new gone(1) parent(1) made bound)
  moreover have "cache_inv cache_dir (?g(?s \<mapsto> node))"
    by (rule cache_inv_cong[OF _ clean(3)]) (metis fun_upd_other startable_apart[OF assms(5)])
  moreover have "prefix ''.tmp-'' nm \<or> (?g(?s \<mapsto> node)) (components cache_dir @ nm # q) = f (components cache_dir @ nm # q)" for nm q
    using clean(4)[of nm q] startable_apart[OF assms(5), of "components cache_dir @ nm # q"] by auto
  ultimately show ?thesis by (intro exI conjI) (assumption, simp_all)
qed

theorem csi_driver_recovers_witness:
  "\<exists>drv g. csi_main plain_otel (\<lambda>_. None) (\<lambda>_. Ok (default_config\<lparr>cache := default_cache_storage_config\<lparr>cache_path := ''/cache''\<rparr>\<rparr>)) (Some ()) []
     None (\<lambda>_ _. Some [''.tmp-x'']) (\<lambda>s g. Ok (g(components s \<mapsto> FFile 0 [])))
     (sample_fs([''cache'', ''.tmp-x''] \<mapsto> FDir, [''csi''] \<mapsto> FDir, [''csi'', ''csi.sock''] \<mapsto> FFile 0 [])) = (Ok drv, g) \<and>
     drv_socket drv = ''/csi/csi.sock'' \<and> cache_inv ''/cache'' g"
proof -
  let ?f = "sample_fs([''cache'', ''.tmp-x''] \<mapsto> FDir, [''csi''] \<mapsto> FDir, [''csi'', ''csi.sock''] \<mapsto> FFile 0 [])"
  let ?c = "default_config\<lparr>cache := default_cache_storage_config\<lparr>cache_path := ''/cache''\<rparr>\<rparr>"
  have sock: "components ''/csi/csi.sock'' = [''csi'', ''csi.sock'']" by (simp add: components_def split_char_def)
  have "crash_state ''/cache'' ?f"
    by (auto simp: crash_state_def sample_cache_path dirs_def prefix_Cons at_def sample_fs_def vacant_def plain_name_def)
  then have start: "csi_startable ''/cache'' ''/csi/csi.sock'' ?f"
    by (simp add: csi_startable_def in_place_def plain_path_def sock sample_cache_path absolute_def dirs_def prefix_Cons at_def)
  have "set [''.tmp-x''] = {nm. ?f (components ''/cache'' @ [nm]) \<noteq> None}"
    by (auto simp: sample_cache_path sample_fs_def split: if_splits)
  from csi_driver_recovers[where load = "\<lambda>_. Ok ?c" and config = "?c" and ot = plain_otel and env = "\<lambda>_. None" and cache_dir = "''/cache''"
      and sock = "''/csi/csi.sock''" and read_dir = "\<lambda>_ _. Some [''.tmp-x'']" and bind = "\<lambda>s g. Ok (g(components s \<mapsto> FFile 0 []))"
      and node = "FFile 0 []" and e = "[]" and hostname = None and f = ?f and nms = "[''.tmp-x'']", OF _ _ _ _ start _ this]
  show ?thesis
    by (simp add: config_load_or_default_def config_load_def init_tracing_def CSI_SOCKET_PATH_def) blast
qed

end
