(* ===== verification/Core_Tests.thy ===== *)
theory Core_Tests
  imports Config Closure Eval_Request Nar
begin

text \<open>
  The unit tests of niphas-core (the modules \<open>tests\<close> in src/crates/niphas-core/src/), each module or group of tests as one
  executable predicate over the model, in the order of the source. That they hold says that the definitions behave as the
  authors expect on the inputs that they chose. An \<open>unwrap\<close> is the demand for \<open>Ok\<close>; SHA-256 and the cryptography are
  arguments, as elsewhere.
\<close>

section \<open>Definitions\<close>

definition is_ok :: "('e, 'a) outcome \<Rightarrow> bool" where
  "is_ok m = (case m of Ok _ \<Rightarrow> True | _ \<Rightarrow> False)"

definition is_err :: "('e, 'a) outcome \<Rightarrow> bool" where
  "is_err m = (case m of Err _ \<Rightarrow> True | _ \<Rightarrow> False)"

definition ok_and :: "('a \<Rightarrow> bool) \<Rightarrow> ('e, 'a) outcome \<Rightarrow> bool" where
  "ok_and p m = (case m of Ok x \<Rightarrow> p x | _ \<Rightarrow> False)"

subsection \<open>eval.rs\<close>

definition flake_ref_tests :: bool where
  "flake_ref_tests \<longleftrightarrow>
     list_all (\<lambda>s. is_ok (validate_flake_ref s))
       [''github:myorg/myapp'', ''git+https://github.com/org/repo'', ''path:./my-flake'',
        ''github:org/repo?dir=subdir&ref=main'', ''path:~/my-flake''] \<and>
     list_all (\<lambda>s. is_err (validate_flake_ref s))
       [[], ''just-a-path'', ''github:org/app'' @ [CHR 0x22] @ '' ++ builtins.readFile /etc/shadow ++ '' @ [CHR 0x22],
        ''github:org/${evil}'', ''github:org/app;rm -rf /'', ''github:org/'' @ [CHR 0x60] @ ''whoami'' @ [CHR 0x60],
        ''github:org/app with spaces'', ''github:org/(evil)'']"

definition attribute_tests :: bool where
  "attribute_tests \<longleftrightarrow>
     list_all (\<lambda>s. is_ok (validate_attribute s)) [''default'', ''packages.x86_64-linux.default'', ''_private.output''] \<and>
     list_all (\<lambda>s. is_err (validate_attribute s))
       [[], ''packages..default'', ''x; builtins.abort'', ''x'' @ [CHR 0x22] @ ''evil'', ''packages.123bad'']"

definition revision_tests :: bool where
  "revision_tests \<longleftrightarrow>
     list_all (\<lambda>s. is_ok (validate_revision s)) [''a1b2c3'', ''a1b2c3d4e5f6a1b2c3d4e5f6a1b2c3d4e5f6a1b2''] \<and>
     list_all (\<lambda>s. is_err (validate_revision s))
       [''abc'', replicate 41 (CHR ''a''), ''g1h2i3j4k5'', ''abc123'' @ [CHR 0x22] @ ''; rm -rf /'']"

definition test_request :: "string \<Rightarrow> string \<Rightarrow> string option \<Rightarrow> eval_request" where
  "test_request fr att sha = \<lparr>flake_ref = fr, attribute = att, revision = sha, binary_cache = None\<rparr>"

definition request_tests :: bool where
  "request_tests \<longleftrightarrow>
     list_all (\<lambda>r. is_ok (validate_eval_request r))
       [test_request ''github:org/app'' ''packages.x86_64-linux.default'' (Some ''a1b2c3d4e5f6''),
        test_request ''github:org/app'' ''packages.x86_64-linux.default'' None] \<and>
     list_all (\<lambda>r. is_err (validate_eval_request r))
       [test_request (''github:org/app'' @ [CHR 0x22] @ '' ++ evil'') ''default'' None,
        test_request ''github:org/app'' ''x; builtins.abort'' None,
        test_request ''github:org/app'' ''default'' (Some ''not-hex!!'')]"

subsection \<open>nix/hash.rs\<close>

text \<open>The digest of the empty text that the test has in hexadecimal.\<close>

definition sha256_of_empty :: bytes where
  "sha256_of_empty =
     [227, 176, 196, 66, 152, 252, 28, 20, 154, 251, 244, 200, 153, 111, 185, 36,
      39, 174, 65, 228, 100, 155, 147, 76, 164, 149, 153, 27, 120, 82, 184, 85]"

definition base32_tests :: bool where
  "base32_tests \<longleftrightarrow>
     from_nix_base32 (to_nix_base32 (as_bytes ''hello world'')) = Ok (as_bytes ''hello world'') \<and>
     to_nix_base32 [] = [] \<and> from_nix_base32 [] = Ok [] \<and>
     length (to_nix_base32 sha256_of_empty) = 52 \<and>
     from_nix_base32 (to_nix_base32 sha256_of_empty) = Ok sha256_of_empty \<and>
     is_err (from_nix_base32 ''hello!'')"

definition nix_hash_tests :: "(bytes \<Rightarrow> bytes) \<Rightarrow> bool" where
  "nix_hash_tests sha256 \<longleftrightarrow>
     (let h = sha256_hash sha256 (as_bytes ''test'') in
      ok_and (\<lambda>parsed. algo parsed = Sha256 \<and> length (digest parsed) = 32 \<and> parsed = h) (nix_hash_parse (nix_hash_display h))) \<and>
     (let h = sha256_hash sha256 (as_bytes ''test data'') in nix_hash_parse (nix_hash_display h) = Ok h) \<and>
     (let h = sha256_hash sha256 (as_bytes ''hello'') in
      is_ok (nix_hash_verify sha256 h (as_bytes ''hello'')) \<and> is_err (nix_hash_verify sha256 h (as_bytes ''world'')))"

subsection \<open>nix/store_path.rs\<close>

definition net_tools :: string where
  "net_tools = ''00bgd045z0d4icpbc2yyz4gx48ak44la-net-tools-2.10''"

definition store_path_tests :: bool where
  "store_path_tests \<longleftrightarrow>
     ok_and (\<lambda>sp. name sp = ''net-tools-2.10'' \<and> store_path_display sp = ''/nix/store/'' @ net_tools)
       (store_path_parse (''/nix/store/'' @ net_tools)) \<and>
     ok_and (\<lambda>sp. name sp = ''net-tools-2.10'' \<and> basename sp = net_tools) (parse_basename net_tools) \<and>
     is_err (store_path_parse ''/usr/bin/hello'') \<and>
     is_err (store_path_parse ''/nix/store/abc'') \<and>
     ok_and (\<lambda>r. to_store_path_string r = ''/nix/store/'' @ net_tools) (store_path_ref_parse net_tools) \<and>
     ok_and (\<lambda>sp. length (hash_str sp) = 32 \<and> hash_str sp = ''00bgd045z0d4icpbc2yyz4gx48ak44la'')
       (store_path_parse (''/nix/store/'' @ net_tools))"

subsection \<open>config.rs\<close>

definition config_tests :: bool where
  "config_tests \<longleftrightarrow>
     log_level default_config = ''info'' \<and> binary_caches default_config = [] \<and> allowed_flake_origins default_config = [] \<and>
     eval_timeout default_config = 300 \<and> concurrency (closure_resolution default_config) = 32 \<and>
     closure_timeout (closure_resolution default_config) = 60 \<and>
     cache_path (cache default_config) = ''/var/lib/niphas/cache'' \<and> health_port default_config = 8080 \<and>
     eval_webhook_url default_config = ''http://niphas-eval.niphas-system.svc:8443'' \<and>
     high_watermark_bytes default_cache_storage_config = 15 * 1024 * 1024 * 1024 \<and>
     low_watermark_bytes default_cache_storage_config = 10 * 1024 * 1024 * 1024 \<and>
     gc_interval default_cache_storage_config = 300 \<and>
     parse_duration ''300s'' = Ok 300 \<and> parse_duration ''5m'' = Ok 300 \<and> parse_duration ''1h'' = Ok 3600 \<and>
     parse_duration ''60'' = Ok 60"

subsection \<open>nix/nar.rs\<close>

definition nar_tests :: "'h sha256_ops \<Rightarrow> string \<Rightarrow> bool" where
  "nar_tests ops eof \<longleftrightarrow>
     (let parse = (\<lambda>nar. nar_parse ops (nar_reader_new ops eof nar));
          build_regular_nar = (\<lambda>data exec. nar_str ''nix-archive-1'' @ nar_str ''('' @ nar_str ''type'' @ nar_str ''regular'' @
            (if exec then nar_str ''executable'' @ nar_str [] else []) @ nar_str ''contents'' @ nar_bytes data @ nar_str '')'') in
      ok_and (\<lambda>(node, h). node = Regular False (as_bytes ''hello world'') \<and> algo h = Sha256 \<and> length (digest h) = 32)
        (parse (build_regular_nar (as_bytes ''hello world'') False)) \<and>
      ok_and (\<lambda>(node, h). case node of Regular exec c \<Rightarrow> exec | _ \<Rightarrow> False)
        (parse (build_regular_nar (as_bytes (''#!/bin/sh'' @ [CHR 0x0A] @ ''echo hi'')) True)) \<and>
      ok_and (\<lambda>(node, h). node = Symlink ''/nix/store/abc-glibc/lib/libc.so.6'')
        (parse (nar_str ''nix-archive-1'' @ nar_str ''('' @ nar_str ''type'' @ nar_str ''symlink'' @ nar_str ''target'' @
           nar_str ''/nix/store/abc-glibc/lib/libc.so.6'' @ nar_str '')''))) \<and>
     is_ok (validate_entry_name ''hello'') \<and>
     list_all (\<lambda>s. is_err (validate_entry_name s)) [[], ''.'', ''..'', ''foo/bar'', ''foo'' @ [CHR 0x00] @ ''bar'']"

subsection \<open>nix/signature.rs\<close>

definition signature_tests :: "'k crypto \<Rightarrow> bool" where
  "signature_tests cr \<longleftrightarrow>
     ok_and (\<lambda>sig. key_name sig = ''cache.nixos.org-1'')
       (nar_signature_parse cr
          ''cache.nixos.org-1:tPtJYPW0S7siMoEqP85L2GMl44GVDBR2JFGBkUAjS+iCT1SQmyxs3JmfrvfNS5FCr7VIY+PF1sC+hJ3BL0lVDg=='') \<and>
     ok_and (\<lambda>key. trusted_name key = ''cache.nixos.org-1'')
       (trusted_key_parse cr ''cache.nixos.org-1:6NCHdD59X431o0gWypbMrAURkbJ16ZPMQFGspcDShjY='') \<and>
     is_err (nar_signature_parse cr ''no-colon-here'') \<and> is_err (trusted_key_parse cr ''no-colon-here'') \<and>
     is_err (trusted_key_parse cr ''test:AAAA'')"

subsection \<open>nix/narinfo.rs\<close>

definition SAMPLE_NARINFO :: string where
  "SAMPLE_NARINFO = join [CHR 0x0A]
     [''StorePath: /nix/store/00bgd045z0d4icpbc2yyz4gx48ak44la-net-tools-2.10'',
      ''URL: nar/0i6vphc9vnrfamvnwwb07rml60k3piqf8samh4pzlzcslwdg19bv.nar.xz'',
      ''Compression: xz'',
      ''FileHash: sha256:0i6vphc9vnrfamvnwwb07rml60k3piqf8samh4pzlzcslwdg19bv'',
      ''FileSize: 78656'',
      ''NarHash: sha256:18q15y2rlpyar84fl0yh27c5b7n8xqsa7n7a7hc7183md2v9k73s'',
      ''NarSize: 204840'',
      ''References: 00bgd045z0d4icpbc2yyz4gx48ak44la-net-tools-2.10 3n58xw4373jp0ljirf06d8077j15pc4j-glibc-2.37-8'',
      ''Sig: cache.nixos.org-1:tPtJYPW0S7siMoEqP85L2GMl44GVDBR2JFGBkUAjS+iCT1SQmyxs3JmfrvfNS5FCr7VIY+PF1sC+hJ3BL0lVDg=='']"

definition narinfo_tests :: "'k crypto \<Rightarrow> bool" where
  "narinfo_tests cr \<longleftrightarrow>
     ok_and (\<lambda>n. name (ni_store_path n) = ''net-tools-2.10'' \<and>
         url n = ''nar/0i6vphc9vnrfamvnwwb07rml60k3piqf8samh4pzlzcslwdg19bv.nar.xz'' \<and> compression n = Xz \<and>
         file_size n = 78656 \<and> nar_size n = 204840 \<and> length (references n) = 2 \<and> length (signatures n) = 1 \<and>
         key_name (signatures n ! 0) = ''cache.nixos.org-1'')
       (nar_info_parse cr SAMPLE_NARINFO) \<and>
     is_err (nar_info_parse cr (''StorePath: /nix/store/'' @ net_tools @ [CHR 0x0A])) \<and>
     ok_and (\<lambda>n. let fp = fingerprint n in
         strip_prefix ''1;/nix/store/'' fp \<noteq> None \<and> split_once '';sha256:'' fp \<noteq> None \<and> split_once '';204840;'' fp \<noteq> None)
       (nar_info_parse cr SAMPLE_NARINFO)"

subsection \<open>nix/closure.rs\<close>

definition HASH_A :: string where "HASH_A = ''00bgd045z0d4icpbc2yyz4gx48ak44la''"
definition HASH_B :: string where "HASH_B = ''3n58xw4373jp0ljirf06d8077j15pc4j''"
definition HASH_C :: string where "HASH_C = ''aw2fw9ag10wr9pf0qk4nk5sxi0q0bn56''"
definition HASH_D :: string where "HASH_D = ''b6vsz4mzc9ql0a0rdiw5mmfqajj39lqg''"

definition sp_text :: "string \<Rightarrow> string \<Rightarrow> string" where
  "sp_text h nm = ''/nix/store/'' @ h @ ''-'' @ nm"

definition basename_text :: "string \<Rightarrow> string \<Rightarrow> string" where
  "basename_text h nm = h @ ''-'' @ nm"

text \<open>A narinfo of the builder, a client with some of them, and the search from a root in it, with batches of four whose fetches
  complete in order.\<close>

definition built :: "string \<Rightarrow> string list \<Rightarrow> (nar_info_builder \<Rightarrow> nar_info_builder) \<Rightarrow> nar_info result" where
  "built path refs sizes =
     obind (builder_new path) (\<lambda>b. obind (builder_references refs b) (\<lambda>b. Ok (builder_build (sizes b))))"

definition client_of :: "nar_info result list \<Rightarrow> fake_cache_client result" where
  "client_of ns = ofold (\<lambda>fk n. obind n (\<lambda>n. Ok (add_narinfo n fk))) ns fake_new"

definition resolve_in :: "nar_info result list \<Rightarrow> string \<Rightarrow> resolved_closure result" where
  "resolve_in ns root_path =
     obind (client_of ns) (\<lambda>fk. obind (store_path_parse root_path) (\<lambda>root.
       resolve_closure 8 (fake_fetch_narinfo fk) (\<lambda>k xs. xs) (\<lambda>k. False) 4 10 root))"

definition closure_tests :: bool where
  "closure_tests \<longleftrightarrow>
     (let a = sp_text HASH_A ''hello-2.12.1''; b = sp_text HASH_B ''glibc-2.37-8''; c = sp_text HASH_C ''gcc-12.3.0-lib'';
          d = sp_text HASH_D ''linux-headers-6.5''; glibc = sp_text HASH_A ''glibc-2.37-8'';
          to_b = basename_text HASH_B ''glibc-2.37-8''; to_c = basename_text HASH_C ''gcc-12.3.0-lib'';
          to_d = basename_text HASH_D ''linux-headers-6.5'' in
      ok_and (\<lambda>r. paths r = [a] \<and> closure_nar_size r = 5000) (resolve_in [built a [] (builder_nar_size 5000)] a) \<and>
      ok_and (\<lambda>r. length (paths r) = 3 \<and> a \<in> set (paths r) \<and> b \<in> set (paths r) \<and> c \<in> set (paths r))
        (resolve_in [built a [to_b] id, built b [to_c] id, built c [] id] a) \<and>
      ok_and (\<lambda>r. length (paths r) = 4 \<and> length (filter (\<lambda>p. p = d) (paths r)) = 1)
        (resolve_in [built a [to_b, to_c] id, built b [to_d] id, built c [to_d] id, built d [] id] a) \<and>
      (case resolve_in [built a [to_b] id] a of Err e \<Rightarrow> split_once ''failed to resolve'' (niphas_error_display e) \<noteq> None | _ \<Rightarrow> False) \<and>
      ok_and (\<lambda>r. length (paths r) = 2 \<and> closure_nar_size r = 4000 \<and> closure_file_size r = 2000)
        (resolve_in [built a [to_b] (builder_file_size 500 \<circ> builder_nar_size 1000),
                     built b [] (builder_file_size 1500 \<circ> builder_nar_size 3000)] a) \<and>
      ok_and (\<lambda>r. length (paths r) = 1) (resolve_in [built glibc [basename_text HASH_A ''glibc-2.37-8''] id] glibc))"

section \<open>The tests hold\<close>

lemmas test_simps = is_ok_def is_err_def ok_and_def

text \<open>Splitting with an accumulator, which evaluates every suffix once.\<close>

fun split_go :: "char \<Rightarrow> string \<Rightarrow> string \<Rightarrow> string list" where
  "split_go c acc [] = [rev acc]"
| "split_go c acc (x # xs) = (if x = c then rev acc # split_go c [] xs else split_go c (x # acc) xs)"

lemma split_go: "split_go c acc s = (rev acc @ hd (split_char c s)) # tl (split_char c s)"
  by (induction c acc s rule: split_go.induct) (simp_all add: split_char_def)

lemma split_char_go: "split_char c s = split_go c [] s"
  by (simp add: split_go split_char_def)

lemma flake_ref_tests: flake_ref_tests
  by (simp add: flake_ref_tests_def test_simps validate_flake_ref_def str_simps strip_prefix_def byte_classes letter_def digit_def del: chars.simps)

lemma attribute_tests: attribute_tests
  by (simp add: attribute_tests_def test_simps validate_attribute_def split_char_go str_simps byte_classes letter_def digit_def
      del: chars.simps)

lemma revision_tests: revision_tests
  by (simp add: revision_tests_def test_simps validate_revision_def str_simps byte_classes hex_digit_def digit_def
      del: chars.simps)

lemma request_tests: request_tests
  by (simp add: request_tests_def test_simps test_request_def validate_eval_request_def validate_flake_ref_def validate_attribute_def
      validate_revision_def split_char_go strip_prefix_def str_simps byte_classes letter_def digit_def hex_digit_def del: chars.simps)

lemma is_err_iff: "is_err m \<longleftrightarrow> (\<exists>e. m = Err e)"
  by (cases m) (simp_all add: is_err_def)

lemma is_ok_iff: "is_ok m \<longleftrightarrow> (\<exists>x. m = Ok x)"
  by (cases m) (simp_all add: is_ok_def)

lemma ok_and_iff: "ok_and p m \<longleftrightarrow> (\<exists>x. m = Ok x \<and> p x)"
  by (cases m) (simp_all add: ok_and_def)

lemma base32_tests: base32_tests
proof -
  have "\<not> set ''hello!'' \<subseteq> set NIX_BASE32_CHARS" by (simp add: NIX_BASE32_CHARS_def)
  from from_nix_base32_Err[OF this] have "is_err (from_nix_base32 ''hello!'')" by (auto simp: is_err_def)
  then show ?thesis
    by (simp add: base32_tests_def from_to_nix_base32 encoded_len_def) (simp add: to_nix_base32_def from_nix_base32_def sha256_of_empty_def)
qed

text \<open>For every hash function of 32 bytes that tells the two texts apart.\<close>

lemma nix_hash_tests:
  assumes "\<And>bs. length (sha256 bs) = 32" "sha256 (as_bytes ''world'') \<noteq> sha256 (as_bytes ''hello'')"
  shows "nix_hash_tests sha256"
proof -
  have "nix_hash_parse (nix_hash_display (sha256_hash sha256 bs)) = Ok (sha256_hash sha256 bs)" for bs
    by (rule nix_hash.parse_print) (simp add: nix_hash_ok_def sha256_hash_def assms(1))
  then show ?thesis
    using assms by (simp add: nix_hash_tests_def Let_def ok_and_def is_ok_def is_err_def nix_hash_verify_def sha256_hash_def)
qed

lemma hash_str_take: "store_path_ok sp \<Longrightarrow> hash_str sp = take 32 (basename sp)"
  by (simp add: store_path_ok_def basename_def hash_str_def encoded_len_def)

lemma store_path_tests: store_path_tests
proof -
  obtain bs where p: "parse_basename net_tools = Ok \<lparr>hash = bs, name = ''net-tools-2.10''\<rparr>" (is "_ = Ok ?sp")
    using sample_basename_parses by (auto simp: sample_basename_def net_tools_def)
  then have b: "basename ?sp = net_tools" "store_path_ok ?sp" by (simp_all add: parse_basename_iff)
  have "store_path_parse (''/nix/store/'' @ net_tools) = Ok ?sp" using p by (simp add: store_path_parse_eq)
  moreover have "store_path_display ?sp = ''/nix/store/'' @ net_tools" using b by (simp add: display_of_basename STORE_DIR_def)
  moreover have "hash_str ?sp = ''00bgd045z0d4icpbc2yyz4gx48ak44la''"
    using hash_str_take[OF b(2)] b(1) by (simp add: net_tools_def)
  moreover have "is_err (store_path_parse ''/usr/bin/hello'')" "is_err (store_path_parse ''/nix/store/abc'')"
    by (simp_all add: store_path_parse_def STORE_DIR_def strip_prefix_def is_err_def parse_basename_short)
  moreover have "store_path_ref_parse net_tools = Ok (StorePathRef net_tools)" using p by (simp add: store_path_ref_parse_def)
  ultimately show ?thesis using p b(1)
    by (simp add: store_path_tests_def ok_and_def to_store_path_string_def STORE_DIR_def)
qed

lemma duration_tests:
  "parse_duration ''300s'' = Ok 300" "parse_duration ''5m'' = Ok 300" "parse_duration ''1h'' = Ok 3600" "parse_duration ''60'' = Ok 60"
proof -
  have "graphic ''300s''" "graphic ''300''" "graphic ''5m''" "graphic ''5''" "graphic ''1h''" "graphic ''1''" "graphic ''60''"
    by (simp_all add: graphic_def)
  note t = this[THEN trim_graphic]
  show "parse_duration ''300s'' = Ok 300" "parse_duration ''5m'' = Ok 300" "parse_duration ''1h'' = Ok 3600" "parse_duration ''60'' = Ok 60"
    by (simp_all add: parse_duration_def t strip_suffix_def strip_prefix_def parse_u64_def digit_value_def)
qed

lemma config_tests: config_tests
  by (simp add: config_tests_def default_config_def default_closure_resolution_config_def default_cache_storage_config_def
      duration_tests)

lemma nar_tests:
  assumes "sha256_streams ops sha256" "\<And>bs. length (sha256 bs) = 32"
  shows "nar_tests ops eof"
proof -
  have parse: "nar_parse ops (nar_reader_new ops eof (nar_encode nd)) = Ok (nd, \<lparr>algo = Sha256, digest = sha256 (nar_encode nd)\<rparr>)"
    if "wf_node nd" "\<not> is_directory nd" for nd
    using nar_leaf_parse[OF assms(1) that, of eof "[]"] by simp
  have "is_ok (validate_entry_name ''hello'')" "list_all (\<lambda>s. is_err (validate_entry_name s)) [[], ''.'', ''..'', ''foo/bar'', ''foo'' @ [CHR 0x00] @ ''bar'']"
    by (simp_all add: validate_entry_name_def test_simps)
  moreover have "nar_str ''nix-archive-1'' @ nar_str ''('' @ nar_str ''type'' @ nar_str ''regular'' @
      (if exec then nar_str ''executable'' @ nar_str [] else []) @ nar_str ''contents'' @ nar_bytes data @ nar_str '')'' =
      nar_encode (Regular exec data)" for exec data
    by (simp add: nar_encode_def nar_str_def enc_tokens_def NAR_MAGIC_def)
  moreover have "nar_str ''nix-archive-1'' @ nar_str ''('' @ nar_str ''type'' @ nar_str ''symlink'' @ nar_str ''target'' @ nar_str t @ nar_str '')'' =
      nar_encode (Symlink t)" for t
    by (simp add: nar_encode_def nar_str_def enc_tokens_def NAR_MAGIC_def)
  moreover have "wf_node (Regular False (as_bytes ''hello world''))" "wf_node (Regular True (as_bytes (''#!/bin/sh'' @ [CHR 0x0A] @ ''echo hi'')))"
    "wf_node (Symlink ''/nix/store/abc-glibc/lib/libc.so.6'')"
    by (simp_all add: max_token_def str_token_def utf8_valid_def utf8_ascii as_bytes_def)
  ultimately show ?thesis
    by (simp add: nar_tests_def parse ok_and_def assms(2) is_directory_def)
qed

text \<open>What the tests need of the cryptography: the three texts are Base64 of 64, 32 and 3 bytes, and the second is a key.\<close>

definition decodes_fixtures :: "'k crypto \<Rightarrow> bool" where
  "decodes_fixtures cr \<longleftrightarrow>
     ok_and (\<lambda>bs. length bs = 64) (base64_decode cr ''tPtJYPW0S7siMoEqP85L2GMl44GVDBR2JFGBkUAjS+iCT1SQmyxs3JmfrvfNS5FCr7VIY+PF1sC+hJ3BL0lVDg=='') \<and>
     ok_and (\<lambda>bs. length bs = 32 \<and> is_ok (verifying_key_from_bytes cr bs)) (base64_decode cr ''6NCHdD59X431o0gWypbMrAURkbJ16ZPMQFGspcDShjY='') \<and>
     ok_and (\<lambda>bs. length bs = 3) (base64_decode cr ''AAAA'')"

lemma decodes_fixturesE:
  assumes "decodes_fixtures cr"
  obtains sig key k short where
    "base64_decode cr ''tPtJYPW0S7siMoEqP85L2GMl44GVDBR2JFGBkUAjS+iCT1SQmyxs3JmfrvfNS5FCr7VIY+PF1sC+hJ3BL0lVDg=='' = Ok sig" "length sig = 64"
    "base64_decode cr ''6NCHdD59X431o0gWypbMrAURkbJ16ZPMQFGspcDShjY='' = Ok key" "length key = 32"
    "verifying_key_from_bytes cr key = Ok k" "base64_decode cr ''AAAA'' = Ok short" "length short = 3"
  using assms unfolding decodes_fixtures_def ok_and_iff is_ok_iff by blast

lemma signature_tests: "decodes_fixtures cr \<Longrightarrow> signature_tests cr"
  by (elim decodes_fixturesE)
    (simp add: signature_tests_def nar_signature_parse_def trusted_key_parse_def ok_and_def is_err_def strip_prefix_def)

lemma split_once_found: "split_once p (a @ p @ b) \<noteq> None"
proof (induction a)
  case Nil
  have "strip_prefix p (p @ b) = Some b" by (simp add: strip_prefix_eq_Some)
  then show ?case by (cases "p @ b") auto
qed (auto split: option.split)

text \<open>The lines of the sample, and what each of them adds.\<close>

definition sample_lines :: "string list" where
  "sample_lines =
     [field_line ''StorePath'' (''/nix/store/'' @ net_tools),
      field_line ''URL'' ''nar/0i6vphc9vnrfamvnwwb07rml60k3piqf8samh4pzlzcslwdg19bv.nar.xz'',
      field_line ''Compression'' ''xz'',
      field_line ''FileHash'' ''sha256:0i6vphc9vnrfamvnwwb07rml60k3piqf8samh4pzlzcslwdg19bv'',
      field_line ''FileSize'' ''78656'',
      field_line ''NarHash'' ''sha256:18q15y2rlpyar84fl0yh27c5b7n8xqsa7n7a7hc7183md2v9k73s'',
      field_line ''NarSize'' ''204840'',
      field_line ''References'' (net_tools @ '' 3n58xw4373jp0ljirf06d8077j15pc4j-glibc-2.37-8''),
      field_line ''Sig'' ''cache.nixos.org-1:tPtJYPW0S7siMoEqP85L2GMl44GVDBR2JFGBkUAjS+iCT1SQmyxs3JmfrvfNS5FCr7VIY+PF1sC+hJ3BL0lVDg=='']"

lemma sample_narinfo_lines: "lines SAMPLE_NARINFO = sample_lines"
proof -
  have s: "SAMPLE_NARINFO = join [CHR 0x0A] sample_lines"
    by (simp add: SAMPLE_NARINFO_def sample_lines_def field_line_def net_tools_def)
  have n: "\<forall>l \<in> set sample_lines. CHR 0x0A \<notin> set l"
    by (simp add: sample_lines_def field_line_def net_tools_def)
  have "map strip_cr (butlast sample_lines) = butlast sample_lines"
    by (simp add: sample_lines_def field_line_def net_tools_def strip_cr_def strip_suffix_def strip_prefix_def)
  moreover have "sample_lines \<noteq> []" "last sample_lines \<noteq> []" by (simp_all add: sample_lines_def field_line_def)
  ultimately show ?thesis
    using split_join_char[of sample_lines "CHR 0x0A"] n by (simp add: lines_def s)
qed

lemma sha256_text_parses:
  assumes "set h \<subseteq> set NIX_BASE32_CHARS" "length h = 52"
  shows "\<exists>d. nix_hash_parse (''sha256:'' @ h) = Ok \<lparr>algo = Sha256, digest = d\<rparr> \<and> length d = 32"
proof -
  obtain d where "from_nix_base32 h = Ok d" "length d = 32" using from_nix_base32_Ok[OF assms(1)] assms(2) by auto
  then show ?thesis by (simp add: nix_hash_parse_def strip_prefix_def)
qed

lemma net_tools_parses:
  obtains sp where "store_path_parse (''/nix/store/'' @ net_tools) = Ok sp" "name sp = ''net-tools-2.10''"
    "store_path_display sp = ''/nix/store/'' @ net_tools" "parse_basename net_tools = Ok sp"
proof -
  obtain bs where p: "parse_basename net_tools = Ok \<lparr>hash = bs, name = ''net-tools-2.10''\<rparr>" (is "_ = Ok ?sp")
    using sample_basename_parses by (auto simp: sample_basename_def net_tools_def)
  then have sp: "store_path_parse (''/nix/store/'' @ net_tools) = Ok ?sp" by (simp add: store_path_parse_eq)
  then have "''/nix/store/'' @ net_tools = store_path_display ?sp" unfolding store_path_parse_iff by blast
  then show thesis by (intro that[of ?sp] sp p) simp_all
qed

lemma graphic_hash_texts:
  "graphic ''sha256:0i6vphc9vnrfamvnwwb07rml60k3piqf8samh4pzlzcslwdg19bv''"
  "graphic ''sha256:18q15y2rlpyar84fl0yh27c5b7n8xqsa7n7a7hc7183md2v9k73s''"
  by (simp_all add: graphic_def)

lemma narinfo_sample:
  assumes "decodes_fixtures cr"
  obtains n where "nar_info_parse cr SAMPLE_NARINFO = Ok n" "name (ni_store_path n) = ''net-tools-2.10''"
    "url n = ''nar/0i6vphc9vnrfamvnwwb07rml60k3piqf8samh4pzlzcslwdg19bv.nar.xz''" "compression n = Xz"
    "file_size n = 78656" "nar_size n = 204840" "length (references n) = 2" "map key_name (signatures n) = [''cache.nixos.org-1'']"
    "store_path_display (ni_store_path n) = ''/nix/store/'' @ net_tools" "algo (nar_hash n) = Sha256"
proof -
  obtain sp where sp: "store_path_parse (''/nix/store/'' @ net_tools) = Ok sp" "name sp = ''net-tools-2.10''"
    "store_path_display sp = ''/nix/store/'' @ net_tools" "parse_basename net_tools = Ok sp" by (rule net_tools_parses)
  obtain fh where fh: "nix_hash_parse ''sha256:0i6vphc9vnrfamvnwwb07rml60k3piqf8samh4pzlzcslwdg19bv'' = Ok \<lparr>algo = Sha256, digest = fh\<rparr>"
    using sha256_text_parses[of "''0i6vphc9vnrfamvnwwb07rml60k3piqf8samh4pzlzcslwdg19bv''"] by (auto simp: NIX_BASE32_CHARS_def)
  obtain nh where nh: "nix_hash_parse ''sha256:18q15y2rlpyar84fl0yh27c5b7n8xqsa7n7a7hc7183md2v9k73s'' = Ok \<lparr>algo = Sha256, digest = nh\<rparr>"
    using sha256_text_parses[of "''18q15y2rlpyar84fl0yh27c5b7n8xqsa7n7a7hc7183md2v9k73s''"] by (auto simp: NIX_BASE32_CHARS_def)
  obtain g where g: "parse_basename (''3n58xw4373jp0ljirf06d8077j15pc4j'' @ ''-'' @ ''glibc-2.37-8'') = Ok g"
    using alphabet_basename_parses[of "''3n58xw4373jp0ljirf06d8077j15pc4j''" "''glibc-2.37-8''"] by (auto simp: NIX_BASE32_CHARS_def is_cont_def)
  obtain sig where sig: "nar_signature_parse cr
      ''cache.nixos.org-1:tPtJYPW0S7siMoEqP85L2GMl44GVDBR2JFGBkUAjS+iCT1SQmyxs3JmfrvfNS5FCr7VIY+PF1sC+hJ3BL0lVDg=='' =
      Ok \<lparr>key_name = ''cache.nixos.org-1'', signature = sig\<rparr>"
    using assms by (elim decodes_fixturesE) (auto simp: nar_signature_parse_def strip_prefix_def)
  have graphic_net: "graphic net_tools" by (simp add: net_tools_def graphic_def)
  have refs: "split_whitespace (net_tools @ '' 3n58xw4373jp0ljirf06d8077j15pc4j-glibc-2.37-8'') =
      [net_tools, ''3n58xw4373jp0ljirf06d8077j15pc4j-glibc-2.37-8'']"
    using split_whitespace_join[of "[net_tools, ''3n58xw4373jp0ljirf06d8077j15pc4j-glibc-2.37-8'']"] graphic_net
    by (simp add: graphic_def)
  have line: "nar_info_line cr st (field_line key v) = nar_info_field cr st key v" if "graphic key" "CHR '':'' \<notin> set key" "graphic v" for st key v
    using nar_info_line_graphic[OF that] .
  have "is_ascii net_tools" "\<not> is_whitespace ''8''" using graphic_ascii[OF graphic_net] by (simp_all add: is_whitespace_def in_range_def)
  then have refline: "nar_info_line cr st (field_line ''References'' (net_tools @ '' 3n58xw4373jp0ljirf06d8077j15pc4j-glibc-2.37-8'')) =
      nar_info_field cr st ''References'' (net_tools @ '' 3n58xw4373jp0ljirf06d8077j15pc4j-glibc-2.37-8'')" for st
    by (intro nar_info_line_field) auto
  define p where "p = ''/nix/store/'' @ net_tools"
  have "graphic p" using graphic_net by (simp add: p_def graphic_def)
  note lns = line[OF _ _ this] line[OF _ _ graphic_hash_texts(1)] line[OF _ _ graphic_hash_texts(2)]
  have sp': "store_path_parse p = Ok sp" using sp(1) by (simp add: p_def)
  have "nar_info_parse cr SAMPLE_NARINFO = Ok
      \<lparr>ni_store_path = sp, url = ''nar/0i6vphc9vnrfamvnwwb07rml60k3piqf8samh4pzlzcslwdg19bv.nar.xz'', compression = Xz,
       file_hash = \<lparr>algo = Sha256, digest = fh\<rparr>, file_size = 78656, nar_hash = \<lparr>algo = Sha256, digest = nh\<rparr>, nar_size = 204840,
       references = [StorePathRef net_tools, StorePathRef ''3n58xw4373jp0ljirf06d8077j15pc4j-glibc-2.37-8''], deriver = None,
       signatures = [\<lparr>key_name = ''cache.nixos.org-1'', signature = sig\<rparr>], ca = None\<rparr>"
    unfolding nar_info_parse_def sample_narinfo_lines sample_lines_def p_def[symmetric]
    using g by (simp add: lns line graphic_def refline nar_info_field_def sp' fh nh sig refs parse_size_def parse_u64_def digit_value_def
        compression_parse_def store_path_ref_parse_def sp(4) nar_info_finish_def no_fields_def)
  then show thesis by (rule that) (simp_all add: sp)
qed

lemma narinfo_tests:
  assumes "decodes_fixtures cr"
  shows "narinfo_tests cr"
proof -
  obtain n where n: "nar_info_parse cr SAMPLE_NARINFO = Ok n" "name (ni_store_path n) = ''net-tools-2.10''"
    "url n = ''nar/0i6vphc9vnrfamvnwwb07rml60k3piqf8samh4pzlzcslwdg19bv.nar.xz''" "compression n = Xz"
    "file_size n = 78656" "nar_size n = 204840" "length (references n) = 2" "map key_name (signatures n) = [''cache.nixos.org-1'']"
    "store_path_display (ni_store_path n) = ''/nix/store/'' @ net_tools" "algo (nar_hash n) = Sha256"
    by (rule narinfo_sample[OF assms])
  let ?refs = "join '','' (sort (map to_store_path_string (references n)))" and ?b32 = "to_nix_base32 (digest (nar_hash n))"
  have fp: "fingerprint n = ''1;'' @ (''/nix/store/'' @ net_tools) @ '';'' @ (''sha256:'' @ ?b32) @ '';'' @ ''204840'' @ '';'' @ ?refs"
    using n(6,9,10) by (simp add: fingerprint_def nix_hash_display_def u64_display_def nat_display.simps char_of_def bit_0)
  have cut: "fingerprint n = ''1;/nix/store/'' @ net_tools @ '';sha256:'' @ ?b32 @ '';204840;'' @ ?refs"
    "fingerprint n = (''1;/nix/store/'' @ net_tools) @ '';sha256:'' @ ?b32 @ '';204840;'' @ ?refs"
    "fingerprint n = (''1;/nix/store/'' @ net_tools @ '';sha256:'' @ ?b32) @ '';204840;'' @ ?refs"
    unfolding fp by simp_all
  have "strip_prefix ''1;/nix/store/'' (fingerprint n) \<noteq> None" by (subst cut(1)) (simp add: strip_prefix_def)
  moreover have "split_once '';sha256:'' (fingerprint n) \<noteq> None" by (subst cut(2)) (rule split_once_found)
  moreover have "split_once '';204840;'' (fingerprint n) \<noteq> None" by (subst cut(3)) (rule split_once_found)
  moreover have "nar_info_parse cr (''StorePath: /nix/store/'' @ net_tools @ [CHR 0x0A]) = Err (NarInfoParse ''missing URL'')"
  proof -
    obtain sp where sp: "store_path_parse (''/nix/store/'' @ net_tools) = Ok sp" by (rule net_tools_parses)
    have "graphic (''/nix/store/'' @ net_tools)" by (simp add: net_tools_def graphic_def)
    then have "nar_info_line cr no_fields (field_line ''StorePath'' (''/nix/store/'' @ net_tools)) = Ok (no_fields\<lparr>f_store_path := Some sp\<rparr>)"
      using sp by (subst nar_info_line_graphic) (simp_all only: nar_info_field_def if_True graphic_keys obind.simps list.set, simp_all)
    moreover have "lines (''StorePath: /nix/store/'' @ net_tools @ [CHR 0x0A]) = [field_line ''StorePath'' (''/nix/store/'' @ net_tools)]"
      using lines_unlines[of "[field_line ''StorePath'' (''/nix/store/'' @ net_tools)]"] by (simp add: field_line_def net_tools_def unlines_def)
    ultimately show ?thesis by (simp add: nar_info_parse_def nar_info_finish_def no_fields_def)
  qed
  moreover have "length (signatures n) = 1 \<and> key_name (signatures n ! 0) = ''cache.nixos.org-1''" using n(8) by auto
  ultimately show ?thesis using n(1-7) by (simp add: narinfo_tests_def ok_and_def is_err_def Let_def)
qed

text \<open>The store paths of the fixtures, whatever the bytes of their hashes.\<close>

lemma fixture_path:
  assumes "set h \<subseteq> set NIX_BASE32_CHARS" "length h = 32" "nm \<noteq> []" "\<not> is_cont (hd nm)"
  obtains sp where "store_path_parse (sp_text h nm) = Ok sp" "store_path_display sp = sp_text h nm" "hash_str sp = h"
    "store_path_ref_parse (basename_text h nm) = Ok (StorePathRef (basename_text h nm))"
    "to_store_path_string (StorePathRef (basename_text h nm)) = sp_text h nm"
proof -
  obtain bs where p: "parse_basename (h @ ''-'' @ nm) = Ok \<lparr>hash = bs, name = nm\<rparr>" (is "_ = Ok ?sp")
    using alphabet_basename_parses[OF assms] by blast
  then have b: "store_path_ok ?sp" "basename ?sp = h @ ''-'' @ nm" unfolding parse_basename_iff by simp_all
  show thesis
  proof (rule that[of ?sp])
    show "store_path_parse (sp_text h nm) = Ok ?sp" using p by (simp add: sp_text_def store_path_parse_eq)
    show "store_path_display ?sp = sp_text h nm" using b(2) by (simp add: display_of_basename STORE_DIR_def sp_text_def)
    show "hash_str ?sp = h" using hash_str_take[OF b(1)] b(2) assms(2) by simp
    show "store_path_ref_parse (basename_text h nm) = Ok (StorePathRef (basename_text h nm))"
      using p by (simp add: basename_text_def store_path_ref_parse_def)
    show "to_store_path_string (StorePathRef (basename_text h nm)) = sp_text h nm"
      by (simp add: to_store_path_string_def basename_text_def sp_text_def STORE_DIR_def)
  qed
qed

lemma hashes_distinct [simp]:
  "HASH_A \<noteq> HASH_B" "HASH_A \<noteq> HASH_C" "HASH_A \<noteq> HASH_D" "HASH_B \<noteq> HASH_C" "HASH_B \<noteq> HASH_D" "HASH_C \<noteq> HASH_D"
  "HASH_B \<noteq> HASH_A" "HASH_C \<noteq> HASH_A" "HASH_D \<noteq> HASH_A" "HASH_C \<noteq> HASH_B" "HASH_D \<noteq> HASH_B" "HASH_D \<noteq> HASH_C"
  by (simp_all add: HASH_A_def HASH_B_def HASH_C_def HASH_D_def)

lemma hashes_length: "length HASH_A = 32" "length HASH_B = 32" "length HASH_C = 32" "length HASH_D = 32"
  by (simp_all add: HASH_A_def HASH_B_def HASH_C_def HASH_D_def)

lemma hashes_alphabet:
  "set HASH_A \<subseteq> set NIX_BASE32_CHARS" "set HASH_B \<subseteq> set NIX_BASE32_CHARS" "set HASH_C \<subseteq> set NIX_BASE32_CHARS" "set HASH_D \<subseteq> set NIX_BASE32_CHARS"
  by (simp_all add: HASH_A_def HASH_B_def HASH_C_def HASH_D_def NIX_BASE32_CHARS_def)

lemma sp_text_inject: "length h = length h' \<Longrightarrow> sp_text h nm = sp_text h' nm' \<longleftrightarrow> h = h' \<and> nm = nm'"
  by (simp add: sp_text_def)

lemma closure_tests: closure_tests
proof -
  obtain a where a: "store_path_parse (sp_text HASH_A ''hello-2.12.1'') = Ok a" "store_path_display a = sp_text HASH_A ''hello-2.12.1''" "hash_str a = HASH_A"
    by (rule fixture_path[OF hashes_alphabet(1) hashes_length(1), of "''hello-2.12.1''"]) (simp_all add: is_cont_def)
  obtain g where g: "store_path_parse (sp_text HASH_A ''glibc-2.37-8'') = Ok g" "store_path_display g = sp_text HASH_A ''glibc-2.37-8''" "hash_str g = HASH_A"
    "store_path_ref_parse (basename_text HASH_A ''glibc-2.37-8'') = Ok (StorePathRef (basename_text HASH_A ''glibc-2.37-8''))"
    "to_store_path_string (StorePathRef (basename_text HASH_A ''glibc-2.37-8'')) = sp_text HASH_A ''glibc-2.37-8''"
    by (rule fixture_path[OF hashes_alphabet(1) hashes_length(1), of "''glibc-2.37-8''"]) (simp_all add: is_cont_def)
  obtain b where b: "store_path_parse (sp_text HASH_B ''glibc-2.37-8'') = Ok b" "store_path_display b = sp_text HASH_B ''glibc-2.37-8''" "hash_str b = HASH_B"
    "store_path_ref_parse (basename_text HASH_B ''glibc-2.37-8'') = Ok (StorePathRef (basename_text HASH_B ''glibc-2.37-8''))"
    "to_store_path_string (StorePathRef (basename_text HASH_B ''glibc-2.37-8'')) = sp_text HASH_B ''glibc-2.37-8''"
    by (rule fixture_path[OF hashes_alphabet(2) hashes_length(2), of "''glibc-2.37-8''"]) (simp_all add: is_cont_def)
  obtain c where c: "store_path_parse (sp_text HASH_C ''gcc-12.3.0-lib'') = Ok c" "store_path_display c = sp_text HASH_C ''gcc-12.3.0-lib''" "hash_str c = HASH_C"
    "store_path_ref_parse (basename_text HASH_C ''gcc-12.3.0-lib'') = Ok (StorePathRef (basename_text HASH_C ''gcc-12.3.0-lib''))"
    "to_store_path_string (StorePathRef (basename_text HASH_C ''gcc-12.3.0-lib'')) = sp_text HASH_C ''gcc-12.3.0-lib''"
    by (rule fixture_path[OF hashes_alphabet(3) hashes_length(3), of "''gcc-12.3.0-lib''"]) (simp_all add: is_cont_def)
  obtain d where d: "store_path_parse (sp_text HASH_D ''linux-headers-6.5'') = Ok d" "store_path_display d = sp_text HASH_D ''linux-headers-6.5''" "hash_str d = HASH_D"
    "store_path_ref_parse (basename_text HASH_D ''linux-headers-6.5'') = Ok (StorePathRef (basename_text HASH_D ''linux-headers-6.5''))"
    "to_store_path_string (StorePathRef (basename_text HASH_D ''linux-headers-6.5'')) = sp_text HASH_D ''linux-headers-6.5''"
    by (rule fixture_path[OF hashes_alphabet(4) hashes_length(4), of "''linux-headers-6.5''"]) (simp_all add: is_cont_def)
  note run = resolve_in_def client_of_def built_def builder_new_def builder_references_def builder_build_def builder_nar_size_def builder_file_size_def
    add_narinfo_def fake_new_def fake_fetch_narinfo_def resolve_closure_def eval_nat_numeral a g b c d sp_text_inject hashes_length
    closure_nar_size_def closure_file_size_def ok_and_def
  show ?thesis
    by (simp add: closure_tests_def Let_def run strip_prefix_def)
qed

section \<open>A sample of the arguments\<close>

text \<open>A hash of 32 bytes that keeps the first bytes of its input, streamed by collecting them, and a decoder for the fixtures.\<close>

definition pad_hash :: "bytes \<Rightarrow> bytes" where
  "pad_hash bs = take 32 (bs @ replicate 32 0)"

definition pad_ops :: "bytes sha256_ops" where
  "pad_ops = \<lparr>sha_new = [], sha_update = (@), sha_finalize = pad_hash\<rparr>"

definition fixture_crypto :: "bytes crypto" where
  "fixture_crypto =
     \<lparr>base64_decode = (\<lambda>s. Ok (replicate (length s div 4 * 3 - length (filter (\<lambda>c. c = CHR ''='') s)) 0)),
      verifying_key_from_bytes = Ok, ed25519_verify = (\<lambda>k m s. False)\<rparr>"

lemma sample_arguments:
  "decodes_fixtures fixture_crypto" "sha256_streams pad_ops pad_hash" "length (pad_hash bs) = 32"
  "pad_hash (as_bytes ''world'') \<noteq> pad_hash (as_bytes ''hello'')"
  by (simp_all add: decodes_fixtures_def fixture_crypto_def ok_and_def is_ok_def sha256_streams_def pad_ops_def pad_hash_def as_bytes_def foldl_append)

section \<open>Properties\<close>

text \<open>The unit tests of niphas-core hold of the model: every test of its modules for evaluation requests, hashes, store paths,
  configuration, NAR archives, signatures, narinfo files and closures, for every hash function and every cryptography that the tests
  fit.\<close>

theorem core_tests_pass:
  assumes "decodes_fixtures cr" and "sha256_streams ops sha256" and "\<forall>bs. length (sha256 bs) = 32"
    and "sha256 (as_bytes ''world'') \<noteq> sha256 (as_bytes ''hello'')"
  shows "flake_ref_tests \<and> attribute_tests \<and> revision_tests \<and> request_tests \<and> base32_tests \<and> nix_hash_tests sha256 \<and>
    store_path_tests \<and> config_tests \<and> nar_tests ops eof \<and> signature_tests cr \<and> narinfo_tests cr \<and> closure_tests"
  using assms
  by (intro conjI flake_ref_tests attribute_tests revision_tests request_tests base32_tests nix_hash_tests store_path_tests
      config_tests nar_tests signature_tests narinfo_tests closure_tests) auto

theorem core_tests_pass_witness: "nix_hash_tests pad_hash \<and> nar_tests pad_ops ''eof'' \<and> narinfo_tests fixture_crypto"
  using core_tests_pass[OF sample_arguments(1,2) _ sample_arguments(4)] sample_arguments(3) by blast

end
