(* ===== verification/Service_Tests.thy ===== *)
theory Service_Tests
  imports Core_Tests Http_Services Csi_Node
begin

text \<open>
  The unit tests of the programs: of the evaluation service (the modules \<open>tests\<close> in src/crates/niphas-eval/src/ and its HTTP
  tests in src/crates/niphas-eval/tests/integration.rs), of the CSI driver (src/crates/niphas-csi/src/ and its gRPC
  tests in src/crates/niphas-csi/tests/integration.rs) and of the operator (src/crates/niphas-operator/src/resources.rs), each group as one executable predicate over the model.
\<close>

section \<open>The evaluation service\<close>

definition glob_tests :: bool where
  "glob_tests \<longleftrightarrow>
     matches_glob ''github:nixos/nixpkgs'' ''github:nixos/nixpkgs'' = (Ok True :: bool result) \<and>
     matches_glob ''github:myorg/myapp'' ''github:myorg/*'' = (Ok True :: bool result) \<and>
     matches_glob ''github:myorg/lib'' ''github:myorg/*'' = (Ok True :: bool result) \<and>
     matches_glob ''github:other/repo'' ''github:myorg/*'' = (Ok False :: bool result) \<and>
     matches_glob ''github:myorg/myapp'' ''github:*/*'' = (Ok True :: bool result) \<and>
     matches_glob ''github:nixos/nixpkgs'' ''github:*/*'' = (Ok True :: bool result) \<and>
     matches_glob ''path:/local/flake'' ''github:*/*'' = (Ok False :: bool result) \<and>
     matches_glob ''github:evil/repo'' ''github:myorg/*'' = (Ok False :: bool result)"

definition allowlist_tests :: bool where
  "allowlist_tests \<longleftrightarrow>
     (let allowlist = [''github:myorg/*'', ''github:nixos/nixpkgs''] in
      is_ok (validate_flake_origin ''github:myorg/app'' allowlist) \<and>
      is_ok (validate_flake_origin ''github:nixos/nixpkgs'' allowlist) \<and>
      is_err (validate_flake_origin ''github:evil/repo'' allowlist)) \<and>
     is_err (validate_flake_origin ''github:myorg/app'' [])"

definition app_error_tests :: bool where
  "app_error_tests \<longleftrightarrow>
     fst (into_response (AppInvalidInput ''bad flake_ref'')) = 400 \<and>
     fst (into_response (AppFlakeNotAllowed ''bad'')) = 403 \<and>
     fst (into_response (EvalFailed ''nix failed'')) = 422 \<and>
     fst (into_response AppEvalTimeout) = 408 \<and>
     fst (into_response (ClosureResolutionFailed ''fail'')) = 502 \<and>
     fst (into_response (Internal ''oops'')) = 500 \<and>
     snd (into_response (AppFlakeNotAllowed ''github:evil/repo'')) = \<lparr>error = ''FlakeNotAllowed'', message = ''github:evil/repo''\<rparr> \<and>
     snd (into_response (AppInvalidInput ''bad field'')) = \<lparr>error = ''InvalidInput'', message = ''bad field''\<rparr> \<and>
     (case app_error_from (InvalidInput ''bad'') of AppInvalidInput _ \<Rightarrow> True | _ \<Rightarrow> False) \<and>
     (case app_error_from (FlakeNotAllowed ''x'') of AppFlakeNotAllowed _ \<Rightarrow> True | _ \<Rightarrow> False) \<and>
     app_error_from (EvalTimeout 300) = AppEvalTimeout \<and>
     (case app_error_from (ClosureResolution ''fail'') of ClosureResolutionFailed _ \<Rightarrow> True | _ \<Rightarrow> False) \<and>
     (case app_error_from (Io ''x'') of Internal _ \<Rightarrow> True | _ \<Rightarrow> False)"

text \<open>The server of the HTTP tests, with no nix command, and its answers.\<close>

definition spawn_app :: evaluator where
  "spawn_app = \<lparr>ev_config = default_config\<lparr>allowed_flake_origins := [''github:myorg/*'']\<rparr>,
     ev_cache_client = \<lparr>client_caches = []\<rparr>, warm = False\<rparr>"

definition get_request :: "string \<Rightarrow> http_request" where
  "get_request path = \<lparr>rq_method = GET, rq_path = path, rq_content_type = None, rq_body = []\<rparr>"

definition post_evaluate :: "string \<Rightarrow> string \<Rightarrow> http_request" where
  "post_evaluate content_type body =
     \<lparr>rq_method = POST, rq_path = ''/evaluate'', rq_content_type = Some content_type, rq_body = body\<rparr>"

definition answer ::
  "(eval_route routes \<Rightarrow> http_method \<Rightarrow> string \<Rightarrow> nat + eval_route) \<Rightarrow> (http_request \<Rightarrow> nat + eval_request) \<Rightarrow>
     'k eval_env \<Rightarrow> http_request \<Rightarrow> nat \<times> string" where
  "answer dispatch from_json env rq =
     (case fst (eval_http dispatch from_json (env\<lparr>run_nix := (\<lambda>_. SpawnFailed ''not found'')\<rparr>) spawn_app rq) of
        Ok (st, ErrorBody b) \<Rightarrow> (st, error b) | Ok (st, _) \<Rightarrow> (st, []) | _ \<Rightarrow> (0, []))"

definition injection :: string where
  "injection = ''github:myorg/app'' @ [CHR 0x22] @ '' ++ builtins.readFile /etc/shadow ++ '' @ [CHR 0x22]"

definition http_tests ::
  "(eval_route routes \<Rightarrow> http_method \<Rightarrow> string \<Rightarrow> nat + eval_route) \<Rightarrow> (http_request \<Rightarrow> nat + eval_request) \<Rightarrow>
     (eval_request \<Rightarrow> string) \<Rightarrow> 'k eval_env \<Rightarrow> bool" where
  "http_tests dispatch from_json to_json env \<longleftrightarrow>
     (let ask = answer dispatch from_json env;
          evaluate = (\<lambda>fr. ask (post_evaluate ''application/json'' (to_json (test_request fr ''packages.x86_64-linux.default'' None)))) in
      fst (ask (get_request ''/healthz'')) = 200 \<and>
      fst (ask (get_request ''/readyz'')) = 503 \<and>
      evaluate ''github:evil/repo'' = (403, ''FlakeNotAllowed'') \<and>
      evaluate injection = (400, ''InvalidInput'') \<and>
      evaluate ''github:myorg/app'' = (422, ''EvalFailed''))"

text \<open>Bodies that are not a request: the answers of the extractor.\<close>

definition rejection_tests ::
  "(eval_route routes \<Rightarrow> http_method \<Rightarrow> string \<Rightarrow> nat + eval_route) \<Rightarrow> (http_request \<Rightarrow> nat + eval_request) \<Rightarrow> 'k eval_env \<Rightarrow> bool" where
  "rejection_tests dispatch from_json env \<longleftrightarrow>
     (let ask = answer dispatch from_json env in
      fst (ask (post_evaluate ''application/json''
        (''{'' @ [CHR 0x22] @ ''not'' @ [CHR 0x22] @ '': '' @ [CHR 0x22] @ ''valid'' @ [CHR 0x22] @ ''}''))) = 422 \<and>
      fst (ask (post_evaluate ''application/json'' ''{}'')) = 422 \<and>
      fst (ask (post_evaluate ''text/plain'' ''not json'')) = 415)"

section \<open>The CSI driver\<close>

definition path_for_tests :: bool where
  "path_for_tests \<longleftrightarrow>
     path_for ''/cache'' ''/nix/store/abc123-hello'' = ''/cache/abc123-hello'' \<and>
     path_for ''/cache'' ''abc123-hello'' = ''/cache/abc123-hello''"

definition identity_tests :: "string \<Rightarrow> bool" where
  "identity_tests cargo_version \<longleftrightarrow>
     ok_and (\<lambda>i. plugin_name i = ''niphas.io.csi'' \<and> vendor_version i \<noteq> []) (get_plugin_info cargo_version) \<and>
     ok_and (\<lambda>cs. cs = []) get_plugin_capabilities \<and>
     probe = Ok (Some True)"

definition publish_fixture :: "string \<Rightarrow> string \<Rightarrow> string option \<Rightarrow> string option \<Rightarrow> publish_request" where
  "publish_fixture volume_id target_path sp closure =
     \<lparr>pub_volume_id = volume_id, pub_target_path = target_path,
      volume_context = (\<lambda>k. if k = ''storePath'' then sp else if k = ''closurePaths'' then closure else None)\<rparr>"

definition fails_with :: "code \<Rightarrow> (grpc_status, 'a) outcome \<Rightarrow> bool" where
  "fails_with c r = (case r of Err st \<Rightarrow> status_code st = c | _ \<Rightarrow> False)"

definition publish_tests :: "'h csi_env \<Rightarrow> fs \<Rightarrow> bool" where
  "publish_tests env f \<longleftrightarrow>
     (let publish = (\<lambda>m req. fst (node_publish_volume (make_service env f) req m)) in
      fails_with InvalidArgument (publish fake_mounts_new (publish_fixture [] ''/target'' (Some ''/nix/store/abc'') (Some ''abc''))) \<and>
      fails_with InvalidArgument (publish fake_mounts_new (publish_fixture ''vol-1'' [] (Some ''/nix/store/abc'') (Some ''abc''))) \<and>
      fails_with InvalidArgument (publish fake_mounts_new (publish_fixture ''vol-1'' ''/target'' None (Some ''abc''))) \<and>
      fails_with InvalidArgument (publish fake_mounts_new (publish_fixture ''vol-1'' ''/target'' (Some ''/nix/store/abc'') None)) \<and>
      publish (fake_with_mounted ''/target'') (publish_fixture ''vol-1'' ''/target'' (Some ''/nix/store/abc'') (Some ''abc'')) = Ok () \<and>
      fails_with Unavailable
        (publish (fake_mounts_new\<lparr>mount_fail := True\<rparr>) (publish_fixture ''vol-1'' ''/target'' (Some ''/nix/store/abc'') (Some ''abc''))))"

definition unpublish_tests :: "'h csi_env \<Rightarrow> fs \<Rightarrow> bool" where
  "unpublish_tests env f \<longleftrightarrow>
     (let unpublish = (\<lambda>m v t. fst (node_unpublish_volume (make_service env f) \<lparr>unpub_volume_id = v, unpub_target_path = t\<rparr> m)) in
      fails_with InvalidArgument (unpublish fake_mounts_new [] ''/target'') \<and>
      fails_with InvalidArgument (unpublish fake_mounts_new ''vol-1'' []) \<and>
      unpublish fake_mounts_new ''vol-1'' ''/target'' = Ok () \<and>
      unpublish (fake_with_mounted ''/target'') ''vol-1'' ''/target'' = Ok () \<and>
      node_get_capabilities = Ok [] \<and>
      ok_and (\<lambda>i. info_node_id i = ''test-node'') (node_get_info (make_service env f)))"

text \<open>The tests over gRPC (src/crates/niphas-csi/tests/integration.rs), at the handlers behind the transport.\<close>

definition grpc_server :: "'h csi_env \<Rightarrow> fs \<Rightarrow> fake_mounts node_service" where
  "grpc_server env f =
     node_service_with_deps ''test-node'' ''/tmp/niphas-test-cache'' (fake_ensure env ''/tmp/niphas-test-cache'' f) fake_mount_ops"

definition fails_naming :: "code \<Rightarrow> string \<Rightarrow> (grpc_status, 'a) outcome \<Rightarrow> bool" where
  "fails_naming c s r = (case r of Err (Status c' m) \<Rightarrow> c' = c \<and> split_once s m \<noteq> None | _ \<Rightarrow> False)"

definition grpc_tests :: "string \<Rightarrow> 'h csi_env \<Rightarrow> fs \<Rightarrow> bool" where
  "grpc_tests cargo_version env f \<longleftrightarrow>
     (let svc = grpc_server env f;
          publish = (\<lambda>v t sp cl. fst (node_publish_volume svc (publish_fixture v t sp cl) fake_mounts_new));
          unpublish = (\<lambda>v t. fst (node_unpublish_volume svc \<lparr>unpub_volume_id = v, unpub_target_path = t\<rparr> fake_mounts_new)) in
      ok_and (\<lambda>i. plugin_name i = ''niphas.io.csi'' \<and> vendor_version i \<noteq> []) (get_plugin_info cargo_version) \<and>
      probe = Ok (Some True) \<and>
      fails_with Unavailable (publish ''vol-1'' ''/mnt/test-target'' (Some ''/nix/store/abc123-hello'') (Some ''abc123-hello'')) \<and>
      fails_naming InvalidArgument ''volume_id'' (publish [] ''/mnt/target'' None None) \<and>
      fails_naming InvalidArgument ''target_path'' (unpublish ''vol-1'' []) \<and>
      fails_naming InvalidArgument ''storePath'' (publish ''vol-1'' ''/mnt/target'' None (Some ''abc123-hello'')) \<and>
      fails_naming InvalidArgument ''closurePaths'' (publish ''vol-1'' ''/mnt/target'' (Some ''/nix/store/abc123-hello'') None) \<and>
      is_ok (unpublish ''vol-1'' ''/mnt/not-mounted'') \<and>
      node_get_capabilities = Ok [] \<and>
      ok_and (\<lambda>i. info_node_id i = ''test-node'') (node_get_info svc))"

section \<open>The operator\<close>

definition test_workload :: "string \<Rightarrow> niphas_workload" where
  "test_workload nm =
     \<lparr>metadata = \<lparr>meta_name = Some nm, generate_name = None, meta_namespace = Some ''default'', meta_uid = Some ''test-uid-1234'',
        generation = None, deletion_timestamp = None, finalizers = None\<rparr>,
      spec = \<lparr>ws_flake_ref = ''github:test/app'', ws_attribute = ''packages.x86_64-linux.default'', ws_revision = None,
        ws_replicas = Some 1, ws_binary_cache = None, ws_command = None, ws_args = None, ws_env = None, ws_ports = None,
        ws_resources = None, ws_liveness_probe = None, ws_readiness_probe = None, ws_startup_probe = None,
        ws_node_selector = None, ws_tolerations = None, ws_affinity = None, ws_service = None, ws_ingress = None,
        ws_extra_volumes = None, ws_extra_volume_mounts = None, ws_architectures = None\<rparr>,
      status_of = None\<rparr>"

definition test_eval_result :: eval_response where
  "test_eval_result =
     \<lparr>resp_store_path = ''/nix/store/abc123-myapp-1.0.0'', resp_name = ''myapp-1.0.0'', main_program = Some ''myapp'',
      closure_paths = [''/nix/store/abc123-myapp-1.0.0'', ''/nix/store/def456-glibc-2.37'']\<rparr>"

text \<open>The elements of an array in a manifest, and the fields of its first one.\<close>

definition elements :: "json \<Rightarrow> string list \<Rightarrow> json list" where
  "elements j ks = (case jpath j ks of Some (JArr xs) \<Rightarrow> xs | _ \<Rightarrow> [])"

definition in_first :: "json \<Rightarrow> string list \<Rightarrow> string list \<Rightarrow> json option" where
  "in_first j ks ks' = (case elements j ks of [] \<Rightarrow> None | x # _ \<Rightarrow> jpath x ks')"

definition deployment_tests :: bool where
  "deployment_tests \<longleftrightarrow>
     (let pod = (\<lambda>ks. [''spec'', ''template'', ''spec''] @ ks);
          dep = build_deployment (test_workload ''myapp'') test_eval_result ''myapp'' ''default'' in
      jpath dep [''apiVersion''] = Some (JStr ''apps/v1'') \<and> jpath dep [''kind''] = Some (JStr ''Deployment'') \<and>
      jpath dep [''spec'', ''replicas''] = Some (JInt 1) \<and>
      jpath dep [''metadata'', ''name''] = Some (JStr ''myapp'') \<and> jpath dep [''metadata'', ''namespace''] = Some (JStr ''default'') \<and>
      in_first dep (pod [''volumes'']) [''csi'', ''driver''] = Some (JStr ''niphas.io.csi'') \<and>
      jpath dep (pod [''nodeSelector'', ''niphas.io/store'']) = Some (JStr ''true'') \<and>
      in_first dep (pod [''containers'']) [''command''] = Some (jstrs [''/nix/store/abc123-myapp-1.0.0/bin/myapp'']) \<and>
      jpath dep (pod [''topologySpreadConstraints'']) = None)"

definition spread_tests :: bool where
  "spread_tests \<longleftrightarrow>
     (let w = test_workload ''myapp'';
          dep = build_deployment (w\<lparr>spec := (spec w)\<lparr>ws_replicas := Some 3\<rparr>\<rparr>) test_eval_result ''myapp'' ''default'' in
      jpath dep [''spec'', ''replicas''] = Some (JInt 3) \<and>
      map (\<lambda>c. jget c ''topologyKey'') (elements dep [''spec'', ''template'', ''spec'', ''topologySpreadConstraints'']) =
        [Some (JStr ''kubernetes.io/hostname''), Some (JStr ''topology.kubernetes.io/zone'')])"

definition command_tests :: bool where
  "command_tests \<longleftrightarrow>
     (let w = test_workload ''myapp'';
          dep = build_deployment (w\<lparr>spec := (spec w)\<lparr>ws_command := Some [''/custom/bin'', ''--flag'']\<rparr>\<rparr>) test_eval_result ''myapp'' ''default'' in
      in_first dep [''spec'', ''template'', ''spec'', ''containers''] [''command''] = Some (jstrs [''/custom/bin'', ''--flag'']))"

definition owner_ref_tests :: bool where
  "owner_ref_tests \<longleftrightarrow>
     (let dep = build_deployment (test_workload ''myapp'') test_eval_result ''myapp'' ''default'';
          owner = (\<lambda>k. in_first dep [''metadata'', ''ownerReferences''] [k]) in
      length (elements dep [''metadata'', ''ownerReferences'']) = 1 \<and>
      owner ''apiVersion'' = Some (JStr ''niphas.io/v1alpha1'') \<and> owner ''kind'' = Some (JStr ''NiphasWorkload'') \<and>
      owner ''controller'' = Some (JBool True) \<and> owner ''uid'' = Some (JStr ''test-uid-1234''))"

definition service_tests :: bool where
  "service_tests \<longleftrightarrow>
     (let w = test_workload ''myapp'';
          port = \<lparr>sp_name = Some ''http'', sp_port = 80, sp_target_port = Some ''8080'', sp_protocol = None\<rparr>;
          svc = build_service (w\<lparr>spec := (spec w)\<lparr>ws_service := Some \<lparr>svc_type = None, svc_ports = [port]\<rparr>\<rparr>\<rparr>) ''myapp'' ''default'' in
      ok_and (\<lambda>j. jpath j [''spec'', ''type''] = Some (JStr ''ClusterIP'') \<and>
        jpath j [''spec'', ''selector'', ''niphas.io/workload''] = Some (JStr ''myapp'') \<and>
        in_first j [''spec'', ''ports''] [''port''] = Some (JInt 80) \<and>
        in_first j [''spec'', ''ports''] [''targetPort''] = Some (JInt 8080) \<and>
        in_first j [''spec'', ''ports''] [''name''] = Some (JStr ''http'')) (svc :: (unit, json) outcome))"

definition ingress_tests :: bool where
  "ingress_tests \<longleftrightarrow>
     (let w = test_workload ''myapp'';
          ing = \<lparr>ing_enabled = True, ing_class_name = Some ''nginx'',
            ing_hosts = Some [\<lparr>ih_host = ''app.example.com'', ih_paths = [\<lparr>ip_path = ''/'', ip_path_type = None, ip_port = ''80''\<rparr>]\<rparr>],
            ing_tls = Some [\<lparr>tls_secret_name = ''app-tls'', tls_hosts = [''app.example.com'']\<rparr>]\<rparr> in
      ok_and (\<lambda>j. jpath j [''spec'', ''ingressClassName''] = Some (JStr ''nginx'') \<and>
        length (elements j [''spec'', ''tls'']) = 1 \<and>
        in_first j [''spec'', ''tls''] [''secretName''] = Some (JStr ''app-tls'') \<and>
        in_first j [''spec'', ''rules''] [''host''] = Some (JStr ''app.example.com''))
        (build_ingress (w\<lparr>spec := (spec w)\<lparr>ws_ingress := Some ing\<rparr>\<rparr>) ''myapp'' ''default'' :: (unit, json) outcome))"

definition pdb_tests :: bool where
  "pdb_tests \<longleftrightarrow>
     (let pdb = build_pdb (test_workload ''myapp'') ''myapp'' ''default'' in
      jpath pdb [''metadata'', ''name''] = Some (JStr ''myapp-pdb'') \<and> jpath pdb [''spec'', ''maxUnavailable''] = Some (JInt 1) \<and>
      jpath pdb [''spec'', ''selector'', ''matchLabels'', ''niphas.io/workload''] = Some (JStr ''myapp''))"

definition owner_reference_tests :: bool where
  "owner_reference_tests \<longleftrightarrow>
     (let oref = owner_reference (test_workload ''myapp'') in
      jget oref ''apiVersion'' = Some (JStr ''niphas.io/v1alpha1'') \<and> jget oref ''kind'' = Some (JStr ''NiphasWorkload'') \<and>
      jget oref ''name'' = Some (JStr ''myapp'') \<and> jget oref ''controller'' = Some (JBool True) \<and>
      jget oref ''blockOwnerDeletion'' = Some (JBool True))"

definition resolved_command_tests :: bool where
  "resolved_command_tests \<longleftrightarrow>
     (let er = (\<lambda>p. \<lparr>resp_store_path = ''/nix/store/abc-hello-2.12.1'', resp_name = ''hello-2.12.1'', main_program = p, closure_paths = []\<rparr>) in
      resolved_command (er (Some ''hello'')) = ''/nix/store/abc-hello-2.12.1/bin/hello'' \<and>
      resolved_command (er None) = ''/nix/store/abc-hello-2.12.1/bin/hello-2.12.1'')"

definition resource_tests :: bool where
  "resource_tests \<longleftrightarrow> deployment_tests \<and> spread_tests \<and> command_tests \<and> owner_ref_tests \<and> service_tests \<and> ingress_tests \<and>
     pdb_tests \<and> owner_reference_tests \<and> resolved_command_tests"

section \<open>The tests hold\<close>

lemma glob_tests: glob_tests
  by (simp add: glob_tests_def matches_glob.simps next_char_def str_simps slice_from_def is_char_boundary_def is_cont_def upt_rec del: chars.simps)

lemma app_error_tests: app_error_tests
  by (simp add: app_error_tests_def)

lemma path_for_tests: path_for_tests
  by (simp add: path_for_tests_def path_for_def strip_store_dir_def strip_prefix_def path_join_def absolute_def)

lemma identity_tests: "v \<noteq> [] \<Longrightarrow> identity_tests v"
  by (simp add: identity_tests_def get_plugin_info_def get_plugin_capabilities_def probe_def ok_and_def)

lemma unpublish_tests: "unpublish_tests env f"
  by (simp add: unpublish_tests_def make_service_def node_service_with_deps_def node_unpublish_volume_def fake_mount_ops_def Let_def
      fails_with_def fake_mounts_new_def fake_with_mounted_def node_get_capabilities_def node_get_info_def ok_and_def pdrop_def pbind_def pmap_err_def)

lemma allowlist_tests: allowlist_tests
  by (simp add: allowlist_tests_def is_ok_def is_err_def validate_flake_origin_def matches_glob.simps next_char_def str_simps
      slice_from_def is_char_boundary_def is_cont_def upt_rec del: chars.simps)

lemma short_path: "strip_store_dir ''abc'' = ''abc''" "closure_list ''abc'' = [''abc'']"
proof -
  have "graphic ''abc''" by (simp add: graphic_def)
  then show "strip_store_dir ''abc'' = ''abc''" "closure_list ''abc'' = [''abc'']"
    by (simp_all add: strip_store_dir_def strip_prefix_def closure_list_def split_char_go trim_graphic)
qed

lemma publish_tests:
  assumes "\<not> is_cached ''/tmp/test-cache'' ''abc'' f"
  shows "publish_tests env f"
  using assms
  by (simp add: publish_tests_def make_service_def node_service_with_deps_def node_publish_volume_def fake_mount_ops_def Let_def
      fails_with_def fake_mounts_new_def fake_with_mounted_def publish_fixture_def short_path fake_ensure_def ensure_cached_def
      ensure_path_def fetch_and_extract_def parse_basename_short pmap_err_def pbind_def)

lemma short_basename: "strip_store_dir ''abc123-hello'' = ''abc123-hello''" "closure_list ''abc123-hello'' = [''abc123-hello'']"
proof -
  have "graphic ''abc123-hello''" by (simp add: graphic_def)
  then show "strip_store_dir ''abc123-hello'' = ''abc123-hello''" "closure_list ''abc123-hello'' = [''abc123-hello'']"
    by (simp_all add: strip_store_dir_def strip_prefix_def closure_list_def split_char_go trim_graphic)
qed

lemma grpc_tests:
  assumes "cargo_version \<noteq> []" "\<not> is_cached ''/tmp/niphas-test-cache'' ''abc123-hello'' f"
  shows "grpc_tests cargo_version env f"
  using assms
  by (simp add: grpc_tests_def grpc_server_def node_service_with_deps_def node_publish_volume_def node_unpublish_volume_def fake_mount_ops_def
      Let_def fails_with_def fails_naming_def fake_mounts_new_def publish_fixture_def short_basename fake_ensure_def ensure_cached_def
      ensure_path_def fetch_and_extract_def parse_basename_short pmap_err_def pbind_def pdrop_def get_plugin_info_def probe_def ok_and_def
      is_ok_def node_get_capabilities_def node_get_info_def strip_prefix_def)

lemma deployment_tests: deployment_tests
  by (simp add: deployment_tests_def Let_def in_first_def elements_def build_deployment_def child_metadata_def pod_spec_def
      node_selector_def container_def volumes_def test_workload_def test_eval_result_def resolved_command_def)

lemma spread_tests: spread_tests
  by (simp add: spread_tests_def Let_def elements_def build_deployment_def pod_spec_def spread_constraint_def test_workload_def)

lemma command_tests: command_tests
  by (simp add: command_tests_def Let_def in_first_def elements_def build_deployment_def pod_spec_def container_def test_workload_def)

lemma owner_ref_tests: owner_ref_tests
  by (simp add: owner_ref_tests_def Let_def in_first_def elements_def build_deployment_def child_metadata_def owner_reference_def
      test_workload_def)

lemma service_tests: service_tests
  by (simp add: service_tests_def Let_def ok_and_def in_first_def elements_def build_service_def service_port_def workload_selector_def
      test_workload_def parse_i32_def parse_u64_def digit_value_def)

lemma ingress_tests: ingress_tests
  by (simp add: ingress_tests_def Let_def ok_and_def in_first_def elements_def build_ingress_def ingress_rule_def test_workload_def)

lemma pdb_tests: pdb_tests
  by (simp add: pdb_tests_def build_pdb_def child_metadata_def workload_selector_def)

lemma owner_reference_tests: owner_reference_tests
  by (simp add: owner_reference_tests_def owner_reference_def name_any_def test_workload_def)

lemma resolved_command_tests: resolved_command_tests
  by (simp add: resolved_command_tests_def resolved_command_def)

lemma resource_tests: resource_tests
  by (simp add: resource_tests_def deployment_tests spread_tests command_tests owner_ref_tests service_tests ingress_tests pdb_tests
      owner_reference_tests resolved_command_tests)

subsection \<open>The HTTP tests\<close>

text \<open>The three requests of the tests: outside the allowlist, outside the grammar, and one for which nix is started.\<close>

lemma grammar_of_requests:
  "validate_eval_request (test_request ''github:evil/repo'' ''packages.x86_64-linux.default'' None) = Ok ()"
  "validate_eval_request (test_request ''github:myorg/app'' ''packages.x86_64-linux.default'' None) = Ok ()"
  "is_err (validate_eval_request (test_request injection ''packages.x86_64-linux.default'' None))"
  by (simp_all add: injection_def test_simps test_request_def validate_eval_request_def validate_flake_ref_def validate_attribute_def
      split_char_go strip_prefix_def str_simps byte_classes letter_def digit_def del: chars.simps)

lemma origins_of_requests:
  "validate_flake_origin ''github:myorg/app'' [''github:myorg/*''] = Ok ()"
  "\<exists>m. validate_flake_origin ''github:evil/repo'' [''github:myorg/*''] = Err (AppFlakeNotAllowed m)"
  by (simp_all add: validate_flake_origin_def matches_glob.simps next_char_def str_simps
      slice_from_def is_char_boundary_def is_cont_def upt_rec del: chars.simps)

lemma http_tests:
  assumes "axum dispatch" "\<And>req. from_json (post_evaluate ''application/json'' (to_json req)) = Inr req"
  shows "http_tests dispatch from_json to_json env"
proof -
  have d: "dispatch app GET ''/healthz'' = Inr HealthzRoute" "dispatch app GET ''/readyz'' = Inr ReadyzRoute"
    "dispatch app POST ''/evaluate'' = Inr EvaluateRoute"
    using axum.hit[OF assms(1) app_distinct(1)] by (simp_all add: app_def)
  let ?env = "env\<lparr>run_nix := (\<lambda>_. SpawnFailed ''not found'')\<rparr>"
  have ask: "fst (answer dispatch from_json env (get_request ''/healthz'')) = 200" "fst (answer dispatch from_json env (get_request ''/readyz'')) = 503"
    by (simp_all add: answer_def eval_http_def get_request_def d healthz_def readyz_def is_warm_def spawn_app_def)
  have post: "answer dispatch from_json env (post_evaluate ''application/json'' (to_json req)) =
      (case evaluate_steps ?env spawn_app req of Ok _ \<Rightarrow> (200, []) | Err e \<Rightarrow> (fst (into_response e), error (snd (into_response e))) | _ \<Rightarrow> (0, []))" for req
    using d(3) assms(2)[of req] by (simp add: answer_def eval_http_def post_evaluate_def handler_eq split: outcome.split)
  have "allowed_flake_origins (ev_config spawn_app) = [''github:myorg/*'']" by (simp add: spawn_app_def)
  note steps = evaluate_steps_def this
  obtain m where evil: "validate_flake_origin ''github:evil/repo'' [''github:myorg/*''] = Err (AppFlakeNotAllowed m)"
    using origins_of_requests(2) by blast
  obtain m' where bad: "validate_eval_request (test_request injection ''packages.x86_64-linux.default'' None) = Err (InvalidInput m')"
    using grammar_of_requests(3) validate_error unfolding is_err_iff by blast
  have ref: "flake_ref (test_request fr att rv) = fr" for fr att rv by (simp add: test_request_def)
  show ?thesis
    unfolding http_tests_def Let_def post
    by (simp add: ask steps grammar_of_requests(1,2) origins_of_requests(1) evil bad ref nix_eval_def)
qed

lemma rejection_tests:
  assumes "axum dispatch" "\<And>b. from_json (post_evaluate ''text/plain'' b) = Inl 415"
    and "\<And>b. b \<in> {''{}'', ''{'' @ [CHR 0x22] @ ''not'' @ [CHR 0x22] @ '': '' @ [CHR 0x22] @ ''valid'' @ [CHR 0x22] @ ''}''} \<Longrightarrow>
      from_json (post_evaluate ''application/json'' b) = Inl 422"
  shows "rejection_tests dispatch from_json env"
proof -
  have "dispatch app POST ''/evaluate'' = Inr EvaluateRoute"
    using axum.hit[OF assms(1) app_distinct(1)] by (simp add: app_def)
  then have "fst (answer dispatch from_json env (post_evaluate t b)) = code" if "from_json (post_evaluate t b) = Inl code" for t b code
    using that by (simp add: answer_def eval_http_def post_evaluate_def)
  then show ?thesis using assms(2,3) by (simp add: rejection_tests_def Let_def)
qed

end
