(* ===== verification/Spec2Isabelle.thy ===== *)
theory Spec2Isabelle
  imports Nar Platform Leader Csi_Locks Startup Service_Tests
begin

text \<open>
  \<^bold>\<open>Verification of niphas.\<close> Niphas runs Nix flakes as Kubernetes workloads: an operator asks an evaluation service which store path a
  flake builds and what its closure is, deploys pods whose CSI volume names that closure, and the CSI driver on each node
  fetches the closure from binary caches and mounts it read-only. This root theory imports the whole development; the properties are in the theories of the
  components, each after a text block with its number.

  \<^bold>\<open>Conventions.\<close> Rust strings are lists of bytes (\<open>string\<close>), byte vectors lists of 8-bit words; \<open>u64\<close> and \<open>u32\<close> are
  words where arithmetic can wrap, unbounded integers where values are only compared or printed. A fallible function returns an
  \<open>outcome\<close>: \<open>Ok\<close>, \<open>Err\<close>, \<open>Panic\<close> (index or slice out of range, unwrap of nothing) or \<open>Diverge\<close> (fuel ran out). Code with effects is a
  \<open>prog\<close> of the theory Effects, a function from a state to an outcome and the state left behind, also after an error. Third-party crates and services
  are arguments of the definitions: SHA-256, Ed25519, base64, decompressors, HTTP exchanges, the nix command, JSON decoding, the API server of the cluster,
  the lease, the merging of configuration sources.

  \<^bold>\<open>Theories.\<close> Paths are below src/crates.
    \<^item> Niphas_Prelude, Rust_Str, Niphas_Error, Effects: outcomes and their automation (\<open>outcome_simps\<close>, \<open>prog_simps\<close>), the string and integer
      functions of the standard library, the error type (niphas-core/src/error.rs), programs with state. Niphas_Prelude has the locales \<open>codec\<close> and
      \<open>canonical_codec\<close> for printers and parsers, interpreted for base-32, hashes, store paths, archives and compressions.
    \<^item> Nix_Hash, Store_Path (nix/hash.rs, nix/store_path.rs): base-32 with the table, hashes, store paths. Round trips, exact domains of the
      parsers, and the inputs on which they panic.
    \<^item> Nar (nix/nar.rs): the streaming archive reader with its depth counter and running hash; it accepts exactly the encodings of
      well-formed trees, returns on every stream, and refuses standard directory archives.
    \<^item> Signature, Nar_Info (nix/signature.rs, nix/narinfo.rs): signatures and trusted keys, the narinfo parser, the fingerprint.
    \<^item> Config (config.rs): records, defaults, order of sources, durations with their wrap-around. Config_Source: the serialized form of a
      configuration and its derived decoders, the merging of the sources (crate figment, the locale \<open>figment\<close>), and the file
      that the Helm chart writes (charts/niphas/templates/configmap.yaml).
    \<^item> Telemetry (telemetry.rs): layers, exporters and their shutdown. Http_Services (niphas-eval/src/lib.rs, main.rs, niphas-operator/src/health.rs): the routes and
      the evaluation service behind them; the locale \<open>axum\<close> and its extension \<open>eval_server\<close> state what the web framework promises, with a
      dispatcher as interpretation. Startup (niphas-csi/src/main.rs, niphas-operator/src/main.rs, context.rs): the starts of the CSI driver and of
      the operator.
    \<^item> Cache_Client (nix/cache_client.rs, testutils): fall-back over caches. The trait is the locale \<open>binary_cache_client\<close> with the extension
      \<open>checked_cache_client\<close>, interpreted for the HTTP client and for the fake client of the tests.
    \<^item> Closure (nix/closure.rs): the breadth-first search with every completion order of the concurrent fetches and any clock. The loop has fuel;
      more than one plus the number of references in the closure is proved to be enough.
    \<^item> Eval_Request, Allowlist, Evaluator (niphas-core/src/eval.rs, niphas-eval): validation as membership in the documented grammars, the glob
      matcher and its language, the steps of an evaluation, HTTP statuses and the readiness flag; that the nix expression cannot be escaped from.
    \<^item> File_System, Csi_Cache, Csi_Mount, Csi_Node (niphas-csi): a file system with symbolic links, permissions and rename; fetch, check and unpack into
      the cache; mounts on a host; the node and identity handlers. Locales \<open>mount_contract\<close> and \<open>csi_node\<close>, interpreted for the real
      operations on a host and for the fake ones of the tests; sequences of calls, also after calls that fail, refine a set of mounted targets. What a failed fetch
      leaves (\<open>retry_ready\<close>, \<open>cache_ok\<close>) is what the next attempt may find, but for archives with links that the kernel refuses (\<open>bad_links\<close>).
    \<^item> Csi_Locks (niphas-csi/src/cache.rs): concurrent calls of \<open>ensure_cached\<close>, which may be dropped, as a step relation over the per-path locks.
    \<^item> Crd, Resources (niphas-core/src/crd.rs, niphas-operator/src/resources.rs): JSON values with merge patch, the custom resource and the decoder of its status, the
      manifests of the child resources and the order in which they are applied.
    \<^item> Reconciler, Reconciler_Logs, Operator_Runs (niphas-operator/src/reconciler.rs, eval.rs, error.rs, health.rs, context.rs): one reconciliation with every early
      return. The state is the state of the world and a log of calls with their answers. Reconciler_Logs proves what a reconciliation can ask for
      against any answers and from which evaluation it makes them, Operator_Runs what repeated reconciliations do when each reads the object that the patches of the
      last one left, and, for any history of edits and reconciliations, that the store path of the status stays one that the service answered.
    \<^item> Leader (niphas-operator/src/main.rs): the wait for the lease (with fuel, since it may last forever), and the renewal task and main task as an interleaved step relation with an
      invariant by rule induction; every store of the flag and the cancellation are steps of their own, so their races are covered.
    \<^item> Mock_Eval (niphas-e2e/src/bin/mock_eval.rs), Platform: the programs together. The locale \<open>eval_service\<close> is what the operator relies on, interpreted for the
      evaluation service and for the mock; the attributes of the deployed volumes are followed to the CSI handlers.
    \<^item> Core_Tests, Service_Tests: the unit tests of the crates and the tests in niphas-eval/tests and niphas-csi/tests, as predicates over the model that are
      proved to hold.

  \<^bold>\<open>What the properties show.\<close> Soundness and completeness of the parsers and of the closure search; that nix runs only for
  requests in the grammar and on the allowlist, and that only store paths that were answered to such requests are ever deployed; that published volumes are read-only and follow the abstract set of mounts; that a failed fetch leaves
  the cache as it was; that the phase Running is only reported with ready replicas and accepted children; that a workload comes up in two reconciliations.
  Some properties state defects exactly: archives of directories are refused, no archive can be unpacked, any host directory can be mounted, a failed
  evaluation leaves the old store path running as the new generation, the volumes of every deployment lack the attribute that the node service
  requires, and the keys of the chart's configuration are not those that are read. They describe the code as it is.

  \<^bold>\<open>Not modelled.\<close> The placeholder niphas-mesh, which prints a message; the JSON schema that derive macros generate for the custom resource, and its generator;
  the watch and work-queue of the crate kube-runtime, which decides when \<open>reconcile\<close> is called (Operator_Runs takes any order of rounds one at a time); timing: sleeps
  are steps that can happen at any time, and deadlines are answers of a clock argument; log messages. Of the tests, those against a cluster.
\<close>

end
